(* ===== verification/Kernel_Prelude.thy ===== *)
theory Kernel_Prelude
  imports Main "HOL-Library.Word"
begin

text \<open>
  Shared vocabulary of the ArtOS development: the machine types of the 32-bit kernel
  (\<^verbatim>\<open>include/lowlevel/stddef.h\<close>), the error numbers of \<^verbatim>\<open>include/errno.h\<close>, the constants
  of \<^verbatim>\<open>include/config.h\<close> that several components use, lemmas on bounded loops written as
  \<open>fold\<close> over an index range, lemmas on machine words, and the predicate \<open>chain\<close> that
  reads a pointer-linked list (next and previous fields) as an Isabelle list.
\<close>

unbundle bit_operations_syntax

section \<open>Machine types and constants\<close>

type_synonym u8 = "8 word"
type_synonym u16 = "16 word"
type_synonym u32 = "32 word"
type_synonym u64 = "64 word"

text \<open>A pointer or physical address of the 32-bit machine, and its flat byte memory.\<close>

type_synonym addr = "32 word"
type_synonym mem = "addr \<Rightarrow> u8"

definition EPERM :: int where [simp]: "EPERM = 1"
definition ENOENT :: int where [simp]: "ENOENT = 2"
definition ENXIO :: int where [simp]: "ENXIO = 6"
definition ENOMEM :: int where [simp]: "ENOMEM = 12"
definition EACCES :: int where [simp]: "EACCES = 13"
definition EBUSY :: int where [simp]: "EBUSY = 16"
definition EEXIST :: int where [simp]: "EEXIST = 17"
definition EINVAL :: int where [simp]: "EINVAL = 22"
definition ENOSYS :: int where [simp]: "ENOSYS = 88"
definition ECANCELED :: int where [simp]: "ECANCELED = 140"

definition PAGE_BITS :: nat where [simp]: "PAGE_BITS = 12"
definition PAGE_SIZE :: u32 where [simp]: "PAGE_SIZE = 4096"
definition PAGE_MASK :: u32 where [simp]: "PAGE_MASK = 0xfffff000"

definition PAGE_FLOOR :: "u32 \<Rightarrow> u32" where
  "PAGE_FLOOR a = (a + PAGE_SIZE - 1) AND PAGE_MASK"

definition PAGE_CEIL :: "u32 \<Rightarrow> u32" where
  "PAGE_CEIL a = a AND PAGE_MASK"

definition MAX_TASKS :: nat where [simp]: "MAX_TASKS = 16"
definition MAX_FILENAME :: nat where [simp]: "MAX_FILENAME = 128"
definition BITMAP_SIZE :: nat where [simp]: "BITMAP_SIZE = 4096"
definition KMSG_SIZE :: nat where [simp]: "KMSG_SIZE = 8192"
definition MAILBOX_SIZE :: nat where [simp]: "MAILBOX_SIZE = 32"

section \<open>Bounded loops\<close>

text \<open>
  A C loop \<^verbatim>\<open>for (i = 0; i < n; i++) body\<close> without an early exit is written
  \<open>fold body [0..<n]\<close>; the next two equations peel its last and its first pass.
\<close>

lemma fold_upt_last [simp]: "fold f [0..<Suc n] s = f n (fold f [0..<n] s)"
  by simp

lemma fold_invariant_upt:
  assumes "P 0 s" and "\<And>i t. i < n \<Longrightarrow> P i t \<Longrightarrow> P (Suc i) (f i t)"
  shows "P n (fold f [0..<n] s)"
  using assms by (induction n) auto

text \<open>A loop whose body may fail (an out-of-bounds access, a call that does not return).\<close>

fun foldM :: "('a \<Rightarrow> 's \<Rightarrow> 's option) \<Rightarrow> 'a list \<Rightarrow> 's \<Rightarrow> 's option" where
  "foldM f [] s = Some s"
| "foldM f (x # xs) s = (case f x s of None \<Rightarrow> None | Some s' \<Rightarrow> foldM f xs s')"

lemma foldM_append: "foldM f (xs @ ys) s = (case foldM f xs s of None \<Rightarrow> None | Some s' \<Rightarrow> foldM f ys s')"
  by (induction xs arbitrary: s) (auto split: option.splits)

lemma foldM_invariant:
  assumes "foldM f xs s = Some s'" and "P s" and "\<And>x s s'. x \<in> set xs \<Longrightarrow> P s \<Longrightarrow> f x s = Some s' \<Longrightarrow> P s'"
  shows "P s'"
  using assms(1,2) assms(3)
proof (induction xs arbitrary: s)
  case Nil
  then show ?case by simp
next
  case (Cons x xs)
  then obtain t where "f x s = Some t" "foldM f xs t = Some s'" by (auto split: option.splits)
  with Cons.prems Cons.IH [of t] show ?case by (metis list.set_intros)
qed

lemma foldM_invariant_upt:
  assumes "P 0 s" and "\<And>i t. i < n \<Longrightarrow> P i t \<Longrightarrow> \<exists>t'. f i t = Some t' \<and> P (Suc i) t'"
  shows "\<exists>s'. foldM f [0..<n] s = Some s' \<and> P n s'"
  using assms
proof (induction n)
  case 0
  then show ?case by simp
next
  case (Suc n)
  then obtain s' where "foldM f [0..<n] s = Some s'" "P n s'" by auto
  then show ?case using Suc.prems(2) [of n s'] by (auto simp: foldM_append)
qed

section \<open>Words\<close>

lemma unat_inc_less:
  assumes "i < (n :: 'a::len word)"
  shows "unat (i + 1) = Suc (unat i)"
proof -
  have "Suc (unat i) \<le> unat n" using assms by (simp add: word_less_nat_alt)
  also have "unat n < 2 ^ LENGTH('a)" by (rule unsigned_less)
  finally show ?thesis by (simp add: unat_word_ariths)
qed

lemma unat_lt32: "unat (x :: u32) < 2 ^ 32"
proof -
  have "unat x < 2 ^ LENGTH(32)" by (rule unsigned_less)
  then show ?thesis by simp
qed

lemma word_inc_le: "i < (n :: 'a::len word) \<Longrightarrow> i + 1 \<le> n"
  by (simp add: word_le_nat_alt word_less_nat_alt unat_inc_less)

lemma word_inc_le_iff: "i < (n :: 'a::len word) \<Longrightarrow> i + 1 \<le> w \<longleftrightarrow> i < w"
  by (simp add: word_le_nat_alt word_less_nat_alt unat_inc_less Suc_le_eq)

lemma unat_diff_step:
  assumes "i < (n :: 'a::len word)"
  shows "unat (n - i) = Suc (unat (n - (i + 1)))"
proof -
  have "unat (n - i) = unat n - unat i" using assms by (simp add: unat_sub less_imp_le)
  moreover have "unat (n - (i + 1)) = unat n - Suc (unat i)"
    using assms by (simp add: unat_sub word_inc_le unat_inc_less)
  ultimately show ?thesis using assms by (simp add: word_less_nat_alt Suc_diff_Suc)
qed

lemma word_add_left_eq: "(p :: 'a::len word) + a = p + b \<longleftrightarrow> a = b"
  by simp

lemma of_nat_inj_32:
  assumes "i < 2 ^ 32" and "j < 2 ^ 32"
  shows "(of_nat i :: u32) = of_nat j \<longleftrightarrow> i = j"
  using assms by (simp add: word_unat_eq_iff take_bit_nat_eq_self unat_of_nat)

lemma of_nat_unat_word: "of_nat (unat w) = (w :: 'a::len word)"
  by simp

lemma u8_high_bit:
  assumes "w < 128" shows "w AND 0x80 = (0 :: u8)"
proof -
  have "take_bit 7 w = w" using assms by (simp add: word_unat_eq_iff unsigned_take_bit_eq take_bit_nat_eq_self word_less_nat_alt)
  then have "\<not> bit w 7" by (metis bit_take_bit_iff less_irrefl)
  moreover have "(0x80 :: u8) = push_bit 7 1" by simp
  ultimately show ?thesis
    by (metis and_exp_eq_0_iff_not_bit push_bit_of_1)
qed

lemma u16_bytes: "ucast (ucast (drop_bit 8 w) :: u8) * 256 + ucast (ucast w :: u8) = w" for w :: u16
proof -
  have "unat w < 2 ^ LENGTH(16)" by (rule unsigned_less)
  then have "unat w < 65536" by simp
  then have "unat w div 256 < 256" by (simp add: div_less_iff_less_mult)
  then show ?thesis
    by (simp add: word_unat_eq_iff unat_word_ariths unsigned_ucast_eq take_bit_eq_mod unat_drop_bit_eq drop_bit_eq_div)
qed

lemma unat_of_nat_32: "n < 2 ^ 32 \<Longrightarrow> unat (of_nat n :: u32) = n"
  by (simp add: unat_of_nat)

lemma int_uint_less [simp]:
  "int n \<le> uint (w :: 'a::len word) \<longleftrightarrow> n \<le> unat w"
  "int n < uint (w :: 'a::len word) \<longleftrightarrow> n < unat w"
  "uint (w :: 'a::len word) < int n \<longleftrightarrow> unat w < n"
  by (metis uint_nat of_nat_le_iff, metis uint_nat of_nat_less_iff, metis uint_nat of_nat_less_iff)

lemma sint_small:
  assumes "uint (w :: u32) < 2 ^ 31"
  shows "sint w = uint w"
proof -
  have "signed_take_bit 31 (uint w) = uint w"
    using uint_ge_0 [of w] assms by (intro signed_take_bit_int_eq_self) linarith+
  then show ?thesis by (simp add: sint_uint)
qed

section \<open>Doubly linked lists in a store\<close>

text \<open>
  \<open>chain nx pv before xs after\<close>: following the next-field \<open>nx\<close> from the first element
  of \<open>xs\<close> visits exactly \<open>xs\<close> and leaves at \<open>after\<close>, and each element's previous-field
  \<open>pv\<close> holds its predecessor, \<open>before\<close> for the first.
\<close>

fun first_or :: "'a list \<Rightarrow> 'a option \<Rightarrow> 'a option" where
  "first_or [] d = d"
| "first_or (x # xs) d = Some x"

fun last_or :: "'a option \<Rightarrow> 'a list \<Rightarrow> 'a option" where
  "last_or d [] = d"
| "last_or d (x # xs) = last_or (Some x) xs"

fun chain :: "('a \<Rightarrow> 'a option) \<Rightarrow> ('a \<Rightarrow> 'a option) \<Rightarrow> 'a option \<Rightarrow> 'a list \<Rightarrow> 'a option \<Rightarrow> bool" where
  "chain nx pv b [] a \<longleftrightarrow> True"
| "chain nx pv b (x # xs) a \<longleftrightarrow>
     pv x = b \<and> nx x = first_or xs a \<and> chain nx pv (Some x) xs a"

text \<open>The same for a list of which only the next-fields are maintained.\<close>

fun nchain :: "('a \<Rightarrow> 'a option) \<Rightarrow> 'a list \<Rightarrow> 'a option \<Rightarrow> bool" where
  "nchain nx [] a \<longleftrightarrow> True"
| "nchain nx (x # xs) a \<longleftrightarrow> nx x = first_or xs a \<and> nchain nx xs a"

named_theorems chain_simps \<open>lemmas on linked lists in a store\<close>

lemma first_or_append [chain_simps]: "first_or (xs @ ys) d = first_or xs (first_or ys d)"
  by (cases xs) auto

lemma last_or_append [chain_simps]: "last_or d (xs @ ys) = last_or (last_or d xs) ys"
  by (induction xs arbitrary: d) auto

lemma first_or_None [simp]: "first_or xs None = None \<longleftrightarrow> xs = []"
  by (cases xs) auto

lemma last_or_snoc [simp]: "last_or d (xs @ [x]) = Some x"
  by (simp add: chain_simps)

lemma last_or_None [simp]: "last_or None xs = None \<longleftrightarrow> xs = []"
  by (cases xs rule: rev_cases) auto

lemma last_or_eq: "last_or d xs = (if xs = [] then d else Some (last xs))"
  by (cases xs rule: rev_cases) auto

lemma first_or_eq: "first_or xs d = (if xs = [] then d else Some (hd xs))"
  by (cases xs) auto

lemma chain_append [chain_simps]:
  "chain nx pv b (xs @ ys) a \<longleftrightarrow>
     chain nx pv b xs (first_or ys a) \<and> chain nx pv (last_or b xs) ys a"
  by (induction xs arbitrary: b) (auto simp: chain_simps)

lemma nchain_append [chain_simps]:
  "nchain nx (xs @ ys) a \<longleftrightarrow> nchain nx xs (first_or ys a) \<and> nchain nx ys a"
  by (induction xs) (auto simp: chain_simps)

lemma chain_nchain: "chain nx pv b xs a \<Longrightarrow> nchain nx xs a"
  by (induction xs arbitrary: b) auto

text \<open>Frame rules: fields of other nodes may change.\<close>

lemma chain_cong:
  assumes "\<And>x. x \<in> set xs \<Longrightarrow> nx x = nx' x" and "\<And>x. x \<in> set xs \<Longrightarrow> pv x = pv' x"
  shows "chain nx pv b xs a = chain nx' pv' b xs a"
  using assms by (induction xs arbitrary: b) auto

lemma nchain_cong:
  assumes "\<And>x. x \<in> set xs \<Longrightarrow> nx x = nx' x"
  shows "nchain nx xs a = nchain nx' xs a"
  using assms by (induction xs) auto

lemma chain_upd_other [chain_simps]:
  "x \<notin> set xs \<Longrightarrow> chain (nx(x := v)) pv b xs a = chain nx pv b xs a"
  "x \<notin> set xs \<Longrightarrow> chain nx (pv(x := v)) b xs a = chain nx pv b xs a"
  by (rule chain_cong; auto)+

lemma nchain_upd_other [chain_simps]:
  "x \<notin> set xs \<Longrightarrow> nchain (nx(x := v)) xs a = nchain nx xs a"
  by (rule nchain_cong) auto

text \<open>A chain determines its list: two chains from the same head that end in \<open>None\<close> agree.\<close>

lemma nchain_unique:
  "nchain nx xs None \<Longrightarrow> nchain nx ys None \<Longrightarrow> first_or xs None = first_or ys None \<Longrightarrow> xs = ys"
proof (induction xs arbitrary: ys)
  case Nil
  then show ?case by (cases ys) auto
next
  case (Cons x xs)
  then show ?case by (cases ys) auto
qed

end
