(* ===== verification/C_String.thy ===== *)
theory C_String
  imports Kernel_Prelude
begin

text \<open>
  The string and memory routines of \<^verbatim>\<open>libc/string\<close>, over the flat byte memory \<open>mem\<close> of the
  kernel. A pointer is a 32-bit word and \<^verbatim>\<open>p[i]\<close> is \<open>m (p + i)\<close>, so overlapping arguments
  and address wrap-around are those of the machine. A loop that stops only at a NUL byte is a
  \<open>partial_function (option)\<close>: \<open>None\<close> is "does not return". A counted loop is a \<open>fold\<close>
  over its index range or a function with a termination proof.
\<close>

section \<open>Memory routines\<close>

fun memcmp_loop :: "mem \<Rightarrow> addr \<Rightarrow> addr \<Rightarrow> nat \<Rightarrow> int" where
  "memcmp_loop m a b 0 = 0"
| "memcmp_loop m a b (Suc n) =
     (if m a < m b then -1
      else if m b < m a then 1
      else memcmp_loop m (a + 1) (b + 1) n)"

definition memcmp :: "mem \<Rightarrow> addr \<Rightarrow> addr \<Rightarrow> u32 \<Rightarrow> int" where
  "memcmp m aptr bptr sz = memcmp_loop m aptr bptr (unat sz)"

definition copy_up :: "addr \<Rightarrow> addr \<Rightarrow> nat \<Rightarrow> mem \<Rightarrow> mem" where
  "copy_up dst src n = fold (\<lambda>i m. m(dst + of_nat i := m (src + of_nat i))) [0..<n]"

definition copy_down :: "addr \<Rightarrow> addr \<Rightarrow> nat \<Rightarrow> mem \<Rightarrow> mem" where
  "copy_down dst src n = fold (\<lambda>i m. m(dst + of_nat i := m (src + of_nat i))) (rev [0..<n])"

definition memcpy :: "mem \<Rightarrow> addr \<Rightarrow> addr \<Rightarrow> u32 \<Rightarrow> mem \<times> addr" where
  "memcpy m dstptr srcptr sz = (copy_up dstptr srcptr (unat sz) m, dstptr)"

definition memmove :: "mem \<Rightarrow> addr \<Rightarrow> addr \<Rightarrow> u32 \<Rightarrow> mem \<times> addr" where
  "memmove m dstptr srcptr sz =
     (if dstptr < srcptr then (copy_up dstptr srcptr (unat sz) m, dstptr)
      else (copy_down dstptr srcptr (unat sz) m, dstptr))"

definition memset :: "mem \<Rightarrow> addr \<Rightarrow> u32 \<Rightarrow> u32 \<Rightarrow> mem \<times> addr" where
  "memset m bufptr val sz =
     (fold (\<lambda>i m. m(bufptr + of_nat i := ucast val)) [0..<unat sz] m, bufptr)"

section \<open>String routines\<close>

partial_function (option) strlen_from :: "mem \<Rightarrow> addr \<Rightarrow> u32 \<Rightarrow> u32 option" where
  "strlen_from m str len =
     (if m (str + len) \<noteq> 0 then strlen_from m str (len + 1) else Some len)"

definition strlen :: "mem \<Rightarrow> addr \<Rightarrow> u32 option" where
  "strlen m str = strlen_from m str 0"

function strnlen_from :: "mem \<Rightarrow> addr \<Rightarrow> u32 \<Rightarrow> u32 \<Rightarrow> u32" where
  "strnlen_from m s len i =
     (if m (s + i) \<noteq> 0 \<and> i < len then strnlen_from m s len (i + 1) else i)"
  by pat_completeness auto
termination
  by (relation "measure (\<lambda>(m, s, len, i). unat len - unat i)")
     (auto simp: unat_inc_less word_less_nat_alt)

definition strnlen :: "mem \<Rightarrow> addr \<Rightarrow> u32 \<Rightarrow> u32" where
  "strnlen m s len = strnlen_from m s len 0"

text \<open>\<^verbatim>\<open>strcmp\<close> returns 0 or 1; the loop ends with the index and the flag \<open>failed\<close>.\<close>

partial_function (option) strcmp_from :: "mem \<Rightarrow> addr \<Rightarrow> addr \<Rightarrow> u32 \<Rightarrow> (u32 \<times> int) option" where
  "strcmp_from m str1 str2 i =
     (if m (str1 + i) \<noteq> 0 \<and> m (str2 + i) \<noteq> 0
      then if m (str1 + i) \<noteq> m (str2 + i) then Some (i, 1)
           else strcmp_from m str1 str2 (i + 1)
      else Some (i, 0))"

definition strcmp :: "mem \<Rightarrow> addr \<Rightarrow> addr \<Rightarrow> int option" where
  "strcmp m str1 str2 =
     (case strcmp_from m str1 str2 0 of
        None \<Rightarrow> None
      | Some (i, failed) \<Rightarrow>
          Some (if (m (str1 + i) = 0 \<and> m (str2 + i) \<noteq> 0) \<or> (m (str1 + i) \<noteq> 0 \<and> m (str2 + i) = 0)
                then 1 else failed))"

function strncmp_from :: "mem \<Rightarrow> addr \<Rightarrow> addr \<Rightarrow> u32 \<Rightarrow> u32 \<Rightarrow> int" where
  "strncmp_from m s1 s2 len i =
     (if m (s1 + i) = m (s2 + i) \<and> i < len
      then if m (s1 + i) = 0 then 0 else strncmp_from m s1 s2 len (i + 1)
      else if i = len then 0
      else if m (s1 + i) > m (s2 + i) then 1 else -1)"
  by pat_completeness auto
termination
  by (relation "measure (\<lambda>(m, s1, s2, len, i). unat len - unat i)")
     (auto simp: unat_inc_less word_less_nat_alt)

definition strncmp :: "mem \<Rightarrow> addr \<Rightarrow> addr \<Rightarrow> u32 \<Rightarrow> int" where
  "strncmp m s1 s2 len = (if s1 = s2 then 0 else strncmp_from m s1 s2 len 0)"

text \<open>\<^verbatim>\<open>char\<close> is signed on this target, so \<^verbatim>\<open>*str == character\<close> compares sign-extended.\<close>

partial_function (option) strchr :: "mem \<Rightarrow> addr \<Rightarrow> u32 \<Rightarrow> addr option" where
  "strchr m str character =
     (if scast (m str) = character then Some str
      else if m str \<noteq> 0 then strchr m (str + 1) character
      else Some 0)"

partial_function (option) strcpy :: "mem \<Rightarrow> addr \<Rightarrow> addr \<Rightarrow> (mem \<times> addr) option" where
  "strcpy m dest src =
     (let m' = m(dest := m src) in
      if m' (src + 1) \<noteq> 0 then strcpy m' (dest + 1) (src + 1) else Some (m', dest + 1))"

function strncpy_copy :: "mem \<Rightarrow> addr \<Rightarrow> addr \<Rightarrow> u32 \<Rightarrow> u32 \<Rightarrow> mem \<times> u32" where
  "strncpy_copy m dest src len i =
     (if m (src + i) \<noteq> 0 \<and> i < len
      then strncpy_copy (m(dest + i := m (src + i))) dest src len (i + 1)
      else (m, i))"
  by pat_completeness auto
termination
  by (relation "measure (\<lambda>(m, dest, src, len, i). unat len - unat i)")
     (auto simp: unat_inc_less word_less_nat_alt)

function strncpy_pad :: "mem \<Rightarrow> addr \<Rightarrow> u32 \<Rightarrow> u32 \<Rightarrow> mem" where
  "strncpy_pad m dest len i =
     (if i < len then strncpy_pad (m(dest + i := 0)) dest len (i + 1) else m)"
  by pat_completeness auto
termination
  by (relation "measure (\<lambda>(m, dest, len, i). unat len - unat i)")
     (auto simp: unat_inc_less word_less_nat_alt)

definition strncpy :: "mem \<Rightarrow> addr \<Rightarrow> addr \<Rightarrow> u32 \<Rightarrow> mem \<times> addr" where
  "strncpy m dest src len =
     (let (m', i) = strncpy_copy m dest src len 0 in (strncpy_pad m' dest len i, dest))"

text \<open>\<^verbatim>\<open>strlcpy\<close>: the copy loop is that of \<^verbatim>\<open>strncpy\<close> with the bound \<^verbatim>\<open>len - 1\<close>.\<close>

definition strlcpy :: "mem \<Rightarrow> addr \<Rightarrow> addr \<Rightarrow> u32 \<Rightarrow> (mem \<times> u32) option" where
  "strlcpy m dest src len =
     (if len = 0 then map_option (Pair m) (strlen m src)
      else let (m', i) = strncpy_copy m dest src (len - 1) 0;
               m'' = m'(dest + i := 0)
           in map_option (Pair m'') (strlen m'' src))"

definition strlcat :: "mem \<Rightarrow> addr \<Rightarrow> addr \<Rightarrow> u32 \<Rightarrow> (mem \<times> u32) option" where
  "strlcat m dest src len =
     (let destlen = strnlen m dest len in
      if destlen > len - 1
      then map_option (\<lambda>n. (m, destlen + n)) (strlen m src)
      else map_option (\<lambda>(m', n). (m', destlen + n))
             (strlcpy m (dest + destlen) src (len - destlen)))"

text \<open>\<^verbatim>\<open>strncat\<close> as written: the store goes to \<^verbatim>\<open>dest[destlen+1]\<close> in every pass.\<close>

function strncat_copy :: "mem \<Rightarrow> addr \<Rightarrow> addr \<Rightarrow> u32 \<Rightarrow> u32 \<Rightarrow> u32 \<Rightarrow> mem \<times> u32" where
  "strncat_copy m dest src len destlen i =
     (if m (src + i) \<noteq> 0 \<and> i < len
      then strncat_copy (m(dest + (destlen + 1) := m (src + i))) dest src len destlen (i + 1)
      else (m, i))"
  by pat_completeness auto
termination
  by (relation "measure (\<lambda>(m, dest, src, len, destlen, i). unat len - unat i)")
     (auto simp: unat_inc_less word_less_nat_alt)

definition strncat :: "mem \<Rightarrow> addr \<Rightarrow> addr \<Rightarrow> u32 \<Rightarrow> (mem \<times> addr) option" where
  "strncat m dest src len =
     (case strlen m dest of
        None \<Rightarrow> None
      | Some destlen \<Rightarrow>
          (let (m', i) = strncat_copy m dest src len destlen 0
           in Some (m'(dest + (destlen + i) := 0), dest)))"

declare strnlen_from.simps [simp del] strncmp_from.simps [simp del] strncpy_copy.simps [simp del]
  strncpy_pad.simps [simp del] strncat_copy.simps [simp del]

section \<open>Strings in memory\<close>

text \<open>\<open>cstr m s bs\<close>: the bytes \<open>bs\<close>, none of them NUL, stand at \<open>s\<close> and a NUL follows.\<close>

fun cstr :: "mem \<Rightarrow> addr \<Rightarrow> u8 list \<Rightarrow> bool" where
  "cstr m s [] \<longleftrightarrow> m s = 0"
| "cstr m s (b # bs) \<longleftrightarrow> m s = b \<and> b \<noteq> 0 \<and> cstr m (s + 1) bs"

definition separate :: "addr \<Rightarrow> nat \<Rightarrow> addr \<Rightarrow> nat \<Rightarrow> bool" where
  "separate p n q k \<longleftrightarrow> (\<forall>i<n. \<forall>j<k. p + of_nat i \<noteq> q + of_nat j)"

lemma separateD: "separate p n q k \<Longrightarrow> i < n \<Longrightarrow> j < k \<Longrightarrow> p + of_nat i \<noteq> q + of_nat j"
  by (simp add: separate_def)

lemma separate_code [code]:
  "separate p n q k \<longleftrightarrow>
     list_all (\<lambda>i. list_all (\<lambda>j. p + of_nat i \<noteq> q + of_nat j) [0..<k]) [0..<n]"
  by (auto simp: separate_def list_all_iff)

lemma separate_Suc:
  "separate p (Suc n) q (Suc k) \<Longrightarrow> separate (p + 1) n (q + 1) k"
  unfolding separate_def
proof (intro allI impI)
  fix i j assume s: "\<forall>i<Suc n. \<forall>j<Suc k. p + word_of_nat i \<noteq> q + word_of_nat j"
    and "i < n" and "j < k"
  then have "p + word_of_nat (Suc i) \<noteq> q + word_of_nat (Suc j)" by blast
  then show "p + 1 + word_of_nat i \<noteq> q + 1 + word_of_nat j" by (simp add: add.assoc)
qed

lemma cstr_unique: "cstr m s as \<Longrightarrow> cstr m s bs \<Longrightarrow> as = bs"
proof (induction as arbitrary: s bs)
  case Nil
  then show ?case by (cases bs) auto
next
  case (Cons a as)
  then show ?case by (cases bs) auto
qed

lemma cstr_nth: "cstr m s bs \<Longrightarrow> i < length bs \<Longrightarrow> m (s + of_nat i) = bs ! i"
proof (induction bs arbitrary: s i)
  case Nil
  then show ?case by simp
next
  case (Cons b bs)
  show ?case
  proof (cases i)
    case 0
    with Cons.prems show ?thesis by simp
  next
    case (Suc j)
    with Cons.prems Cons.IH [of "s + 1" j] show ?thesis by (simp add: add.assoc)
  qed
qed

lemma cstr_nonzero: "cstr m s bs \<Longrightarrow> b \<in> set bs \<Longrightarrow> b \<noteq> 0"
  by (induction bs arbitrary: s) auto

lemma cstr_end: "cstr m s bs \<Longrightarrow> m (s + of_nat (length bs)) = 0"
  by (induction bs arbitrary: s) (auto simp flip: add.assoc)

lemma cstrI:
  "\<lbrakk>\<And>i. i < length bs \<Longrightarrow> m (s + of_nat i) = bs ! i; \<And>b. b \<in> set bs \<Longrightarrow> b \<noteq> 0;
    m (s + of_nat (length bs)) = 0\<rbrakk> \<Longrightarrow> cstr m s bs"
proof (induction bs arbitrary: s)
  case Nil
  then show ?case by simp
next
  case (Cons b bs)
  have "m (s + 1 + of_nat i) = bs ! i" if "i < length bs" for i
    using Cons.prems(1) [of "Suc i"] that by (simp add: add.assoc)
  moreover have "m (s + 1 + of_nat (length bs)) = 0"
    using Cons.prems(3) by (simp add: add.assoc)
  ultimately have "cstr m (s + 1) bs"
    using Cons.IH Cons.prems(2) by simp
  then show ?case using Cons.prems(1) [of 0] Cons.prems(2) by simp
qed

lemma cstr_cong:
  assumes "\<And>i. i \<le> length bs \<Longrightarrow> m' (s + of_nat i) = m (s + of_nat i)"
  shows "cstr m' s bs = cstr m s bs"
  using assms
proof (induction bs arbitrary: s)
  case Nil
  then show ?case by simp
next
  case (Cons b bs)
  have "cstr m' (s + 1) bs = cstr m (s + 1) bs"
  proof (rule Cons.IH)
    fix i assume "i \<le> length bs"
    with Cons.prems [of "Suc i"] show "m' (s + 1 + of_nat i) = m (s + 1 + of_nat i)"
      by (simp add: add.assoc)
  qed
  with Cons.prems [of 0] show ?case by simp
qed

section \<open>Copying\<close>

lemma copy_up_spec:
  assumes "\<And>i j. i < j \<Longrightarrow> j < n \<Longrightarrow> src + of_nat j \<noteq> dst + (of_nat i :: addr)"
    and "n \<le> 2 ^ 32"
  shows "\<forall>i<n. copy_up dst src n m (dst + of_nat i) = m (src + of_nat i)"
    and "\<forall>a. (\<forall>i<n. a \<noteq> dst + of_nat i) \<longrightarrow> copy_up dst src n m a = m a"
proof -
  have "(\<forall>i<n. copy_up dst src n m (dst + of_nat i) = m (src + of_nat i)) \<and>
        (\<forall>a. (\<forall>i<n. a \<noteq> dst + of_nat i) \<longrightarrow> copy_up dst src n m a = m a)"
    using assms
  proof (induction n)
    case 0
    then show ?case by (simp add: copy_up_def)
  next
    case (Suc n)
    let ?c = "copy_up dst src n m"
    have step: "copy_up dst src (Suc n) m = ?c(dst + of_nat n := ?c (src + of_nat n))"
      by (simp add: copy_up_def)
    from Suc have IH: "\<And>i. i < n \<Longrightarrow> ?c (dst + of_nat i) = m (src + of_nat i)"
      and out: "\<And>a. \<forall>i<n. a \<noteq> dst + of_nat i \<Longrightarrow> ?c a = m a" by auto
    have "?c (src + of_nat n) = m (src + of_nat n)"
      by (rule out) (use Suc.prems in auto)
    moreover have "dst + of_nat i \<noteq> dst + (of_nat n :: addr)" if "i < n" for i
      using that Suc.prems(2) by (simp add: of_nat_inj_32)
    ultimately show ?case
      unfolding step using IH out by (auto simp: less_Suc_eq)
  qed
  then show "\<forall>i<n. copy_up dst src n m (dst + of_nat i) = m (src + of_nat i)"
    and "\<forall>a. (\<forall>i<n. a \<noteq> dst + of_nat i) \<longrightarrow> copy_up dst src n m a = m a" by auto
qed

lemma copy_down_spec:
  assumes "\<And>i j. i < j \<Longrightarrow> j < n \<Longrightarrow> src + of_nat i \<noteq> dst + (of_nat j :: addr)"
    and "n \<le> 2 ^ 32"
  shows "(\<forall>i<n. copy_down dst src n m (dst + of_nat i) = m (src + of_nat i)) \<and>
         (\<forall>a. (\<forall>i<n. a \<noteq> dst + of_nat i) \<longrightarrow> copy_down dst src n m a = m a)"
  using assms
proof (induction n arbitrary: m)
  case 0
  then show ?case by (simp add: copy_down_def)
next
  case (Suc n)
  let ?m1 = "m(dst + of_nat n := m (src + of_nat n))"
  have step: "copy_down dst src (Suc n) m = copy_down dst src n ?m1"
    by (simp add: copy_down_def)
  have IH: "(\<forall>i<n. copy_down dst src n ?m1 (dst + of_nat i) = ?m1 (src + of_nat i)) \<and>
            (\<forall>a. (\<forall>i<n. a \<noteq> dst + of_nat i) \<longrightarrow> copy_down dst src n ?m1 a = ?m1 a)"
    by (rule Suc.IH) (use Suc.prems in auto)
  have "?m1 (src + of_nat i) = m (src + of_nat i)" if "i < n" for i
    using that Suc.prems(1) [of i n] by simp
  moreover have "copy_down dst src n ?m1 (dst + of_nat n) = m (src + of_nat n)"
  proof -
    have "dst + of_nat n \<noteq> dst + (of_nat i :: addr)" if "i < n" for i
      using that Suc.prems(2) by (simp add: of_nat_inj_32)
    with IH show ?thesis by simp
  qed
  moreover have "copy_down dst src n ?m1 a = m a" if "\<forall>i<Suc n. a \<noteq> dst + of_nat i" for a
    using that IH by (metis fun_upd_other lessI less_SucI)
  ultimately show ?case
    unfolding step using IH by (metis less_SucE)
qed

lemma addr_no_wrap: "unat p + n \<le> 2 ^ 32 \<Longrightarrow> i < n \<Longrightarrow> unat (p + of_nat i :: addr) = unat p + i"
  by (simp add: unat_word_ariths unat_of_nat)

lemma addr_neq: "unat p + n \<le> 2 ^ 32 \<Longrightarrow> unat q + n \<le> 2 ^ 32 \<Longrightarrow> i < n \<Longrightarrow> j < n \<Longrightarrow>
  unat p + i \<noteq> unat q + j \<Longrightarrow> p + of_nat i \<noteq> q + (of_nat j :: addr)"
  by (metis addr_no_wrap)

section \<open>What the routines compute\<close>

lemma strlen_from_cstr:
  "cstr m (s + len) bs \<Longrightarrow> strlen_from m s len = Some (len + of_nat (length bs))"
proof (induction bs arbitrary: len)
  case Nil
  then show ?case by (simp add: strlen_from.simps)
next
  case (Cons b bs)
  then show ?case by (simp add: strlen_from.simps [of m s len] add.assoc)
qed

lemma strlen_from_returns:
  assumes "strlen_from m s len = Some n"
  shows "\<exists>bs. cstr m (s + len) bs \<and> n = len + of_nat (length bs)"
proof (rule strlen_from.raw_induct
    [where P = "\<lambda>m s len n. \<exists>bs. cstr m (s + len) bs \<and> n = len + of_nat (length bs)", OF _ assms])
  fix f :: "mem \<Rightarrow> addr \<Rightarrow> u32 \<Rightarrow> u32 option" and m :: mem and s len n :: u32
  assume IH: "\<And>m s len n. f m s len = Some n \<Longrightarrow>
      \<exists>bs. cstr m (s + len) bs \<and> n = len + of_nat (length bs)"
    and eq: "(if m (s + len) \<noteq> 0 then f m s (len + 1) else Some len) = Some n"
  show "\<exists>bs. cstr m (s + len) bs \<and> n = len + of_nat (length bs)"
  proof (cases "m (s + len) = 0")
    case True
    with eq have "cstr m (s + len) [] \<and> n = len + of_nat (length ([] :: u8 list))" by simp
    then show ?thesis by blast
  next
    case False
    with eq obtain bs where "cstr m (s + (len + 1)) bs" "n = len + 1 + of_nat (length bs)"
      using IH [of m s "len + 1" n] by auto
    with False have "cstr m (s + len) (m (s + len) # bs) \<and>
        n = len + of_nat (length (m (s + len) # bs))" by (simp add: add.assoc)
    then show ?thesis by blast
  qed
qed

lemma cstr_exists:
  "m (s + of_nat k) = 0 \<Longrightarrow> \<exists>bs. cstr m s bs \<and> length bs \<le> k"
proof (induction k arbitrary: s)
  case 0
  then have "cstr m s [] \<and> length ([] :: u8 list) \<le> 0" by simp
  then show ?case by blast
next
  case (Suc k)
  show ?case
  proof (cases "m s = 0")
    case True
    then have "cstr m s [] \<and> length ([] :: u8 list) \<le> Suc k" by simp
    then show ?thesis by blast
  next
    case False
    from Suc.prems have "m (s + 1 + of_nat k) = 0" by (simp add: add.assoc)
    then obtain bs where "cstr m (s + 1) bs" "length bs \<le> k" using Suc.IH by blast
    with False have "cstr m s (m s # bs) \<and> length (m s # bs) \<le> Suc k" by simp
    then show ?thesis by blast
  qed
qed

lemma strlen_cstr: "cstr m s bs \<Longrightarrow> strlen m s = Some (of_nat (length bs))"
  using strlen_from_cstr [of m s 0 bs] by (simp add: strlen_def)

lemma strnlen_from_cstr:
  "cstr m (s + i) bs \<Longrightarrow> i \<le> len \<Longrightarrow>
     strnlen_from m s len i = i + of_nat (min (length bs) (unat (len - i)))"
proof (induction bs arbitrary: i)
  case Nil
  then show ?case by (simp add: strnlen_from.simps)
next
  case (Cons b bs)
  show ?case
  proof (cases "i < len")
    case True
    then have "i + 1 \<le> len" by (simp add: word_inc_le)
    moreover note unat_diff_step [OF True]
    ultimately show ?thesis
      using Cons True by (simp add: strnlen_from.simps [of m s len i] add.assoc)
  next
    case False
    with Cons.prems show ?thesis by (subst strnlen_from.simps) simp
  qed
qed

lemma strnlen_cstr: "cstr m s bs \<Longrightarrow> strnlen m s len = of_nat (min (length bs) (unat len))"
  using strnlen_from_cstr [of m s 0 bs len] by (simp add: strnlen_def)

text \<open>The reference order of C strings: the first differing byte decides, as unsigned char.\<close>

fun bytes_cmp :: "u8 list \<Rightarrow> u8 list \<Rightarrow> int" where
  "bytes_cmp [] [] = 0"
| "bytes_cmp [] (b # bs) = -1"
| "bytes_cmp (a # as) [] = 1"
| "bytes_cmp (a # as) (b # bs) =
     (if a = b then bytes_cmp as bs else if a > b then 1 else -1)"

lemma bytes_cmp_zero: "bytes_cmp as bs = 0 \<longleftrightarrow> as = bs"
  by (induction as bs rule: bytes_cmp.induct) auto

lemma bytes_cmp_swap: "bytes_cmp bs as = - bytes_cmp as bs"
  by (induction as bs rule: bytes_cmp.induct) auto

lemma strncmp_from_cstr:
  "\<lbrakk>cstr m (s1 + i) as; cstr m (s2 + i) bs; i \<le> len\<rbrakk> \<Longrightarrow>
   strncmp_from m s1 s2 len i = bytes_cmp (take (unat (len - i)) as) (take (unat (len - i)) bs)"
proof (induction as arbitrary: i bs)
  case Nil
  have z: "unat (len - i) = 0 \<longleftrightarrow> i = len" by (auto simp: unat_eq_zero)
  show ?case
  proof (cases bs)
    case Nil': Nil
    with Nil show ?thesis by (simp add: strncmp_from.simps [of m s1 s2 len i])
  next
    case (Cons b bs')
    with Nil z show ?thesis
      by (cases "unat (len - i)"; subst strncmp_from.simps) auto
  qed
next
  case (Cons a as)
  show ?case
  proof (cases "i = len")
    case True
    with Cons.prems show ?thesis by (subst strncmp_from.simps) simp
  next
    case False
    with Cons.prems have less: "i < len" by simp
    then have ip: "i + 1 \<le> len" by (simp add: word_inc_le)
    have u: "unat (len - i) = Suc (unat (len - (i + 1)))"
      by (rule unat_diff_step [OF less])
    show ?thesis
    proof (cases bs)
      case Nil
      with Cons.prems less u show ?thesis
        by (auto simp: strncmp_from.simps [of m s1 s2 len i] word_greater_zero_iff)
    next
      case (Cons b bs')
      show ?thesis
      proof (cases "a = b")
        case True
        with Cons Cons.prems Cons.IH [of "i + 1" bs'] less ip u show ?thesis
          by (simp add: strncmp_from.simps [of m s1 s2 len i] add.assoc)
      next
        case False
        with Cons Cons.prems less u show ?thesis
          by (simp add: strncmp_from.simps [of m s1 s2 len i])
      qed
    qed
  qed
qed

definition bytes :: "mem \<Rightarrow> addr \<Rightarrow> nat \<Rightarrow> u8 list" where
  "bytes m p n = map (\<lambda>i. m (p + of_nat i)) [0..<n]"

lemma length_bytes [simp]: "length (bytes m p n) = n"
  by (simp add: bytes_def)

lemma nth_bytes [simp]: "i < n \<Longrightarrow> bytes m p n ! i = m (p + of_nat i)"
  by (simp add: bytes_def)

lemma strcmp_from_cstr:
  "\<lbrakk>cstr m (s1 + i) as; cstr m (s2 + i) bs\<rbrakk> \<Longrightarrow>
   \<exists>k f. strcmp_from m s1 s2 i = Some (k, f) \<and>
     (if (m (s1 + k) = 0 \<and> m (s2 + k) \<noteq> 0) \<or> (m (s1 + k) \<noteq> 0 \<and> m (s2 + k) = 0)
      then 1 else f) = (if as = bs then 0 else (1::int))"
proof (induction as arbitrary: i bs)
  case Nil
  then show ?case by (cases bs) (auto simp: strcmp_from.simps [of m s1 s2 i])
next
  case (Cons a as)
  show ?case
  proof (cases bs)
    case Nil
    with Cons.prems show ?thesis by (simp add: strcmp_from.simps [of m s1 s2 i])
  next
    case (Cons b bs')
    show ?thesis
    proof (cases "a = b")
      case True
      with Cons Cons.prems Cons.IH [of "i + 1" bs'] show ?thesis
        by (simp add: strcmp_from.simps [of m s1 s2 i] add.assoc)
    next
      case False
      with Cons Cons.prems show ?thesis by (simp add: strcmp_from.simps [of m s1 s2 i])
    qed
  qed
qed

lemma strcmp_cstr:
  "cstr m s1 as \<Longrightarrow> cstr m s2 bs \<Longrightarrow> strcmp m s1 s2 = Some (if as = bs then 0 else 1)"
  using strcmp_from_cstr [of m s1 0 as s2 bs] by (auto simp: strcmp_def)

lemma copy_up_Suc:
  "copy_up dst src (Suc n) m = copy_up (dst + 1) (src + 1) n (m(dst := m src))"
proof -
  have "[0..<Suc n] = 0 # map Suc [0..<n]" by (simp add: map_Suc_upt upt_conv_Cons del: upt_Suc)
  then show ?thesis by (simp add: copy_up_def fold_map o_def add.assoc del: upt_Suc)
qed

lemma cstr_write:
  assumes "cstr m s bs" and "separate p (Suc n) s (Suc (length bs))"
  shows "cstr (m(p := v)) s bs"
proof -
  have "s + of_nat i \<noteq> p" if "i \<le> length bs" for i
    using separateD [OF assms(2), of 0 i] that by auto
  then have "cstr (m(p := v)) s bs = cstr m s bs" by (intro cstr_cong) auto
  with assms(1) show ?thesis by simp
qed

lemma strcpy_copies:
  assumes "cstr m src bs" and "bs \<noteq> []" and "separate dest (length bs) src (Suc (length bs))"
  shows "strcpy m dest src = Some (copy_up dest src (length bs) m, dest + of_nat (length bs))"
  using assms
proof (induction bs arbitrary: m dest src)
  case Nil
  then show ?case by simp
next
  case (Cons b bs)
  let ?m = "m(dest := m src)"
  have w: "cstr ?m src (b # bs)"
    by (rule cstr_write [OF Cons.prems(1)]) (use Cons.prems(3) in simp)
  show ?case
  proof (cases bs)
    case Nil
    have "strcpy m dest src =
        (if ?m (src + 1) \<noteq> 0 then strcpy ?m (dest + 1) (src + 1) else Some (?m, dest + 1))"
      by (simp only: strcpy.simps [of m dest src] Let_def)
    also have "\<dots> = Some (?m, dest + 1)" using w Nil by (simp del: fun_upd_apply)
    finally show ?thesis using Nil by (simp add: copy_up_def fun_eq_iff)
  next
    case (Cons c cs)
    have "separate (dest + 1) (length bs) (src + 1) (Suc (length bs))"
      by (rule separate_Suc) (use Cons.prems in simp)
    with w Cons have "strcpy ?m (dest + 1) (src + 1) =
        Some (copy_up (dest + 1) (src + 1) (length bs) ?m, dest + 1 + of_nat (length bs))"
      by (intro Cons.IH) (auto simp del: fun_upd_apply)
    moreover have "?m (src + 1) \<noteq> 0" using w Cons by (auto simp del: fun_upd_apply)
    ultimately show ?thesis
      by (simp add: strcpy.simps [of m dest src] copy_up_Suc add.assoc)
  qed
qed

lemma strncpy_copy_copies:
  "\<lbrakk>cstr m (src + i) bs; i \<le> len;
    separate (dest + i) (min (length bs) (unat (len - i))) (src + i) (Suc (length bs))\<rbrakk> \<Longrightarrow>
   strncpy_copy m dest src len i =
     (let k = min (length bs) (unat (len - i))
      in (copy_up (dest + i) (src + i) k m, i + of_nat k))"
proof (induction bs arbitrary: m i)
  case Nil
  then show ?case by (simp add: strncpy_copy.simps [of m dest src len i] copy_up_def)
next
  case (Cons b bs)
  show ?case
  proof (cases "i < len")
    case False
    with Cons.prems show ?thesis by (subst strncpy_copy.simps) (simp add: copy_up_def)
  next
    case True
    let ?m = "m(dest + i := m (src + i))"
    have sep: "separate (dest + i) (Suc (min (length bs) (unat (len - (i + 1)))))
        (src + i) (Suc (length (b # bs)))"
      using Cons.prems(3) unat_diff_step [OF True] by simp
    have w: "cstr ?m (src + i) (b # bs)"
      by (rule cstr_write [OF Cons.prems(1) sep])
    have "separate (dest + i + 1) (min (length bs) (unat (len - (i + 1)))) (src + i + 1) (Suc (length bs))"
      by (rule separate_Suc) (use sep in simp)
    with w True have "strncpy_copy ?m dest src len (i + 1) =
      (let k = min (length bs) (unat (len - (i + 1)))
       in (copy_up (dest + (i + 1)) (src + (i + 1)) k ?m, i + 1 + of_nat k))"
      by (intro Cons.IH) (auto simp: add.assoc word_inc_le simp del: fun_upd_apply)
    moreover have "m (src + i) \<noteq> 0" using Cons.prems(1) by simp
    ultimately show ?thesis
      using True unat_diff_step [OF True]
      by (simp add: strncpy_copy.simps [of m dest src len i] copy_up_Suc add.assoc Let_def)
  qed
qed

lemma strncpy_pad_zero:
  "strncpy_pad m dest len i a = (if i \<le> a - dest \<and> a - dest < len then 0 else m a)"
proof (induction m dest len i rule: strncpy_pad.induct)
  case (1 m dest len i)
  show ?case
  proof (cases "i < len")
    case False
    then have "\<not> (i \<le> a - dest \<and> a - dest < len)" by (meson le_less_trans)
    then have "(if i \<le> a - dest \<and> a - dest < len then 0 else m a) = m a" by (simp only: if_False)
    moreover have "strncpy_pad m dest len i = m" using False by (subst strncpy_pad.simps) simp
    ultimately show ?thesis by (simp only:)
  next
    case True
    have off: "a = dest + i \<longleftrightarrow> a - dest = i" by (auto simp: algebra_simps)
    have "i + 1 \<le> a - dest \<longleftrightarrow> i < a - dest" by (rule word_inc_le_iff [OF True])
    also have "\<dots> \<longleftrightarrow> i \<le> a - dest \<and> a \<noteq> dest + i" by (metis off order_less_le)
    finally have eq: "i + 1 \<le> a - dest \<longleftrightarrow> i \<le> a - dest \<and> a \<noteq> dest + i" .
    have "strncpy_pad m dest len i a = strncpy_pad (m(dest + i := 0)) dest len (i + 1) a"
      using True by (simp add: strncpy_pad.simps [of m dest len i])
    also have "\<dots> = (if i + 1 \<le> a - dest \<and> a - dest < len then 0 else (m(dest + i := 0)) a)"
      by (rule "1.IH" [OF True])
    finally show ?thesis using True by (simp only: eq) simp
  qed
qed

section \<open>Properties\<close>

text \<open>
  \<^verbatim>\<open>strlen\<close> returns exactly when some byte of memory is NUL, and then the result is
  the number of bytes before the first NUL at or after the argument.
\<close>

theorem strlen_correct:
  "strlen m s = Some n \<longleftrightarrow> (\<exists>bs. cstr m s bs \<and> n = of_nat (length bs))"
proof
  assume "strlen m s = Some n"
  then show "\<exists>bs. cstr m s bs \<and> n = of_nat (length bs)"
    using strlen_from_returns [of m s 0 n] by (simp add: strlen_def)
next
  assume "\<exists>bs. cstr m s bs \<and> n = of_nat (length bs)"
  then show "strlen m s = Some n" using strlen_cstr by blast
qed

lemma strlen_returns_iff: "(\<exists>n. strlen m s = Some n) \<longleftrightarrow> (\<exists>a. m a = 0)"
proof
  assume "\<exists>n. strlen m s = Some n"
  then obtain bs where "cstr m s bs"
    using strlen_from_returns [of m s 0] by (auto simp: strlen_def)
  then show "\<exists>a. m a = 0" using cstr_end by blast
next
  assume "\<exists>a. m a = 0"
  then obtain a where "m a = 0" by blast
  then have "m (s + of_nat (unat (a - s))) = 0" by simp
  then obtain bs where "cstr m s bs" using cstr_exists by blast
  then show "\<exists>n. strlen m s = Some n" using strlen_cstr by blast
qed

text \<open>
  C33: \<^verbatim>\<open>memmove\<close> is safe for overlapping regions: whatever the overlap of source and
  destination, the destination ends with the bytes the source held before the call, and no
  byte outside the destination changes. (Neither region wraps around the address space.)
\<close>

theorem memmove_correct:
  assumes "unat dst + unat n \<le> 2 ^ 32" and "unat src + unat n \<le> 2 ^ 32"
  shows "bytes (fst (memmove m dst src n)) dst (unat n) = bytes m src (unat n)
    \<and> (\<forall>a. a \<notin> {dst + of_nat i |i. i < unat n} \<longrightarrow> fst (memmove m dst src n) a = m a)
    \<and> snd (memmove m dst src n) = dst"
proof (cases "dst < src")
  case True
  have sep: "src + of_nat j \<noteq> dst + (of_nat i :: addr)" if "i < j" "j < unat n" for i j
    by (rule addr_neq [OF assms(2) assms(1)]) (use that True in \<open>auto simp: word_less_nat_alt\<close>)
  have le: "unat n \<le> 2 ^ 32" using assms(1) by simp
  note up = copy_up_spec [OF sep le, of m]
  show ?thesis
    using True up by (auto simp: memmove_def list_eq_iff_nth_eq)
next
  case False
  have sep: "src + of_nat i \<noteq> dst + (of_nat j :: addr)" if "i < j" "j < unat n" for i j
    by (rule addr_neq [OF assms(2) assms(1)]) (use that False in \<open>auto simp: word_less_nat_alt\<close>)
  have le: "unat n \<le> 2 ^ 32" using assms(1) by simp
  note down = copy_down_spec [OF sep le, of m]
  show ?thesis
    using False down by (auto simp: memmove_def list_eq_iff_nth_eq)
qed

theorem memmove_correct_witness:
  "bytes (fst (memmove (\<lambda>a. if a = 100 then 7 else if a = 101 then 8 else 9) 101 100 2)) 101 2 = [7, 8]"
  using memmove_correct [of 101 2 100 "\<lambda>a. if a = 100 then 7 else if a = 101 then 8 else 9"]
  by (simp add: bytes_def upt_rec)

text \<open>
  \<^verbatim>\<open>strncmp\<close> on two strings is the lexicographic comparison, as unsigned characters, of
  their first \<open>len\<close> bytes; in particular it is 0 exactly when these prefixes are equal.
\<close>

theorem strncmp_correct:
  assumes "cstr m s1 as" and "cstr m s2 bs"
  shows "strncmp m s1 s2 len = bytes_cmp (take (unat len) as) (take (unat len) bs)
    \<and> (strncmp m s1 s2 len = 0 \<longleftrightarrow> take (unat len) as = take (unat len) bs)"
proof -
  have "strncmp m s1 s2 len = bytes_cmp (take (unat len) as) (take (unat len) bs)"
  proof (cases "s1 = s2")
    case True
    with assms have "as = bs" using cstr_unique by blast
    then show ?thesis using True by (simp add: strncmp_def bytes_cmp_zero)
  next
    case False
    then show ?thesis
      using strncmp_from_cstr [of m s1 0 as s2 bs len] assms by (simp add: strncmp_def)
  qed
  then show ?thesis by (simp add: bytes_cmp_zero)
qed

theorem strncmp_correct_witness:
  "strncmp (\<lambda>a. if a = 1 \<or> a = 11 then 65 else if a = 2 then 66 else if a = 12 then 67 else 0) 1 11 5 = -1"
  using strncmp_correct [of "\<lambda>a. if a = 1 \<or> a = 11 then 65 else if a = 2 then 66 else if a = 12 then 67 else 0"
      1 "[65, 66]" 11 "[65, 67]" 5]
  by simp

lemma copy_up_separate:
  assumes "separate dst n src k" and "n \<le> k" and "n \<le> 2 ^ 32"
  shows "\<And>i. i < n \<Longrightarrow> copy_up dst src n m (dst + of_nat i) = m (src + of_nat i)"
    and "\<And>a. \<forall>i<n. a \<noteq> dst + of_nat i \<Longrightarrow> copy_up dst src n m a = m a"
proof -
  have sep: "src + of_nat j \<noteq> dst + (of_nat i :: addr)" if "i < j" "j < n" for i j
    using separateD [OF assms(1), of i j] that assms(2) by (metis less_le_trans less_trans)
  show "\<And>i. i < n \<Longrightarrow> copy_up dst src n m (dst + of_nat i) = m (src + of_nat i)"
    and "\<And>a. \<forall>i<n. a \<noteq> dst + of_nat i \<Longrightarrow> copy_up dst src n m a = m a"
    using copy_up_spec [OF sep assms(3), of m] by auto
qed

lemma separate_mono: "separate p n q k \<Longrightarrow> n' \<le> n \<Longrightarrow> k' \<le> k \<Longrightarrow> separate p n' q k'"
  by (auto simp: separate_def)

lemma separate_keeps_cstr:
  assumes "cstr m src bs" and "separate dst n src (Suc (length bs))"
    and "\<And>a. \<forall>i<n. a \<noteq> dst + of_nat i \<Longrightarrow> m' a = m a"
  shows "cstr m' src bs"
proof -
  have "m' (src + of_nat j) = m (src + of_nat j)" if "j \<le> length bs" for j
    using separateD [OF assms(2), of _ j] that by (intro assms(3)) (metis less_Suc_eq_le)
  with assms(1) show ?thesis using cstr_cong [of bs m' src m] by simp
qed

text \<open>
  \<^verbatim>\<open>strlcpy\<close> into a buffer of \<open>len > 0\<close> bytes that does not overlap the source leaves
  a NUL-terminated string there, the longest prefix of the source that fits, writes nothing
  outside the buffer, and returns the length of the source.
\<close>

theorem strlcpy_correct:
  assumes src: "cstr m src bs" and sep: "separate dest (unat len) src (Suc (length bs))"
    and len: "len \<noteq> 0"
  shows "\<exists>m'. strlcpy m dest src len = Some (m', of_nat (length bs))
    \<and> cstr m' dest (take (unat len - 1) bs)
    \<and> (\<forall>a. (\<forall>i<unat len. a \<noteq> dest + of_nat i) \<longrightarrow> m' a = m a)"
proof -
  define k where "k = min (length bs) (unat len - 1)"
  have len0: "0 < unat len" using len by (simp add: unat_gt_0)
  then have pred: "unat (len - 1) = unat len - 1"
    by (simp add: unat_sub word_le_nat_alt Suc_le_eq)
  have "unat len < 2 ^ 32" by (rule unat_lt32)
  with len0 have k: "k < unat len" "k \<le> length bs" "k \<le> 2 ^ 32" "k < 2 ^ 32" by (auto simp: k_def)
  have sepk: "separate dest k src (Suc (length bs))"
    using sep separate_mono k(1) by (metis less_imp_le order_refl)
  let ?c = "copy_up dest src k m"
  let ?m = "?c(dest + of_nat k := 0)"
  note cp = copy_up_separate [OF sepk _ k(3), where m = m]
  have copied: "?c (dest + of_nat i) = bs ! i" if "i < k" for i
    using cp(1) [of i] that k(2) cstr_nth [OF src, of i] by simp
  have out: "?m a = m a" if "\<forall>i<unat len. a \<noteq> dest + of_nat i" for a
    using that cp(2) [of a] k by (metis fun_upd_other le_SucI less_trans)
  have copy: "strncpy_copy m dest src (len - 1) 0 = (?c, of_nat k)"
    using strncpy_copy_copies [of m src 0 bs "len - 1" dest] src sepk
    by (simp add: k_def pred Let_def)
  have "cstr ?m src bs" by (rule separate_keeps_cstr [OF src sep out])
  then have "strlcpy m dest src len = Some (?m, of_nat (length bs))"
    using len copy strlen_cstr by (simp add: strlcpy_def)
  moreover have "cstr ?m dest (take k bs)"
  proof (rule cstrI)
    fix i assume "i < length (take k bs)"
    then have "i < k" by simp
    then have "dest + of_nat i \<noteq> dest + (of_nat k :: addr)" using k(4) by (simp add: of_nat_inj_32)
    then show "?m (dest + of_nat i) = take k bs ! i" using copied \<open>i < k\<close> by simp
  next
    fix b assume "b \<in> set (take k bs)"
    then show "b \<noteq> 0" using cstr_nonzero [OF src] in_set_takeD by fast
  next
    show "?m (dest + of_nat (length (take k bs))) = 0" using k(2) by (simp add: min_absorb2)
  qed
  moreover have "take k bs = take (unat len - 1) bs" by (simp add: k_def min_def)
  ultimately show ?thesis using out by auto
qed

theorem strlcpy_correct_witness:
  "\<exists>m'. strlcpy (\<lambda>a. if a = 1 then 65 else if a = 2 then 66 else if a = 3 then 67 else 0) 100 1 3 = Some (m', 3)
    \<and> cstr m' 100 [65, 66]"
proof -
  let ?m = "(\<lambda>a. if a = 1 then 65 else if a = 2 then 66 else if a = 3 then 67 else 0) :: mem"
  have "cstr ?m 1 [65, 66, 67]" by simp
  moreover have "separate 100 (unat (3::u32)) 1 (Suc (length [65, 66, 67 :: u8]))"
    by (simp add: separate_code upt_rec)
  ultimately show ?thesis using strlcpy_correct [of ?m 1 "[65, 66, 67]" 100 3] by auto
qed

text \<open>
  \<^verbatim>\<open>strcpy\<close> of a non-empty string into a separate region copies its characters but not
  its terminating NUL: the byte after the copied characters keeps its old value, so the
  destination is a C string only if that byte was already 0 (the shell's \<^verbatim>\<open>loggedUsername\<close>
  buffer is not cleared first).
\<close>

theorem strcpy_drops_terminator:
  assumes "cstr m src bs" and "bs \<noteq> []" and "separate dest (length bs) src (Suc (length bs))"
    and "length bs < 2 ^ 32"
  shows "\<exists>m'. strcpy m dest src = Some (m', dest + of_nat (length bs))
    \<and> bytes m' dest (length bs) = bs
    \<and> m' (dest + of_nat (length bs)) = m (dest + of_nat (length bs))"
proof -
  note cp = copy_up_separate [OF assms(3), where m = m]
  have le: "length bs \<le> Suc (length bs)" "length bs \<le> 2 ^ 32" using assms(4) by auto
  have "bytes (copy_up dest src (length bs) m) dest (length bs) = bs"
    using cp(1) [OF le] cstr_nth [OF assms(1)] by (simp add: list_eq_iff_nth_eq)
  moreover have "\<forall>i<length bs. dest + of_nat (length bs) \<noteq> dest + (of_nat i :: addr)"
    using assms(4) by (auto simp: of_nat_inj_32)
  then have "copy_up dest src (length bs) m (dest + of_nat (length bs)) = m (dest + of_nat (length bs))"
    by (rule cp(2) [OF le])
  ultimately show ?thesis using strcpy_copies [OF assms(1,2,3)] by blast
qed

theorem strcpy_drops_terminator_witness:
  "\<exists>m'. strcpy (\<lambda>a. if a = 1 then 65 else if a = 2 then 66 else if a < 100 then 0 else 88) 100 1 = Some (m', 102)
    \<and> bytes m' 100 (length [65, 66 :: u8]) = [65, 66] \<and> m' 102 = 88"
proof -
  let ?m = "(\<lambda>a. if a = 1 then 65 else if a = 2 then 66 else if a < 100 then 0 else 88) :: mem"
  have "cstr ?m 1 [65, 66]" by simp
  moreover have "separate 100 (length [65, 66 :: u8]) 1 (Suc (length [65, 66 :: u8]))"
    by (simp add: separate_code upt_rec)
  ultimately show ?thesis using strcpy_drops_terminator [of ?m 1 "[65, 66]" 100] by simp
qed

end
