(* ===== verification/C_Convert.thy ===== *)
theory C_Convert
  imports C_String
begin

text \<open>
  Character classes (\<^verbatim>\<open>include/ctype.h\<close>) and the conversions of \<^verbatim>\<open>libc/stdlib\<close>: \<^verbatim>\<open>atoi\<close>,
  \<^verbatim>\<open>strtol\<close>, \<^verbatim>\<open>strtoul\<close> and the search \<^verbatim>\<open>strstr\<close>. Loops over a string stop only at a byte
  of the string, so they are \<open>partial_function (option)\<close>: \<open>None\<close> is "does not return" or,
  in \<^verbatim>\<open>atoi\<close>, a signed overflow.
\<close>

section \<open>Character classes\<close>

text \<open>Each class takes an \<^verbatim>\<open>int\<close> and looks at its low byte.\<close>

definition isascii :: "u32 \<Rightarrow> bool" where
  "isascii c \<longleftrightarrow> (ucast c :: u8) \<le> 0x7f"

definition toascii :: "u32 \<Rightarrow> u8" where
  "toascii c = ucast c AND 0x7f"

definition iswhitespace :: "u32 \<Rightarrow> bool" where
  "iswhitespace c \<longleftrightarrow>
     (if \<not> isascii c then False
      else if (ucast c :: u8) = 32 then True
      else if (ucast c :: u8) = 10 then True
      else if (ucast c :: u8) = 13 then True
      else if (ucast c :: u8) = 9 then True
      else if (ucast c :: u8) = 11 then True
      else if (ucast c :: u8) = 12 then True
      else False)"

definition isdigit :: "u32 \<Rightarrow> bool" where
  "isdigit c \<longleftrightarrow>
     (if \<not> isascii c then False else (ucast c :: u8) \<ge> 48 \<and> (ucast c :: u8) \<le> 57)"

definition islower :: "u32 \<Rightarrow> bool" where
  "islower c \<longleftrightarrow>
     (if \<not> isascii c then False else (ucast c :: u8) \<ge> 97 \<and> (ucast c :: u8) \<le> 122)"

definition isupper :: "u32 \<Rightarrow> bool" where
  "isupper c \<longleftrightarrow>
     (if \<not> isascii c then False else (ucast c :: u8) \<ge> 65 \<and> (ucast c :: u8) \<le> 90)"

definition isalpha :: "u32 \<Rightarrow> bool" where
  "isalpha c \<longleftrightarrow> isupper c \<or> islower c"

definition tolower :: "u8 \<Rightarrow> u8" where
  "tolower c = (if isupper (ucast c) then c - (65 - 97) else c)"

definition toupper :: "u8 \<Rightarrow> u8" where
  "toupper c = (if islower (ucast c) then c - (97 - 65) else c)"

text \<open>
  \<^verbatim>\<open>stolower\<close> and \<^verbatim>\<open>stoupper\<close> walk the string but discard each converted character, so the
  memory is not changed; the value is the argument once the loop has met the NUL.
\<close>

partial_function (option) walk_string :: "mem \<Rightarrow> addr \<Rightarrow> u32 \<Rightarrow> u32 option" where
  "walk_string m c len = (if m (c + len) \<noteq> 0 then walk_string m c (len + 1) else Some len)"

definition stolower :: "mem \<Rightarrow> addr \<Rightarrow> (mem \<times> addr) option" where
  "stolower m c = (case walk_string m c 0 of None \<Rightarrow> None | Some len \<Rightarrow> Some (m, c))"

definition stoupper :: "mem \<Rightarrow> addr \<Rightarrow> (mem \<times> addr) option" where
  "stoupper m c = (case walk_string m c 0 of None \<Rightarrow> None | Some len \<Rightarrow> Some (m, c))"

section \<open>atoi\<close>

text \<open>
  \<^verbatim>\<open>atoi.c\<close> has character classes of its own. The accumulator is an \<^verbatim>\<open>int\<close>; a value outside
  \<^verbatim>\<open>INT_MIN .. INT_MAX\<close> is undefined behaviour and gives \<open>None\<close>.
\<close>

definition atoi_isdigit :: "u32 \<Rightarrow> bool" where
  "atoi_isdigit ch \<longleftrightarrow> ch - 48 < 10"

definition atoi_iswhitespace :: "u32 \<Rightarrow> bool" where
  "atoi_iswhitespace ch \<longleftrightarrow> ch = 32 \<or> ch - 9 < 5"

definition int_checked :: "int \<Rightarrow> int option" where
  "int_checked n = (if - (2 ^ 31) \<le> n \<and> n < 2 ^ 31 then Some n else None)"

partial_function (option) atoi_skip :: "mem \<Rightarrow> addr \<Rightarrow> addr option" where
  "atoi_skip m s = (if atoi_iswhitespace (scast (m s)) then atoi_skip m (s + 1) else Some s)"

partial_function (option) atoi_digits :: "mem \<Rightarrow> addr \<Rightarrow> int \<Rightarrow> int option" where
  "atoi_digits m s n =
     (if atoi_isdigit (scast (m s))
      then (case int_checked (10 * n) of None \<Rightarrow> None
            | Some t \<Rightarrow> (case int_checked (t - (sint (m s) - 48)) of None \<Rightarrow> None
                       | Some n' \<Rightarrow> atoi_digits m (s + 1) n'))
      else Some n)"

definition atoi :: "mem \<Rightarrow> addr \<Rightarrow> int option" where
  "atoi m s =
     (case atoi_skip m s of None \<Rightarrow> None
      | Some s \<Rightarrow>
          let neg = (m s = 45);
              s = (if m s = 45 \<or> m s = 43 then s + 1 else s)
          in (case atoi_digits m s 0 of None \<Rightarrow> None
              | Some n \<Rightarrow> if neg then Some n else int_checked (- n)))"

section \<open>strtol and strtoul\<close>

partial_function (option) strto_skip :: "mem \<Rightarrow> addr \<Rightarrow> (u8 \<times> addr) option" where
  "strto_skip m s =
     (let c = m s in if iswhitespace (ucast c) then strto_skip m (s + 1) else Some (c, s + 1))"

text \<open>Sign, \<^verbatim>\<open>0x\<close> prefix and default base: (neg, c, s, base).\<close>

definition strto_prefix :: "mem \<Rightarrow> addr \<Rightarrow> u32 \<Rightarrow> (bool \<times> u8 \<times> addr \<times> u32) option" where
  "strto_prefix m nptr base =
     (case strto_skip m nptr of None \<Rightarrow> None
      | Some (c, s) \<Rightarrow>
          let (neg, c, s) = (if c = 45 then (True, m s, s + 1)
                             else if c = 43 then (False, m s, s + 1) else (False, c, s));
              (c, s, base) = (if (base = 0 \<or> base = 16) \<and> c = 48 \<and> (m s = 120 \<or> m s = 88)
                              then (m (s + 1), s + 2, 16) else (c, s, base));
              base = (if base = 0 then (if c = 48 then 8 else 10) else base)
          in Some (neg, c, s, base))"

definition strto_digit :: "u8 \<Rightarrow> u8 option" where
  "strto_digit c =
     (if \<not> isascii (ucast c) then None
      else if isdigit (ucast c) then Some (c - 48)
      else if isalpha (ucast c) then Some (c - (if isupper (ucast c) then 65 - 10 else 97 - 10))
      else None)"

text \<open>The digit loop, the same in both functions; \<open>s\<close> is one past the character \<open>c\<close>.\<close>

partial_function (option) strto_loop ::
  "mem \<Rightarrow> u32 \<Rightarrow> u32 \<Rightarrow> u32 \<Rightarrow> addr \<Rightarrow> u8 \<Rightarrow> u32 \<Rightarrow> int \<Rightarrow> (addr \<times> u32 \<times> int) option" where
  "strto_loop m base cutoff cutlim s c acc any =
     (case strto_digit c of None \<Rightarrow> Some (s, acc, any)
      | Some d \<Rightarrow>
          if int (unat d) \<ge> sint base then Some (s, acc, any)
          else if any < 0 \<or> acc > cutoff \<or> acc = cutoff \<and> int (unat d) > sint cutlim
          then strto_loop m base cutoff cutlim (s + 1) (m s) acc (-1)
          else strto_loop m base cutoff cutlim (s + 1) (m s) (acc * base + ucast d) 1)"

text \<open>
  The result is the value and what is stored through \<^verbatim>\<open>endptr\<close>, \<open>None\<close> when it is null.
\<close>

definition LONG_MIN :: u32 where [simp]: "LONG_MIN = 0x80000000"
definition LONG_MAX :: u32 where [simp]: "LONG_MAX = 0x7fffffff"
definition ULONG_MAX :: u32 where [simp]: "ULONG_MAX = 0xffffffff"

definition strtol :: "mem \<Rightarrow> addr \<Rightarrow> addr \<Rightarrow> u32 \<Rightarrow> (u32 \<times> addr option) option" where
  "strtol m nptr endptr base =
     (case strto_prefix m nptr base of None \<Rightarrow> None
      | Some (neg, c, s, base) \<Rightarrow>
          let cutoff = (if neg then - LONG_MIN else LONG_MAX);
              cutlim = cutoff mod base;
              cutoff = cutoff div base
          in (case strto_loop m base cutoff cutlim s c 0 0 of None \<Rightarrow> None
              | Some (s, acc, any) \<Rightarrow>
                  let acc = (if any < 0 then (if neg then LONG_MIN else LONG_MAX)
                             else if neg then - acc else acc)
                  in Some (acc, if endptr \<noteq> 0 then Some (if any \<noteq> 0 then s - 1 else nptr) else None)))"

definition strtoul :: "mem \<Rightarrow> addr \<Rightarrow> addr \<Rightarrow> u32 \<Rightarrow> (u32 \<times> addr option) option" where
  "strtoul m nptr endptr base =
     (case strto_prefix m nptr base of None \<Rightarrow> None
      | Some (neg, c, s, base) \<Rightarrow>
          let cutoff = ULONG_MAX div base;
              cutlim = ULONG_MAX mod base
          in (case strto_loop m base cutoff cutlim s c 0 0 of None \<Rightarrow> None
              | Some (s, acc, any) \<Rightarrow>
                  let acc = (if any < 0 then ULONG_MAX else if neg then - acc else acc)
                  in Some (acc, if endptr \<noteq> 0 then Some (if any \<noteq> 0 then s - 1 else nptr) else None)))"

section \<open>strstr\<close>

text \<open>The inner loop: \<open>Some None\<close> at the end of the string, else the address after \<open>c\<close>.\<close>

partial_function (option) strstr_scan :: "mem \<Rightarrow> addr \<Rightarrow> u8 \<Rightarrow> addr option option" where
  "strstr_scan m s c =
     (let sc = m s in
      if sc = 0 then Some None
      else if sc \<noteq> c then strstr_scan m (s + 1) c else Some (Some (s + 1)))"

partial_function (option) strstr_loop :: "mem \<Rightarrow> addr \<Rightarrow> addr \<Rightarrow> u8 \<Rightarrow> u32 \<Rightarrow> addr option" where
  "strstr_loop m s pat c len =
     (case strstr_scan m s c of None \<Rightarrow> None
      | Some None \<Rightarrow> Some 0
      | Some (Some s) \<Rightarrow>
          if strncmp m s pat len \<noteq> 0 then strstr_loop m s pat c len else Some (s - 1))"

definition strstr :: "mem \<Rightarrow> addr \<Rightarrow> addr \<Rightarrow> addr option" where
  "strstr m s pat =
     (if s = 0 then Some 0
      else if pat = 0 then Some 0
      else let c = m pat in
        if c \<noteq> 0 then (case strlen m (pat + 1) of None \<Rightarrow> None
                     | Some len \<Rightarrow> strstr_loop m s (pat + 1) c len)
        else Some s)"

section \<open>Reference definitions\<close>

text \<open>The value of a character as a digit, and of a digit string in a base.\<close>

fun digit_val :: "u8 \<Rightarrow> nat option" where
  "digit_val c =
     (if 48 \<le> unat c \<and> unat c \<le> 57 then Some (unat c - 48)
      else if 65 \<le> unat c \<and> unat c \<le> 90 then Some (unat c - 55)
      else if 97 \<le> unat c \<and> unat c \<le> 122 then Some (unat c - 87)
      else None)"

definition in_base :: "nat \<Rightarrow> u8 \<Rightarrow> bool" where
  "in_base b c \<longleftrightarrow> (case digit_val c of None \<Rightarrow> False | Some d \<Rightarrow> d < b)"

definition numeral_from :: "nat \<Rightarrow> nat \<Rightarrow> u8 list \<Rightarrow> nat" where
  "numeral_from b a cs = foldl (\<lambda>a c. a * b + the (digit_val c)) a cs"

lemma numeral_from_simps [simp]:
  "numeral_from b a [] = a"
  "numeral_from b a (c # cs) = numeral_from b (a * b + the (digit_val c)) cs"
  by (simp_all add: numeral_from_def)

lemma ucast_8_32 [simp]: "(ucast (ucast (c :: u8) :: u32) :: u8) = c"
  by (simp add: ucast_up_ucast_id is_up)

lemma unat_ucast_8_32 [simp]: "unat (ucast (c :: u8) :: u32) = unat c"
  by transfer (simp add: take_bit_eq_mod)

lemma strto_digit_val: "map_option unat (strto_digit c) = digit_val c"
proof -
  have le: "unat (a - b) = unat a - unat b" if "b \<le> a" for a b :: u8
    using that by (simp add: unat_sub)
  show ?thesis
    by (auto simp: digit_val.simps strto_digit_def isascii_def isdigit_def isalpha_def isupper_def islower_def
        le word_le_nat_alt)
qed

declare digit_val.simps [simp del]

lemma digit_val_0 [simp]: "digit_val 0 = None"
  by (simp add: digit_val.simps)

lemma strto_digit_cases:
  assumes "0 < b" and "b \<le> 36"
  shows "in_base b c \<Longrightarrow> \<exists>d. strto_digit c = Some d \<and> unat d = the (digit_val c) \<and> unat d < b"
    and "\<not> in_base b c \<Longrightarrow> strto_digit c = None \<or> (\<exists>d. strto_digit c = Some d \<and> b \<le> unat d)"
  using strto_digit_val [of c] by (cases "strto_digit c"; auto simp: in_base_def split: option.splits)+

lemma limit_check:
  assumes "d < (b :: nat)"
  shows "a * b + d \<le> L \<longleftrightarrow> a < L div b \<or> a = L div b \<and> d \<le> L mod b"
proof -
  have L: "L div b * b + L mod b = L" by simp
  have r: "L mod b < b" using assms by simp
  consider "a < L div b" | "a = L div b" | "a > L div b" by linarith
  then show ?thesis
  proof cases
    case 1
    then have "(a + 1) * b \<le> L div b * b" by (intro mult_le_mono1) simp
    then have "a * b + b \<le> L div b * b" by (simp add: algebra_simps)
    then show ?thesis using 1 L assms by linarith
  next
    case 2
    then show ?thesis using L by (metis add_le_cancel_left less_irrefl)
  next
    case 3
    then have "(L div b + 1) * b \<le> a * b" by (intro mult_le_mono1) simp
    then have "L div b * b + b \<le> a * b" by (simp add: algebra_simps)
    then show ?thesis using 3 L r by linarith
  qed
qed

lemma numeral_from_mono: "0 < b \<Longrightarrow> a \<le> numeral_from b a cs"
proof (induction cs arbitrary: a)
  case Nil
  then show ?case by simp
next
  case (Cons c cs)
  have "a \<le> a * b + the (digit_val c)" using Cons.prems by (simp add: trans_le_add1)
  also have "\<dots> \<le> numeral_from b (a * b + the (digit_val c)) cs" by (rule Cons.IH [OF Cons.prems])
  finally show ?case by simp
qed

lemma small_base:
  assumes "b \<le> 36"
  shows "unat (of_nat b :: u32) = b" and "sint (of_nat b :: u32) = int b"
proof -
  show u: "unat (of_nat b :: u32) = b" using assms by (simp add: unat_of_nat)
  then have "uint (of_nat b :: u32) = int b" by (metis uint_nat)
  then show "sint (of_nat b :: u32) = int b"
    using assms sint_small [of "of_nat b"] by simp
qed

text \<open>
  The digit loop over characters that are digits of the base: it computes the value as long
  as the limit \<open>L = cutoff * base + cutlim\<close> is respected and flags the overflow otherwise.
\<close>

lemma strto_loop_overflow:
  assumes b: "0 < b" "b \<le> 36"
  shows "\<lbrakk>cstr m p (ds @ rest); \<forall>c\<in>set ds. in_base b c; rest = [] \<or> \<not> in_base b (hd rest)\<rbrakk> \<Longrightarrow>
   strto_loop m (of_nat b) cutoff cutlim (p + 1) (m p) acc (-1) =
     Some (p + of_nat (length ds) + 1, acc, -1)"
proof (induction ds arbitrary: p)
  case Nil
  have "\<not> in_base b (m p)"
    using Nil by (cases rest) (auto simp: in_base_def)
  from strto_digit_cases(2) [OF b this] show ?case
    by (subst strto_loop.simps) (auto simp: small_base b)
next
  case (Cons c cs)
  from Cons.prems(2) have "in_base b c" by simp
  from strto_digit_cases(1) [OF b this] obtain d
    where "strto_digit c = Some d" "unat d < b" by blast
  then show ?case using Cons.prems Cons.IH [of "p + 1"]
    by (subst strto_loop.simps) (simp add: small_base b ac_simps)
qed

lemma strto_loop_value:
  assumes b: "0 < b" "b \<le> 36" and any: "0 \<le> any"
  shows "\<lbrakk>cstr m p (ds @ rest); \<forall>c\<in>set ds. in_base b c; rest = [] \<or> \<not> in_base b (hd rest);
    acc \<le> L\<rbrakk> \<Longrightarrow>
   \<exists>acc'. strto_loop m (of_nat b) (L div of_nat b) (L mod of_nat b) (p + 1) (m p) acc any =
     Some (p + of_nat (length ds) + 1, acc',
       if numeral_from b (unat acc) ds \<le> unat L then (if ds = [] then any else 1) else -1) \<and>
     (numeral_from b (unat acc) ds \<le> unat L \<longrightarrow> unat acc' = numeral_from b (unat acc) ds)"
  using any
proof (induction ds arbitrary: p acc any)
  case Nil
  have "\<not> in_base b (m p)"
    using Nil by (cases rest) (auto simp: in_base_def)
  from strto_digit_cases(2) [OF b this] show ?case using Nil.prems(4)
    by (subst strto_loop.simps) (auto simp: small_base b word_le_nat_alt)
next
  case (Cons c cs)
  from Cons.prems(2) have "in_base b c" by simp
  from strto_digit_cases(1) [OF b this] obtain d
    where d: "strto_digit c = Some d" "unat d = the (digit_val c)" "unat d < b" by blast
  let ?new = "unat acc * b + unat d"
  have lim: "sint (L mod of_nat b) = int (unat L mod b)"
  proof -
    have u: "unat (L mod of_nat b) = unat L mod b" by (simp add: unat_mod small_base b)
    then have "unat (L mod of_nat b) < 36" using b by (metis less_le_trans mod_less_divisor)
    then have "uint (L mod of_nat b) < int 36" by (simp only: int_uint_less)
    then have "sint (L mod of_nat b) = uint (L mod of_nat b)" by (intro sint_small) simp
    then show ?thesis using u by (metis uint_nat)
  qed
  have cut: "unat (L div of_nat b) = unat L div b" by (simp add: unat_div small_base b)
  have over: "(acc > L div of_nat b \<or> acc = L div of_nat b \<and> int (unat d) > sint (L mod of_nat b))
    \<longleftrightarrow> \<not> ?new \<le> unat L"
    unfolding limit_check [OF d(3)] lim
    by (auto simp: word_less_nat_alt cut word_unat_eq_iff)
  show ?case
  proof (cases "?new \<le> unat L")
    case True
    have "unat (acc * of_nat b + ucast d) = ?new"
      using True unat_lt32 [of L] b by (simp add: unat_word_ariths small_base mod_simps)
    moreover have "strto_loop m (of_nat b) (L div of_nat b) (L mod of_nat b) (p + 1) (m p) acc any =
      strto_loop m (of_nat b) (L div of_nat b) (L mod of_nat b) (p + 1 + 1) (m (p + 1))
        (acc * of_nat b + ucast d) 1"
      using Cons.prems True over d by (subst strto_loop.simps) (auto simp: small_base b)
    moreover obtain acc' where
      "strto_loop m (of_nat b) (L div of_nat b) (L mod of_nat b) (p + 1 + 1) (m (p + 1))
        (acc * of_nat b + ucast d) 1 =
        Some (p + 1 + of_nat (length cs) + 1, acc', if numeral_from b ?new cs \<le> unat L then 1 else -1)"
      "numeral_from b ?new cs \<le> unat L \<longrightarrow> unat acc' = numeral_from b ?new cs"
      using Cons.prems Cons.IH [of "p + 1" "acc * of_nat b + ucast d" 1] True calculation(1)
      by (auto simp: word_le_nat_alt)
    ultimately show ?thesis using d(2) by (simp add: ac_simps)
  next
    case False
    then have "\<not> numeral_from b ?new cs \<le> unat L"
      using numeral_from_mono [OF b(1), of ?new cs] by simp
    moreover have "strto_loop m (of_nat b) (L div of_nat b) (L mod of_nat b) (p + 1) (m p) acc any =
      strto_loop m (of_nat b) (L div of_nat b) (L mod of_nat b) (p + 1 + 1) (m (p + 1)) acc (-1)"
      using Cons.prems(1,2) False over d by (subst strto_loop.simps) (simp add: small_base b)
    ultimately show ?thesis
      using Cons.prems strto_loop_overflow [OF b, of m "p + 1" cs rest] d by (simp add: ac_simps)
  qed
qed

text \<open>White space, an optional sign and a first digit are consumed by the prefix code.\<close>

lemma strto_skip_spaces:
  "\<lbrakk>cstr m p (ws @ c # cs); \<forall>w\<in>set ws. iswhitespace (ucast w); \<not> iswhitespace (ucast c)\<rbrakk> \<Longrightarrow>
   strto_skip m p = Some (c, p + of_nat (length ws) + 1)"
proof (induction ws arbitrary: p)
  case Nil
  then show ?case by (subst strto_skip.simps) simp
next
  case (Cons w ws)
  then show ?case using Cons.IH [of "p + 1"] by (subst strto_skip.simps) (simp add: ac_simps)
qed

lemma cstr_append: "cstr m p (xs @ ys) \<Longrightarrow> cstr m (p + of_nat (length xs)) ys"
  by (induction xs arbitrary: p) (auto simp flip: add.assoc)

lemma in_base_not_space: "in_base b c \<Longrightarrow> \<not> iswhitespace (ucast c) \<and> c \<noteq> 45 \<and> c \<noteq> 43"
  by (auto simp: in_base_def digit_val.simps iswhitespace_def split: if_splits)

definition sign :: "u8 list \<Rightarrow> bool" where
  "sign sg \<longleftrightarrow> sg = [] \<or> sg = [45] \<or> sg = [43]"

lemma strto_prefix_number:
  assumes s: "cstr m p (ws @ sg @ c # cs)" and ws: "\<forall>w\<in>set ws. iswhitespace (ucast w)"
    and sg: "sign sg" and c: "in_base b c" and b: "0 < b" "b \<le> 36" "b \<noteq> 16"
  shows "strto_prefix m p (of_nat b) =
    Some (sg = [45], c, p + of_nat (length (ws @ sg)) + 1, of_nat b)"
proof -
  have nb: "(of_nat b :: u32) \<noteq> 0" "(of_nat b :: u32) \<noteq> 16"
    using b small_base(1) [OF b(2)] by (auto dest!: arg_cong [where f = unat])
  note c' = in_base_not_space [OF c]
  have first: "m (p + of_nat (length (ws @ sg))) = c"
    using cstr_append [of m p "ws @ sg" "c # cs"] s by simp
  consider "sg = []" | "sg = [45]" | "sg = [43]" using sg by (auto simp: sign_def)
  then show ?thesis
  proof cases
    case 1
    then show ?thesis using strto_skip_spaces [of m p ws c cs] s ws c' nb
      by (simp add: strto_prefix_def)
  next
    case 2
    then have "m (p + of_nat (length ws) + 1) = c" using first by (simp add: ac_simps)
    moreover have "strto_skip m p = Some (45, p + of_nat (length ws) + 1)"
      using 2 strto_skip_spaces [of m p ws 45 "c # cs"] s ws by (simp add: iswhitespace_def isascii_def)
    ultimately show ?thesis using 2 nb by (simp add: strto_prefix_def add.assoc)
  next
    case 3
    then have "m (p + of_nat (length ws) + 1) = c" using first by (simp add: ac_simps)
    moreover have "strto_skip m p = Some (43, p + of_nat (length ws) + 1)"
      using 3 strto_skip_spaces [of m p ws 43 "c # cs"] s ws by (simp add: iswhitespace_def isascii_def)
    ultimately show ?thesis using 3 nb by (simp add: strto_prefix_def add.assoc)
  qed
qed

lemma strto_number:
  assumes s: "cstr m p (ws @ sg @ ds @ rest)" and ws: "\<forall>w\<in>set ws. iswhitespace (ucast w)"
    and sg: "sign sg" and b: "0 < b" "b \<le> 36" "b \<noteq> 16"
    and ds: "ds \<noteq> []" "\<forall>c\<in>set ds. in_base b c" and rest: "rest = [] \<or> \<not> in_base b (hd rest)"
  shows "\<exists>q. strto_prefix m p (of_nat b) = Some (sg = [45], m q, q + 1, of_nat b)
    \<and> (\<forall>L. \<exists>acc. strto_loop m (of_nat b) (L div of_nat b) (L mod of_nat b) (q + 1) (m q) 0 0 =
        Some (p + of_nat (length (ws @ sg @ ds)) + 1, acc, if numeral_from b 0 ds \<le> unat L then 1 else -1)
        \<and> (numeral_from b 0 ds \<le> unat L \<longrightarrow> unat acc = numeral_from b 0 ds))"
proof -
  obtain c cs where c: "ds = c # cs" using ds(1) by (cases ds) auto
  define q where "q = p + of_nat (length (ws @ sg))"
  have q: "cstr m q (ds @ rest)" using cstr_append [of m p "ws @ sg"] s by (simp add: q_def)
  then have "m q = c" using c by simp
  then have "strto_prefix m p (of_nat b) = Some (sg = [45], m q, q + 1, of_nat b)"
    using strto_prefix_number [of m p ws sg c "cs @ rest" b] s ws sg ds b c by (simp add: q_def)
  moreover have "\<exists>acc. strto_loop m (of_nat b) (L div of_nat b) (L mod of_nat b) (q + 1) (m q) 0 0 =
        Some (p + of_nat (length (ws @ sg @ ds)) + 1, acc, if numeral_from b 0 ds \<le> unat L then 1 else -1)
        \<and> (numeral_from b 0 ds \<le> unat L \<longrightarrow> unat acc = numeral_from b 0 ds)" for L
  proof -
    have "q + of_nat (length ds) = p + of_nat (length (ws @ sg @ ds))" by (simp add: q_def ac_simps)
    with strto_loop_value [OF b(1,2) _ q ds(2) rest, of 0 0 L] ds(1) show ?thesis
      by (cases "numeral_from b 0 ds \<le> unat L") simp_all
  qed
  ultimately show ?thesis by blast
qed

section \<open>Properties of strtol and strtoul\<close>

text \<open>A string that spells a number: white space, sign, digits of the base, then the rest.\<close>

definition spells :: "nat \<Rightarrow> u8 list \<Rightarrow> u8 list \<Rightarrow> u8 list \<Rightarrow> u8 list \<Rightarrow> bool" where
  "spells b ws sg ds rest \<longleftrightarrow>
     list_all (\<lambda>w. iswhitespace (ucast w)) ws \<and> sign sg \<and> ds \<noteq> [] \<and> list_all (in_base b) ds
     \<and> (rest = [] \<or> \<not> in_base b (hd rest))"

text \<open>
  \<^verbatim>\<open>strtol\<close> of a string that spells a number in a base from 1 to 36 other than 16
  returns the number, clamped to \<^verbatim>\<open>LONG_MIN .. LONG_MAX\<close>, and stores through \<^verbatim>\<open>endptr\<close> the
  address of the first character after the last digit, however long the number is.
\<close>

theorem strtol_saturates:
  assumes s: "cstr m p (ws @ sg @ ds @ rest)" and sp: "spells b ws sg ds rest"
    and b: "0 < b" "b \<le> 36" "b \<noteq> 16" and e: "endptr \<noteq> 0"
  shows "strtol m p endptr (of_nat b) =
    Some (if sg = [45] then word_of_int (max (- (2 ^ 31)) (- int (numeral_from b 0 ds)))
          else word_of_int (min (2 ^ 31 - 1) (int (numeral_from b 0 ds))),
          Some (p + of_nat (length (ws @ sg @ ds))))"
proof -
  let ?v = "numeral_from b 0 ds" and ?neg = "sg = [45]"
  let ?L = "(if ?neg then - LONG_MIN else LONG_MAX) :: u32"
  obtain q where q: "strto_prefix m p (of_nat b) = Some (?neg, m q, q + 1, of_nat b)"
    and "\<forall>L. \<exists>acc. strto_loop m (of_nat b) (L div of_nat b) (L mod of_nat b) (q + 1) (m q) 0 0 =
        Some (p + of_nat (length (ws @ sg @ ds)) + 1, acc, if ?v \<le> unat L then 1 else -1)
        \<and> (?v \<le> unat L \<longrightarrow> unat acc = ?v)"
    using strto_number [OF s _ _ b] sp by (auto simp: spells_def list_all_iff)
  then obtain acc where
    l: "strto_loop m (of_nat b) (?L div of_nat b) (?L mod of_nat b) (q + 1) (m q) 0 0 =
        Some (p + of_nat (length (ws @ sg @ ds)) + 1, acc, if ?v \<le> unat ?L then 1 else -1)"
    and acc: "?v \<le> unat ?L \<longrightarrow> acc = of_nat ?v"
    by (metis of_nat_unat_word)
  have L: "unat ?L = (if ?neg then 2 ^ 31 else 2 ^ 31 - 1)" by simp
  show ?thesis
  proof (cases "?v \<le> unat ?L")
    case True
    then show ?thesis using q l acc L e
      by (cases ?neg) (simp_all add: strtol_def min_def max_def)
  next
    case False
    then show ?thesis using q l L e
      by (cases ?neg) (simp_all add: strtol_def min_def max_def)
  qed
qed

theorem strtol_saturates_witness:
  "strtol (\<lambda>a. if a = 1 then 32 else if a = 2 then 45 else if a = 3 then 52 else if a = 4 then 50 else 0)
     1 9 10 = Some (word_of_int (-42), Some 5)"
  using strtol_saturates [of "\<lambda>a. if a = 1 then 32 else if a = 2 then 45 else if a = 3 then 52
     else if a = 4 then 50 else 0" 1 "[32]" "[45]" "[52, 50]" "[]" 10 9]
  by (simp add: spells_def sign_def in_base_def digit_val.simps iswhitespace_def isascii_def)

text \<open>
  \<^verbatim>\<open>strtoul\<close> of a string that spells a number returns it, negated modulo \<open>2 ^ 32\<close> after a
  minus sign, and \<^verbatim>\<open>ULONG_MAX\<close> when the digits exceed the range, whatever the sign.
\<close>

theorem strtoul_saturates:
  assumes s: "cstr m p (ws @ sg @ ds @ rest)" and sp: "spells b ws sg ds rest"
    and b: "0 < b" "b \<le> 36" "b \<noteq> 16" and e: "endptr \<noteq> 0"
  shows "strtoul m p endptr (of_nat b) =
    Some (if 2 ^ 32 \<le> numeral_from b 0 ds then ULONG_MAX
          else if sg = [45] then - of_nat (numeral_from b 0 ds) else of_nat (numeral_from b 0 ds),
          Some (p + of_nat (length (ws @ sg @ ds))))"
proof -
  let ?v = "numeral_from b 0 ds" and ?neg = "sg = [45]"
  obtain q where q: "strto_prefix m p (of_nat b) = Some (?neg, m q, q + 1, of_nat b)"
    and "\<forall>L. \<exists>acc. strto_loop m (of_nat b) (L div of_nat b) (L mod of_nat b) (q + 1) (m q) 0 0 =
        Some (p + of_nat (length (ws @ sg @ ds)) + 1, acc, if ?v \<le> unat L then 1 else -1)
        \<and> (?v \<le> unat L \<longrightarrow> unat acc = ?v)"
    using strto_number [OF s _ _ b] sp by (auto simp: spells_def list_all_iff)
  then obtain acc where
    l: "strto_loop m (of_nat b) (ULONG_MAX div of_nat b) (ULONG_MAX mod of_nat b) (q + 1) (m q) 0 0 =
        Some (p + of_nat (length (ws @ sg @ ds)) + 1, acc, if ?v \<le> unat ULONG_MAX then 1 else -1)"
    and acc: "?v \<le> unat ULONG_MAX \<longrightarrow> acc = of_nat ?v"
    by (metis of_nat_unat_word)
  have "?v \<le> unat ULONG_MAX \<longleftrightarrow> \<not> 2 ^ 32 \<le> ?v" by auto
  then show ?thesis using q l acc e by (cases "2 ^ 32 \<le> ?v") (simp_all add: strtoul_def)
qed

theorem strtoul_saturates_witness:
  "strtoul (\<lambda>a. if a = 1 then 45 else if a = 2 then 55 else 0) 1 9 8 = Some (- 7, Some 3)"
  using strtoul_saturates [of "\<lambda>a. if a = 1 then 45 else if a = 2 then 55 else 0"
      1 "[]" "[45]" "[55]" "[]" 8 9]
  by (simp add: spells_def sign_def in_base_def digit_val.simps)

section \<open>Properties of strstr\<close>

lemma cstr_length: "cstr m s bs \<Longrightarrow> length bs < 2 ^ 32"
proof -
  assume c: "cstr m s bs"
  let ?z = "s + of_nat (length bs)"
  have "m (s + of_nat (unat (of_nat (length bs) :: addr))) = 0" using cstr_end [OF c] by simp
  then obtain bs' where "cstr m s bs'" "length bs' \<le> unat (of_nat (length bs) :: addr)"
    using cstr_exists by blast
  then show ?thesis using cstr_unique [OF c] unat_lt32 [of "of_nat (length bs)"] by fastforce
qed

lemma strncmp_cstr:
  assumes "cstr m s1 as" and "cstr m s2 bs"
  shows "strncmp m s1 s2 (of_nat (length bs)) = 0 \<longleftrightarrow> take (length bs) as = bs"
proof -
  have l: "unat (of_nat (length bs) :: u32) = length bs"
    using cstr_length [OF assms(2)] by (simp add: unat_of_nat)
  show ?thesis
  proof (cases "s1 = s2")
    case True
    with assms have "as = bs" using cstr_unique by blast
    then show ?thesis using True by (simp add: strncmp_def)
  next
    case False
    then show ?thesis using assms l strncmp_from_cstr [of m s1 0 as s2 bs "of_nat (length bs)"]
      by (simp add: strncmp_def bytes_cmp_zero)
  qed
qed

definition occurs :: "u8 list \<Rightarrow> u8 list \<Rightarrow> nat \<Rightarrow> bool" where
  "occurs ndl hay i \<longleftrightarrow> take (length ndl) (drop i hay) = ndl"

lemma strstr_scan_cstr:
  "cstr m s bs \<Longrightarrow> strstr_scan m s c =
     Some (if c \<in> set bs then Some (s + of_nat (length (takeWhile (\<lambda>b. b \<noteq> c) bs)) + 1) else None)"
proof (induction bs arbitrary: s)
  case Nil
  then show ?case by (subst strstr_scan.simps) simp
next
  case (Cons b bs)
  then show ?case using Cons.IH [of "s + 1"] by (subst strstr_scan.simps) (auto simp: ac_simps)
qed

lemma occurs_before:
  assumes "c \<notin> set pre" and "occurs (c # ts) (pre @ hay) i"
  shows "length pre \<le> i"
proof (rule ccontr)
  assume i: "\<not> length pre \<le> i"
  then have "hd (drop i (pre @ hay)) = pre ! i"
    by (subst hd_drop_conv_nth) (simp_all add: nth_append)
  moreover have "hd (drop i (pre @ hay)) = c"
    using assms(2) unfolding occurs_def by (metis hd_take length_Cons list.sel(1) zero_less_Suc)
  ultimately have "pre ! i = c" by simp
  with assms(1) i show False by (metis nth_mem not_le)
qed

lemma strstr_loop_first:
  assumes "cstr m pat ts"
  shows "\<lbrakk>cstr m s hay; occurs (c # ts) hay i; \<forall>j<i. \<not> occurs (c # ts) hay j\<rbrakk> \<Longrightarrow>
    strstr_loop m s pat c (of_nat (length ts)) = Some (s + of_nat i)"
proof (induction "length hay" arbitrary: s hay i rule: less_induct)
  case less
  show ?case
  proof (cases "c \<in> set hay")
    case False
    have "length hay \<le> i" using occurs_before [OF False, of ts "[]" i] less.prems(2) by simp
    then have "drop i hay = []" by simp
    with less.prems(2) show ?thesis by (simp add: occurs_def)
  next
    case True
    then obtain pre post where hay: "hay = pre @ c # post" and pre: "c \<notin> set pre"
      by (meson split_list_first)
    have tw: "takeWhile (\<lambda>b. b \<noteq> c) hay = pre" unfolding hay using pre by (subst takeWhile_append2) auto
    have post: "cstr m (s + of_nat (length pre) + 1) post"
      using cstr_append [of m s "pre @ [c]" post] less.prems(1) hay by (simp add: ac_simps)
    have scan: "strstr_scan m s c = Some (Some (s + of_nat (length pre) + 1))"
      using strstr_scan_cstr [OF less.prems(1)] True tw by simp
    have here: "occurs (c # ts) hay (length pre) \<longleftrightarrow> take (length ts) post = ts"
      by (simp add: occurs_def hay)
    have le: "length pre \<le> i" using occurs_before [OF pre] less.prems(2) hay by blast
    show ?thesis
    proof (cases "i = length pre")
      case True
      then show ?thesis using here less.prems(2) strncmp_cstr [OF post assms] scan
        by (subst strstr_loop.simps) simp
    next
      case False
      with le have "length pre < i" by simp
      then have n: "strncmp m (s + of_nat (length pre) + 1) pat (of_nat (length ts)) \<noteq> 0"
        using here less.prems(3) strncmp_cstr [OF post assms] by blast
      have sh: "occurs (c # ts) hay (Suc (length pre) + j) = occurs (c # ts) post j" for j
        by (simp add: occurs_def hay)
      obtain j where j: "i = Suc (length pre) + j" using \<open>length pre < i\<close> less_iff_Suc_add by auto
      have nofirst: "\<forall>k<j. \<not> occurs (c # ts) post k"
        using less.prems(3) sh j by (metis nat_add_left_cancel_less)
      have "strstr_loop m (s + of_nat (length pre) + 1) pat c (of_nat (length ts)) =
          Some (s + of_nat (length pre) + 1 + of_nat j)"
        using less.hyps [OF _ post, of j] less.prems(2) sh j hay nofirst by simp
      then show ?thesis using scan n j by (subst strstr_loop.simps) (simp add: ac_simps)
    qed
  qed
qed

lemma strstr_loop_absent:
  assumes "cstr m pat ts"
  shows "\<lbrakk>cstr m s hay; \<forall>j. \<not> occurs (c # ts) hay j\<rbrakk> \<Longrightarrow>
    strstr_loop m s pat c (of_nat (length ts)) = Some 0"
proof (induction "length hay" arbitrary: s hay rule: less_induct)
  case less
  show ?case
  proof (cases "c \<in> set hay")
    case False
    then show ?thesis using strstr_scan_cstr [OF less.prems(1)] by (subst strstr_loop.simps) simp
  next
    case True
    then obtain pre post where hay: "hay = pre @ c # post" and pre: "c \<notin> set pre"
      by (meson split_list_first)
    have tw: "takeWhile (\<lambda>b. b \<noteq> c) hay = pre" unfolding hay using pre by (subst takeWhile_append2) auto
    have post: "cstr m (s + of_nat (length pre) + 1) post"
      using cstr_append [of m s "pre @ [c]" post] less.prems(1) hay by (simp add: ac_simps)
    have scan: "strstr_scan m s c = Some (Some (s + of_nat (length pre) + 1))"
      using strstr_scan_cstr [OF less.prems(1)] True tw by simp
    have "occurs (c # ts) hay (length pre) \<longleftrightarrow> take (length ts) post = ts"
      by (simp add: occurs_def hay)
    then have n: "strncmp m (s + of_nat (length pre) + 1) pat (of_nat (length ts)) \<noteq> 0"
      using less.prems(2) strncmp_cstr [OF post assms] by blast
    have sh: "occurs (c # ts) hay (Suc (length pre) + j) = occurs (c # ts) post j" for j
      by (simp add: occurs_def hay)
    have "strstr_loop m (s + of_nat (length pre) + 1) pat c (of_nat (length ts)) = Some 0"
      using less.hyps [OF _ post] less.prems(2) sh hay by auto
    then show ?thesis using scan n by (subst strstr_loop.simps) simp
  qed
qed

text \<open>
  \<^verbatim>\<open>strstr\<close> of two strings returns the address of the first place where the second
  occurs in the first, and null when it occurs nowhere.
\<close>

theorem strstr_first_occurrence:
  assumes "cstr m s hay" and "cstr m pat ndl" and "s \<noteq> 0" and "pat \<noteq> 0"
  shows "(\<forall>i. occurs ndl hay i \<and> (\<forall>j<i. \<not> occurs ndl hay j) \<longrightarrow> strstr m s pat = Some (s + of_nat i))
    \<and> ((\<forall>j. \<not> occurs ndl hay j) \<longrightarrow> strstr m s pat = Some 0)"
proof -
  have first: "strstr m s pat = Some (s + of_nat i)"
    if "occurs ndl hay i" "\<forall>j<i. \<not> occurs ndl hay j" for i
  proof (cases ndl)
    case Nil
    have "\<not> 0 < i" using that(2) Nil by (auto simp: occurs_def)
    then show ?thesis using assms Nil by (simp add: strstr_def)
  next
    case (Cons c ts)
    then show ?thesis
      using assms that strstr_loop_first [of m "pat + 1" ts s hay c i] strlen_cstr [of m "pat + 1" ts]
      by (simp add: strstr_def)
  qed
  have absent: "strstr m s pat = Some 0" if "\<forall>j. \<not> occurs ndl hay j"
  proof (cases ndl)
    case Nil
    then show ?thesis using that by (simp add: occurs_def)
  next
    case (Cons c ts)
    then show ?thesis
      using assms that strstr_loop_absent [of m "pat + 1" ts s hay c] strlen_cstr [of m "pat + 1" ts]
      by (simp add: strstr_def)
  qed
  show ?thesis using first absent by blast
qed

theorem strstr_first_occurrence_witness:
  "strstr (\<lambda>a. if a = 2 \<or> a = 9 then 65 else if a = 1 \<or> a = 3 \<or> a = 10 then 66 else 0) 1 9 = Some 2"
proof -
  let ?m = "\<lambda>a :: addr. if a = 2 \<or> a = 9 then 65 else if a = 1 \<or> a = 3 \<or> a = 10 then 66 else 0 :: u8"
  have h: "cstr ?m 1 [66, 65, 66]" and n: "cstr ?m 9 [65, 66]" by simp_all
  have "strstr ?m 1 9 = Some (1 + of_nat 1)"
    by (rule strstr_first_occurrence [OF h n, THEN conjunct1, THEN spec, THEN mp])
      (simp_all add: occurs_def)
  then show ?thesis by simp
qed

end
