(* ===== verification/C_Printf.thy ===== *)
theory C_Printf
  imports C_Convert
begin

text \<open>
  Formatted output, \<^verbatim>\<open>libc/stdio/kprintf.c\<close>, into a buffer of the byte memory. Variadic
  arguments are a list of 32-bit words; taking one from the empty list is undefined and gives
  \<open>None\<close>, as does a loop that does not end.
\<close>

section \<open>Numbers\<close>

definition UINT32_MAX :: u32 where [simp]: "UINT32_MAX = 0xffffffff"

text \<open>The number of digits to print: \<open>i\<close> runs through 9, 99, 999, ... modulo \<open>2 ^ 32\<close>.\<close>

partial_function (option) dec_width :: "u32 \<Rightarrow> u32 \<Rightarrow> u32 \<Rightarrow> u32 option" where
  "dec_width val n_width i =
     (if val > i \<and> i < UINT32_MAX then dec_width val (n_width + 1) (i * 10 + 9) else Some n_width)"

function pad_zero :: "mem \<Rightarrow> addr \<Rightarrow> u32 \<Rightarrow> u32 \<Rightarrow> u32 \<Rightarrow> u32 \<Rightarrow> mem \<times> u32" where
  "pad_zero m buf ptr n_width printed width =
     (if n_width + printed < width
      then pad_zero (m(buf + ptr := 48)) buf (ptr + 1) n_width (printed + 1) width
      else (m, ptr))"
  by pat_completeness auto
termination
  by (relation "measure (\<lambda>(m, buf, ptr, n_width, printed, width). unat width - unat (n_width + printed))")
     (auto simp: unat_inc_less word_less_nat_alt simp flip: add.assoc)

fun dec_loop :: "mem \<Rightarrow> addr \<Rightarrow> nat \<Rightarrow> u32 \<Rightarrow> mem" where
  "dec_loop m p 0 val = m"
| "dec_loop m p (Suc i) val = dec_loop (m(p + of_nat i := ucast (val mod 10) + 48)) p i (val div 10)"

definition print_dec :: "u32 \<Rightarrow> u32 \<Rightarrow> addr \<Rightarrow> mem \<Rightarrow> u32 \<Rightarrow> (mem \<times> u32) option" where
  "print_dec val width buf m ptr =
     (case dec_width val 1 9 of None \<Rightarrow> None
      | Some n_width \<Rightarrow>
          let (m, ptr) = pad_zero m buf ptr n_width 0 width;
              m = dec_loop m (buf + ptr) (unat n_width) val
          in Some (m, ptr + n_width))"

partial_function (option) hex_width :: "u32 \<Rightarrow> u32 \<Rightarrow> u32 \<Rightarrow> u32 option" where
  "hex_width val n_width j =
     (if val > j \<and> j < UINT32_MAX then hex_width val (n_width + 1) (j * 16 + 15) else Some n_width)"

definition hex_digit :: "u32 \<Rightarrow> u8" where
  "hex_digit d = [48, 49, 50, 51, 52, 53, 54, 55, 56, 57, 97, 98, 99, 100, 101, 102] ! unat (d AND 0xF)"

text \<open>The padding loop counts a signed \<open>i\<close> down to the width of the number.\<close>

definition hex_pad :: "mem \<Rightarrow> addr \<Rightarrow> u32 \<Rightarrow> nat \<Rightarrow> mem \<times> u32" where
  "hex_pad m buf ptr n = fold (\<lambda>_ (m, ptr). (m(buf + ptr := 48), ptr + 1)) [0..<n] (m, ptr)"

definition print_hex :: "u32 \<Rightarrow> u32 \<Rightarrow> addr \<Rightarrow> mem \<Rightarrow> u32 \<Rightarrow> (mem \<times> u32) option" where
  "print_hex val width buf m ptr =
     (let i = (if width = 0 then 8 else sint width) in
      case hex_width val 1 0x0F of None \<Rightarrow> None
      | Some n_width \<Rightarrow>
          let (m, ptr) = hex_pad m buf ptr (nat (i - sint n_width))
          in Some (fold (\<lambda>i (m, ptr). (m(buf + ptr := hex_digit (drop_bit (i * 4) val)), ptr + 1))
                     (rev [0..<unat n_width]) (m, ptr)))"

section \<open>vasprintf\<close>

partial_function (option) put_string :: "mem \<Rightarrow> addr \<Rightarrow> addr \<Rightarrow> (mem \<times> addr) option" where
  "put_string m b s =
     (if m s \<noteq> 0 then put_string (m(b := m s)) (b + 1) (s + 1) else Some (m, b))"

fun put_bytes :: "mem \<Rightarrow> addr \<Rightarrow> u8 list \<Rightarrow> mem \<times> addr" where
  "put_bytes m b [] = (m, b)"
| "put_bytes m b (c # cs) = put_bytes (m(b := c)) (b + 1) cs"

definition null_string :: "u8 list" where
  "null_string = [40, 110, 117, 108, 108, 41]"

partial_function (option) arg_width :: "mem \<Rightarrow> addr \<Rightarrow> u32 \<Rightarrow> (addr \<times> u32) option" where
  "arg_width m f w =
     (if 48 \<le> m f \<and> m f \<le> 57 then arg_width m (f + 1) (w * 10 + (ucast (m f) - 48))
      else Some (f, w))"

text \<open>One conversion: \<open>f\<close> is at the conversion character; the result is memory, \<open>b\<close>, arguments.\<close>

definition convert :: "mem \<Rightarrow> addr \<Rightarrow> addr \<Rightarrow> addr \<Rightarrow> u32 \<Rightarrow> u32 list \<Rightarrow> (mem \<times> addr \<times> u32 list) option" where
  "convert m buf b f width args =
     (if m f = 115 then
        (case args of [] \<Rightarrow> None
         | s # args \<Rightarrow>
             if s = 0 then (let (m, b) = put_bytes m b null_string in Some (m, b, args))
             else (case put_string m b s of None \<Rightarrow> None | Some (m, b) \<Rightarrow> Some (m, b, args)))
      else if m f = 99 then
        (case args of [] \<Rightarrow> None | c # args \<Rightarrow> Some (m(b := ucast c), b + 1, args))
      else if m f = 120 then
        (case args of [] \<Rightarrow> None
         | x # args \<Rightarrow>
             (case print_hex x width buf m (b - buf) of None \<Rightarrow> None
              | Some (m, i) \<Rightarrow> Some (m, buf + i, args)))
      else if m f = 100 then
        (case args of [] \<Rightarrow> None
         | x # args \<Rightarrow>
             (case print_dec x width buf m (b - buf) of None \<Rightarrow> None
              | Some (m, i) \<Rightarrow> Some (m, buf + i, args)))
      else if m f = 37 then Some (m(b := 37), b + 1, args)
      else Some (m(b := m f), b + 1, args))"

partial_function (option) format_loop ::
  "mem \<Rightarrow> addr \<Rightarrow> addr \<Rightarrow> addr \<Rightarrow> u32 list \<Rightarrow> (mem \<times> addr) option" where
  "format_loop m buf b f args =
     (if m f = 0 then Some (m, b)
      else if m f \<noteq> 37 then format_loop (m(b := m f)) buf (b + 1) (f + 1) args
      else (case arg_width m (f + 1) 0 of None \<Rightarrow> None
            | Some (f, width) \<Rightarrow>
                (case convert m buf b f width args of None \<Rightarrow> None
                 | Some (m, b, args) \<Rightarrow> format_loop m buf b (f + 1) args)))"

definition vasprintf :: "mem \<Rightarrow> addr \<Rightarrow> addr \<Rightarrow> u32 list \<Rightarrow> (mem \<times> u32) option" where
  "vasprintf m buf fmt args =
     (case format_loop m buf buf fmt args of None \<Rightarrow> None
      | Some (m, b) \<Rightarrow> Some (m(b := 0), b - buf))"

definition sprintf :: "mem \<Rightarrow> addr \<Rightarrow> addr \<Rightarrow> u32 list \<Rightarrow> (mem \<times> u32) option" where
  "sprintf m buf fmt args = vasprintf m buf fmt args"

declare pad_zero.simps [simp del]

section \<open>Decimal digits\<close>

text \<open>The digits of a number, least significant last, and what the digit loop stores.\<close>

fun dec_digits :: "nat \<Rightarrow> nat \<Rightarrow> u8 list" where
  "dec_digits 0 v = []"
| "dec_digits (Suc n) v = dec_digits n (v div 10) @ [of_nat (v mod 10) + 48]"

lemma length_dec_digits [simp]: "length (dec_digits n v) = n"
  by (induction n arbitrary: v) auto

lemma digit_val_dec: "d < 10 \<Longrightarrow> digit_val (of_nat d + 48) = Some d"
proof -
  assume "d < 10"
  then have "unat (of_nat d + 48 :: u8) = d + 48" by (simp add: unat_word_ariths unat_of_nat)
  then show ?thesis using \<open>d < 10\<close> by (simp add: digit_val.simps)
qed

lemma numeral_from_snoc: "numeral_from b a (xs @ [x]) = numeral_from b a xs * b + the (digit_val x)"
  by (simp add: numeral_from_def)

lemma numeral_dec_digits: "numeral_from 10 0 (dec_digits n v) = v mod 10 ^ n"
proof (induction n arbitrary: v)
  case 0
  then show ?case by simp
next
  case (Suc n)
  have "v mod 10 ^ Suc n = v div 10 mod 10 ^ n * 10 + v mod 10"
    by (metis mod_mult2_eq power_Suc mult.commute)
  then show ?case by (simp add: numeral_from_snoc Suc.IH digit_val_dec)
qed

lemma dec_loop_stores:
  assumes "n < 2 ^ 32"
  shows "(\<forall>i<n. dec_loop m p n v (p + of_nat i) = dec_digits n (unat v) ! i)
    \<and> (\<forall>a. (\<forall>i<n. a \<noteq> p + of_nat i) \<longrightarrow> dec_loop m p n v a = m a)"
  using assms
proof (induction n arbitrary: m v)
  case 0
  then show ?case by simp
next
  case (Suc n)
  let ?d = "ucast (v mod 10) + 48 :: u8"
  have "ucast (v mod 10) = (of_nat (unat (v mod 10)) :: u8)" by simp
  also have "unat (v mod 10) = unat v mod 10" by (simp add: unat_mod)
  finally have d: "?d = of_nat (unat v mod 10) + 48" by simp
  have "p + of_nat i \<noteq> p + (of_nat n :: addr)" if "i < n" for i
    using that Suc.prems by (simp add: of_nat_inj_32)
  then have ne: "\<forall>i<n. p + of_nat n \<noteq> p + (of_nat i :: addr)" by metis
  define m' where "m' = m(p + of_nat n := ?d)"
  have step: "dec_loop m p (Suc n) v = dec_loop m' p n (v div 10)" by (simp add: m'_def)
  have IH: "\<forall>i<n. dec_loop m' p n (v div 10) (p + of_nat i) = dec_digits n (unat v div 10) ! i"
    "\<And>a. \<forall>i<n. a \<noteq> p + of_nat i \<Longrightarrow> dec_loop m' p n (v div 10) a = m' a"
    using Suc.IH [of m' "v div 10"] Suc.prems by (auto simp: unat_div)
  have last: "dec_loop m' p n (v div 10) (p + of_nat n) = of_nat (unat v mod 10) + 48"
    using IH(2) [OF ne] d by (simp add: m'_def)
  show ?case unfolding step
  proof (intro conjI allI impI)
    fix i assume "i < Suc n"
    then show "dec_loop m' p n (v div 10) (p + of_nat i) = dec_digits (Suc n) (unat v) ! i"
      using IH(1) last by (cases "i = n") (simp_all add: nth_append)
  next
    fix a assume a: "\<forall>i<Suc n. a \<noteq> p + of_nat i"
    then show "dec_loop m' p n (v div 10) a = m a"
      using IH(2) [of a] by (simp add: m'_def)
  qed
qed

lemma dec_width_step: "(of_nat (10 ^ k - 1) :: u32) * 10 + 9 = of_nat (10 ^ Suc k - 1)"
proof -
  have "(10 ^ k - 1) * 10 + 9 = (10 ^ Suc k - 1 :: nat)"
    using one_le_power [of "10 :: nat" k] by (simp add: diff_mult_distrib)
  then show ?thesis by (metis of_nat_add of_nat_mult of_nat_numeral)
qed

lemma dec_width_continue:
  "v > i \<and> i < UINT32_MAX \<Longrightarrow> dec_width v n i = dec_width v (n + 1) (i * 10 + 9)"
  by (subst dec_width.simps) simp

lemma dec_width_stop: "\<not> (v > i \<and> i < UINT32_MAX) \<Longrightarrow> dec_width v n i = Some n"
  by (subst dec_width.simps) auto

lemma dec_width_returns:
  assumes "k \<le> 32" and "1 \<le> k"
  shows "\<exists>n. dec_width v (of_nat k) (of_nat (10 ^ k - 1)) = Some (of_nat n) \<and> k \<le> n \<and> n \<le> 32
    \<and> (v \<le> of_nat (10 ^ n - 1) \<or> n = 32) \<and> (\<forall>j. k \<le> j \<and> j < n \<longrightarrow> v > of_nat (10 ^ j - 1))"
  using assms
proof (induction "32 - k" arbitrary: k)
  case 0
  then have k: "k = 32" by simp
  have "\<not> (of_nat (10 ^ 32 - 1) :: u32) < UINT32_MAX" by simp
  then show ?case using k by (intro exI [of _ 32], subst dec_width.simps) auto
next
  case (Suc d)
  let ?i = "of_nat (10 ^ k - 1) :: u32"
  show ?case
  proof (cases "v > ?i \<and> ?i < UINT32_MAX")
    case True
    then have "dec_width v (of_nat k) ?i = dec_width v (of_nat (Suc k)) (of_nat (10 ^ Suc k - 1))"
      using dec_width_continue [OF True, of "of_nat k"] unfolding dec_width_step of_nat_Suc
      by (simp only: add.commute [of "of_nat k" 1])
    moreover obtain n where
      "dec_width v (of_nat (Suc k)) (of_nat (10 ^ Suc k - 1)) = Some (of_nat n)" "Suc k \<le> n" "n \<le> 32"
      "v \<le> of_nat (10 ^ n - 1) \<or> n = 32" "\<forall>j. Suc k \<le> j \<and> j < n \<longrightarrow> v > of_nat (10 ^ j - 1)"
      using Suc.hyps(1) [of "Suc k"] Suc.hyps(2) Suc.prems by fastforce
    ultimately show ?thesis using True
      by (intro exI [of _ n]) (metis Suc_leI Suc_leD le_neq_implies_less)
  next
    case False
    then have "dec_width v (of_nat k) ?i = Some (of_nat k)" by (rule dec_width_stop)
    moreover have "v \<le> ?i"
    proof (cases "?i < UINT32_MAX")
      case True
      with False show ?thesis by simp
    next
      case max: False
      have "UINT32_MAX = (- 1 :: u32)" by simp
      then have "?i = - 1" using max by (metis not_less_iff_gr_or_eq word_n1_ge word_not_simps(3) order_le_less)
      then show ?thesis by simp
    qed
    ultimately show ?thesis using Suc.prems by (intro exI [of _ k]) auto
  qed
qed

lemma pow10_bound: "n \<le> 9 \<Longrightarrow> 10 ^ n - 1 < (2 :: nat) ^ 32"
proof -
  assume "n \<le> 9"
  then have "10 ^ n \<le> (10 :: nat) ^ 9" by (intro power_increasing) simp_all
  then show ?thesis by simp
qed

text \<open>The width is large enough for every value, and exact up to 1410065407.\<close>

lemma dec_width_enough:
  "\<exists>n. dec_width v 1 9 = Some (of_nat n) \<and> 1 \<le> n \<and> n \<le> 32 \<and> unat v < 10 ^ n
    \<and> (v \<le> 1410065407 \<longrightarrow> n = 1 \<or> 10 ^ (n - 1) \<le> unat v)"
proof -
  obtain n where n: "dec_width v 1 9 = Some (of_nat n)" "1 \<le> n" "n \<le> 32"
    "v \<le> of_nat (10 ^ n - 1) \<or> n = 32" "\<forall>j. 1 \<le> j \<and> j < n \<longrightarrow> v > of_nat (10 ^ j - 1)"
    using dec_width_returns [of 1 v] by auto
  have small: "unat (of_nat (10 ^ j - 1) :: u32) = 10 ^ j - 1" if "j \<le> 9" for j
    using pow10_bound [OF that] by (rule unat_of_nat_32)
  have "unat v < 10 ^ n"
  proof (cases "n \<le> 9")
    case True
    then have "unat v \<le> 10 ^ n - 1" using n(4) small [OF True] by (auto simp: word_le_nat_alt)
    then show ?thesis by (metis One_nat_def Suc_pred le_imp_less_Suc zero_less_numeral zero_less_power)
  next
    case False
    then have "(10 :: nat) ^ 10 \<le> 10 ^ n" by (intro power_increasing) simp_all
    moreover have "(2 :: nat) ^ 32 < 10 ^ 10" by simp
    ultimately show ?thesis using unat_lt32 [of v] by linarith
  qed
  moreover have "10 ^ (n - 1) \<le> unat v" if "v \<le> 1410065407" and "n \<noteq> 1"
  proof -
    have "\<not> 10 < n"
    proof
      assume "10 < n"
      then have "v > of_nat (10 ^ 10 - 1)" using n(5) [THEN spec, of 10] by simp
      then show False using that(1) by (simp add: word_le_nat_alt word_less_nat_alt)
    qed
    then have le: "n - 1 \<le> 9" "1 \<le> n - 1" "n - 1 < n" using n(2) that(2) by auto
    then have "v > of_nat (10 ^ (n - 1) - 1)" using n(5) by blast
    then have "10 ^ (n - 1) - 1 < unat v" using small [OF le(1)] by (simp add: word_less_nat_alt)
    then show ?thesis by linarith
  qed
  ultimately show ?thesis using n by blast
qed

lemma pad_zero_spec:
  assumes "n_width + printed \<le> width \<or> width \<le> n_width"
  shows "\<exists>m'. pad_zero m buf ptr n_width printed width =
      (m', ptr + of_nat (unat width - unat (n_width + printed)))
    \<and> (\<forall>i<unat width - unat (n_width + printed). m' (buf + ptr + of_nat i) = 48)
    \<and> (\<forall>a. (\<forall>i<unat width - unat (n_width + printed). a \<noteq> buf + ptr + of_nat i) \<longrightarrow> m' a = m a)"
proof (induction m buf ptr n_width printed width rule: pad_zero.induct)
  case (1 m buf ptr n_width printed width)
  show ?case
  proof (cases "n_width + printed < width")
    case False
    then have "unat width - unat (n_width + printed) = 0" by (simp add: word_less_nat_alt)
    then show ?thesis using False by (simp add: pad_zero.simps [of m])
  next
    case True
    let ?k = "unat width - unat (n_width + printed)"
    have u: "unat (n_width + (printed + 1)) = Suc (unat (n_width + printed))"
      using unat_inc_less [OF True] by (simp add: add.assoc)
    define k where "k = unat width - unat (n_width + (printed + 1))"
    have k: "?k = Suc k" using True u by (simp add: k_def word_less_nat_alt)
    obtain m' where m': "pad_zero (m(buf + ptr := 48)) buf (ptr + 1) n_width (printed + 1) width =
        (m', ptr + 1 + of_nat k)"
      "\<forall>i<k. m' (buf + (ptr + 1) + of_nat i) = 48"
      "\<forall>a. (\<forall>i<k. a \<noteq> buf + (ptr + 1) + of_nat i) \<longrightarrow> m' a = (m(buf + ptr := 48)) a"
      using 1 [OF True] unfolding k_def by blast
    have sh: "buf + (ptr + 1) + of_nat i = buf + ptr + of_nat (Suc i)" for i
      by (simp add: ac_simps)
    have "Suc k \<le> 2 ^ 32" using k unat_lt32 [of width] by linarith
    then have ne: "\<forall>i<k. buf + ptr \<noteq> buf + ptr + (of_nat (Suc i) :: addr)"
      using of_nat_inj_32 [of "Suc _" 0] by (auto simp del: of_nat_Suc)
    have res: "pad_zero m buf ptr n_width printed width = (m', ptr + of_nat (Suc k))"
      using True m'(1) by (simp add: pad_zero.simps [of m] ac_simps)
    moreover have "m' (buf + ptr + of_nat i) = 48" if "i < Suc k" for i
      using m'(2,3) ne that by (cases i) (simp_all add: sh del: of_nat_Suc)
    moreover have "m' a = m a" if a: "\<forall>i<Suc k. a \<noteq> buf + ptr + of_nat i" for a
    proof -
      have "a \<noteq> buf + ptr" using a by force
      moreover have "\<forall>i<k. a \<noteq> buf + (ptr + 1) + of_nat i" using a unfolding sh by blast
      ultimately show ?thesis using m'(3) by simp
    qed
    ultimately show ?thesis unfolding k by blast
  qed
qed

lemma bytes_append_eq:
  assumes "\<And>i. i < k \<Longrightarrow> m (p + of_nat i) = c"
    and "\<And>i. i < length ds \<Longrightarrow> m (p + of_nat (k + i)) = ds ! i"
  shows "bytes m p (k + length ds) = replicate k c @ ds"
proof (rule nth_equalityI)
  fix i assume "i < length (bytes m p (k + length ds))"
  then have i: "i < k + length ds" by simp
  show "bytes m p (k + length ds) ! i = (replicate k c @ ds) ! i"
  proof (cases "i < k")
    case True
    then show ?thesis using assms(1) i by (simp add: nth_append)
  next
    case False
    then obtain j where "i = k + j" using le_Suc_ex not_less by blast
    then show ?thesis using assms(2) [of j] i by (simp add: nth_append)
  qed
qed simp

lemma print_dec_writes:
  "\<exists>m' n. print_dec v width buf m ptr = Some (m', ptr + of_nat (max (unat width) n))
    \<and> 1 \<le> n \<and> n \<le> 32 \<and> unat v < 10 ^ n \<and> (v \<le> 1410065407 \<longrightarrow> n = 1 \<or> 10 ^ (n - 1) \<le> unat v)
    \<and> bytes m' (buf + ptr) (max (unat width) n) =
        replicate (unat width - n) 48 @ dec_digits n (unat v)
    \<and> numeral_from 10 0 (dec_digits n (unat v)) = unat v
    \<and> (\<forall>a. (\<forall>i<max (unat width) n. a \<noteq> buf + ptr + of_nat i) \<longrightarrow> m' a = m a)"
proof -
  obtain n where n: "dec_width v 1 9 = Some (of_nat n)" "1 \<le> n" "n \<le> 32" "unat v < 10 ^ n"
    "v \<le> 1410065407 \<longrightarrow> n = 1 \<or> 10 ^ (n - 1) \<le> unat v" using dec_width_enough by blast
  have un: "unat (of_nat n :: u32) = n" by (rule unat_of_nat_32) (use n(3) in simp)
  define k where "k = unat width - n"
  have w: "max (unat width) n = k + n" by (simp add: k_def)
  have kn: "k + n < 2 ^ 32" using unat_lt32 [of width] n(3) by (simp add: k_def)
  have "of_nat n + 0 \<le> width \<or> width \<le> (of_nat n :: u32)" by auto
  from pad_zero_spec [OF this, of m buf ptr] obtain p where p:
    "pad_zero m buf ptr (of_nat n) 0 width = (p, ptr + of_nat k)"
    "\<forall>i<k. p (buf + ptr + of_nat i) = 48"
    "\<forall>a. (\<forall>i<k. a \<noteq> buf + ptr + of_nat i) \<longrightarrow> p a = m a"
    by (auto simp: k_def un)
  let ?q = "buf + (ptr + of_nat k)" and ?m = "dec_loop p (buf + (ptr + of_nat k)) n v"
  have d: "\<forall>i<n. ?m (?q + of_nat i) = dec_digits n (unat v) ! i"
    "\<And>a. \<forall>i<n. a \<noteq> ?q + of_nat i \<Longrightarrow> ?m a = p a"
    using dec_loop_stores [of n p ?q v] n(3) by auto
  have q: "?q + of_nat i = buf + ptr + of_nat (k + i)" for i by (simp add: ac_simps)
  have "?m (buf + ptr + of_nat i) = 48" if "i < k" for i
  proof -
    have "\<forall>j<n. buf + ptr + of_nat i \<noteq> ?q + (of_nat j :: addr)"
      unfolding q using that kn by (auto simp: of_nat_inj_32 simp del: of_nat_add)
    with d(2) p(2) that show ?thesis by simp
  qed
  moreover have "?m (buf + ptr + of_nat (k + i)) = dec_digits n (unat v) ! i" if "i < n" for i
    using d(1) that unfolding q by blast
  ultimately have "bytes ?m (buf + ptr) (k + n) = replicate k 48 @ dec_digits n (unat v)"
    using bytes_append_eq [of k ?m "buf + ptr" 48 "dec_digits n (unat v)"] by simp
  moreover have "?m a = m a" if a: "\<forall>i<k + n. a \<noteq> buf + ptr + of_nat i" for a
  proof -
    have "\<forall>i<n. a \<noteq> ?q + of_nat i" unfolding q using a by (metis nat_add_left_cancel_less)
    with d(2) p(3) a show ?thesis by simp
  qed
  moreover have "print_dec v width buf m ptr = Some (?m, ptr + of_nat (k + n))"
    by (simp add: print_dec_def n(1) p(1) un ac_simps)
  ultimately show ?thesis using n unfolding w k_def [symmetric]
    by (intro exI [of _ ?m] exI [of _ n]) (simp add: numeral_dec_digits w k_def)
qed

text \<open>
  \<^verbatim>\<open>print_dec\<close> returns for every value and width. It writes the digits of the value,
  padded with zeros to at least the width, nowhere else, and moves the index past them. The
  digits spell the value exactly; up to 1410065407 there is no zero before the first digit
  that the width does not ask for (above that the threshold wraps around and there may be).
\<close>

theorem print_dec_correct:
  "\<exists>m' n. print_dec v width buf m ptr = Some (m', ptr + of_nat (max (unat width) n))
    \<and> 1 \<le> n \<and> n \<le> 32 \<and> unat v < 10 ^ n \<and> (v \<le> 1410065407 \<longrightarrow> n = 1 \<or> 10 ^ (n - 1) \<le> unat v)
    \<and> bytes m' (buf + ptr) (max (unat width) n) =
        replicate (unat width - n) 48 @ dec_digits n (unat v)
    \<and> numeral_from 10 0 (dec_digits n (unat v)) = unat v
    \<and> (\<forall>a. (\<forall>i<max (unat width) n. a \<noteq> buf + ptr + of_nat i) \<longrightarrow> m' a = m a)"
  by (rule print_dec_writes)

theorem print_dec_correct_witness:
  "\<exists>m' n. print_dec 1234 6 0x1000 (\<lambda>_. 0) 0 = Some (m', of_nat (max 6 n)) \<and> 10 ^ (n - 1) \<le> (1234 :: nat)"
  using print_dec_correct [of 1234 6 "0x1000" "\<lambda>_. 0" 0] by (force simp: word_le_nat_alt)

section \<open>Reading the number back\<close>

lemma sint_u8: "sint (c :: u8) = (if unat c < 128 then int (unat c) else int (unat c) - 256)"
proof -
  have u: "uint c = sint c mod 256" using uint_sint [of c] by (simp add: take_bit_eq_mod)
  have r: "- 128 \<le> sint c" "sint c < 128" using sint_ge [of c] sint_lt [of c] by simp_all
  have e: "uint c = int (unat c)" by simp
  show ?thesis
  proof (cases "0 \<le> sint c")
    case True
    then have "sint c mod 256 = sint c" using r by simp
    then show ?thesis using u e r by (cases "unat c < 128"; simp only: if_True if_False; linarith)
  next
    case False
    have "sint c mod 256 = (sint c + 256) mod 256" by simp
    also have "\<dots> = sint c + 256" using False r by (intro mod_pos_pos_trivial) linarith+
    finally show ?thesis using u e r False
      by (cases "unat c < 128"; simp only: if_True if_False; linarith)
  qed
qed

lemma digit_chars: "in_base 10 c \<longleftrightarrow> 48 \<le> unat c \<and> unat c \<le> 57"
  by (auto simp: in_base_def digit_val.simps)

lemma uint_scast_8: "uint (scast (c :: u8) :: u32) = sint c mod 2 ^ 32"
  by transfer (simp add: take_bit_eq_mod)

lemma uint_minus_32: "uint (x - k :: u32) = (uint x - uint k) mod 2 ^ 32"
  by (simp add: uint_word_ariths)

lemma scast_minus_less:
  assumes "k \<le> 48" and "d \<le> 10"
  shows "scast (c :: u8) - (of_nat k :: u32) < of_nat d \<longleftrightarrow> k \<le> unat c \<and> unat c < k + d \<and> unat c < 128"
proof -
  have k: "uint (of_nat k :: u32) = int k" and d: "uint (of_nat d :: u32) = int d"
    using assms by (simp_all add: unsigned_of_nat take_bit_nat_eq_self)
  have u: "uint (scast c - of_nat k :: u32) = (sint c - int k) mod 2 ^ 32"
    unfolding uint_minus_32 uint_scast_8 k by (rule mod_diff_left_eq)
  have c: "unat c < 256" using unsigned_less [of c, where 'a = nat] by simp
  show ?thesis
  proof (cases "unat c < 128 \<and> k \<le> unat c")
    case True
    then have sc: "sint c = int (unat c)" by (simp only: sint_u8 if_True)
    have b: "0 \<le> int (unat c) - int k" "int (unat c) - int k < 256" using c True by linarith+
    have "(sint c - int k) mod 2 ^ 32 = int (unat c) - int k"
      unfolding sc by (rule mod_pos_pos_trivial [OF b(1) less_trans [OF b(2)]]) simp
    moreover have "uint c - int k < int d \<longleftrightarrow> unat c < k + d"
      using int_uint_less(3) [of c "k + d"] by linarith
    ultimately show ?thesis using True u d by (simp add: word_less_def)
  next
    case False
    have lo: "- 256 \<le> sint c - int k" "sint c - int k < 0"
      using False c assms(1) sint_u8 [of c]
      by (cases "unat c < 128"; simp only: if_True if_False simp_thms; linarith)+
    have "(sint c - int k) mod 2 ^ 32 = (sint c - int k + 2 ^ 32) mod 2 ^ 32" by simp
    also have "\<dots> = sint c - int k + 2 ^ 32" using lo by (intro mod_pos_pos_trivial) simp_all
    finally show ?thesis using False u d lo assms
      by (cases "k \<le> unat c") (simp_all add: word_less_def)
  qed
qed

lemma atoi_isdigit_iff: "atoi_isdigit (scast c) \<longleftrightarrow> in_base 10 c"
  using scast_minus_less [of 48 10 c] by (auto simp: atoi_isdigit_def digit_chars)

lemma atoi_digits_value:
  assumes "rest = [] \<or> \<not> in_base 10 (hd rest)"
  shows "\<lbrakk>cstr m p (ds @ rest); \<forall>c\<in>set ds. in_base 10 c; numeral_from 10 a ds \<le> 2 ^ 31\<rbrakk> \<Longrightarrow>
    atoi_digits m p (- int a) = Some (- int (numeral_from 10 a ds))"
proof (induction ds arbitrary: p a)
  case Nil
  have "\<not> in_base 10 (m p)" using Nil assms by (cases rest) (auto simp: digit_chars)
  then show ?case by (subst atoi_digits.simps) (simp add: atoi_isdigit_iff)
next
  case (Cons c cs)
  let ?a = "a * 10 + the (digit_val c)"
  have c: "in_base 10 c" "m p = c" using Cons.prems by auto
  have d: "sint c - 48 = int (the (digit_val c))"
    using c(1) by (auto simp: digit_chars digit_val.simps sint_u8)
  have "?a \<le> 2 ^ 31" using Cons.prems(3) numeral_from_mono [of 10 ?a cs] by simp
  then have "int_checked (10 * - int a) = Some (- (10 * int a))"
    "int_checked (- (10 * int a) - (sint c - 48)) = Some (- int ?a)"
    unfolding d by (auto simp: int_checked_def)
  then have "atoi_digits m p (- int a) = atoi_digits m (p + 1) (- int ?a)"
    using c by (subst atoi_digits.simps) (simp add: atoi_isdigit_iff)
  then show ?case using Cons.prems Cons.IH [of "p + 1" ?a] by simp
qed

lemma atoi_skip_digit: "in_base 10 (m p) \<Longrightarrow> atoi_skip m p = Some p"
  using scast_minus_less [of 9 5 "m p"] scast_minus_less [of 32 1 "m p"]
  by (subst atoi_skip.simps) (auto simp: atoi_iswhitespace_def digit_chars)

lemma atoi_digit_string:
  assumes "cstr m p ds" and "ds \<noteq> []" and "\<forall>c\<in>set ds. in_base 10 c" and "numeral_from 10 0 ds < 2 ^ 31"
  shows "atoi m p = Some (int (numeral_from 10 0 ds))"
proof -
  have h: "in_base 10 (m p)" using assms(1,2,3) by (cases ds) auto
  then have "m p \<noteq> 45" "m p \<noteq> 43" by (auto simp: digit_chars)
  moreover have "atoi_digits m p 0 = Some (- int (numeral_from 10 0 ds))"
    using atoi_digits_value [of "[]" m p ds 0] assms by simp
  ultimately show ?thesis using assms(4) atoi_skip_digit [of m p, OF h]
    by (simp add: atoi_def int_checked_def)
qed

lemma dec_digits_in_base: "c \<in> set (dec_digits n v) \<Longrightarrow> in_base 10 c"
  by (induction n arbitrary: v) (auto simp: in_base_def digit_val_dec)

lemma cstr_bytes:
  assumes "bytes m p (length bs) = bs" and "m (p + of_nat (length bs)) = 0" and "0 \<notin> set bs"
  shows "cstr m p bs"
proof (rule cstrI)
  fix i assume "i < length bs"
  then show "m (p + of_nat i) = bs ! i" using nth_bytes [of i "length bs" m p] assms(1) by simp
qed (use assms(2,3) in auto)

text \<open>
  C32: \<^verbatim>\<open>atoi\<close> reads back what \<^verbatim>\<open>sprintf(buf, "%d", v)\<close> writes, for every \<open>v\<close> up to
  \<^verbatim>\<open>INT_MAX\<close>: it returns \<open>v\<close> itself, also above 1410065407 where \<^verbatim>\<open>print_dec\<close> writes
  superfluous zeros.
\<close>

theorem atoi_sprintf_roundtrip:
  assumes fmt: "cstr m fmt [37, 100]" and sep: "separate buf 33 fmt 3" and v: "v < 2 ^ 31"
  shows "\<exists>m' n. sprintf m buf fmt [v] = Some (m', n) \<and> atoi m' buf = Some (int (unat v))"
proof -
  obtain m1 n where p: "print_dec v 0 buf m 0 = Some (m1, of_nat n)"
    and n: "1 \<le> n" "n \<le> 32" and ds: "bytes m1 buf n = dec_digits n (unat v)"
    and num: "numeral_from 10 0 (dec_digits n (unat v)) = unat v"
    and out: "\<forall>a. (\<forall>i<n. a \<noteq> buf + of_nat i) \<longrightarrow> m1 a = m a"
    using print_dec_writes [of v 0 buf m 0] by auto
  have "buf + of_nat i \<noteq> fmt + 2" if "i < n" for i
    using separateD [OF sep, of i 2] that n by simp
  then have nul: "m1 (fmt + 2) = 0" using out [THEN spec, of "fmt + 2"] fmt by (metis cstr.simps add.assoc one_add_one)
  have "arg_width m (fmt + 1) 0 = Some (fmt + 1, 0)"
    using fmt by (subst arg_width.simps) simp
  moreover have "convert m buf buf (fmt + 1) 0 [v] = Some (m1, buf + of_nat n, [])"
    using fmt p by (simp add: convert_def)
  moreover have "format_loop m1 buf (buf + of_nat n) (fmt + 1 + 1) [] = Some (m1, buf + of_nat n)"
    unfolding add.assoc one_add_one using nul by (subst format_loop.simps) simp
  ultimately have f: "format_loop m buf buf fmt [v] = Some (m1, buf + of_nat n)"
    using fmt by (subst format_loop.simps) simp
  let ?m = "m1(buf + of_nat n := 0)"
  have "\<forall>i<n. buf + of_nat i \<noteq> buf + (of_nat n :: addr)" using n by (auto simp: of_nat_inj_32)
  then have "bytes ?m buf n = dec_digits n (unat v)" using ds by (auto simp: list_eq_iff_nth_eq)
  then have "cstr ?m buf (dec_digits n (unat v))"
    using cstr_bytes [of ?m buf "dec_digits n (unat v)"] dec_digits_in_base [of 0 n]
    by (auto simp: digit_chars)
  moreover have "dec_digits n (unat v) \<noteq> []" using n(1) by (metis length_dec_digits list.size(3) not_one_le_zero)
  moreover have "unat v < 2 ^ 31" using v by (simp add: word_less_nat_alt)
  ultimately have "atoi ?m buf = Some (int (unat v))"
    using atoi_digit_string [of ?m buf "dec_digits n (unat v)"] dec_digits_in_base num by (metis)
  then show ?thesis using f by (simp add: sprintf_def vasprintf_def)
qed

theorem atoi_sprintf_roundtrip_witness:
  "\<exists>m' n. sprintf (\<lambda>a. if a = 1 then 37 else if a = 2 then 100 else 0) 100 1 [1410065408] = Some (m', n)
    \<and> atoi m' 100 = Some 1410065408"
proof -
  let ?m = "\<lambda>a :: addr. if a = 1 then 37 else if a = 2 then 100 else 0 :: u8"
  have "cstr ?m 1 [37, 100]" by simp
  moreover have "separate 100 33 1 3" by (simp add: separate_code upt_rec)
  ultimately show ?thesis using atoi_sprintf_roundtrip [of ?m 1 100 1410065408] by simp
qed

end
