(* ===== verification/Interfaces.thy ===== *)
theory Interfaces
  imports Kernel_Prelude
begin

text \<open>
  The contracts one component of the kernel relies on in another, as locales: a FIFO queue
  (kept by the linked list, the mailbox and the ready queues), and an allocator of page frames
  (kept by the physical memory manager, used by paging and the kernel heap).
\<close>

section \<open>FIFO queues\<close>

text \<open>
  \<open>repr s xs\<close>: the state \<open>s\<close> holds the queue \<open>xs\<close>, oldest first. \<open>room x xs\<close> is what a
  client must know before it adds \<open>x\<close>. \<open>deq\<close> is \<open>None\<close> on an empty queue.
\<close>

locale fifo =
  fixes enq :: "'x \<Rightarrow> 's \<Rightarrow> 's" and deq :: "'s \<Rightarrow> ('x \<times> 's) option"
    and repr :: "'s \<Rightarrow> 'x list \<Rightarrow> bool" and room :: "'x \<Rightarrow> 'x list \<Rightarrow> bool"
  assumes enq_snoc: "repr s xs \<Longrightarrow> room x xs \<Longrightarrow> repr (enq x s) (xs @ [x])"
    and deq_empty: "repr s [] \<Longrightarrow> deq s = None"
    and deq_first: "repr s (x # xs) \<Longrightarrow> \<exists>s'. deq s = Some (x, s') \<and> repr s' xs"

text \<open>Taking \<open>n\<close> elements off the queue.\<close>

fun take_from :: "('s \<Rightarrow> ('x \<times> 's) option) \<Rightarrow> nat \<Rightarrow> 's \<Rightarrow> ('x list \<times> 's) option" where
  "take_from deq 0 s = Some ([], s)"
| "take_from deq (Suc n) s =
     (case deq s of None \<Rightarrow> None
      | Some (x, s') \<Rightarrow> (case take_from deq n s' of None \<Rightarrow> None
                       | Some (xs, s'') \<Rightarrow> Some (x # xs, s'')))"

text \<open>Room for a whole list of elements, one after the other.\<close>

fun room_all :: "('x \<Rightarrow> 'x list \<Rightarrow> bool) \<Rightarrow> 'x list \<Rightarrow> 'x list \<Rightarrow> bool" where
  "room_all room [] xs \<longleftrightarrow> True"
| "room_all room (y # ys) xs \<longleftrightarrow> room y xs \<and> room_all room ys (xs @ [y])"

context fifo
begin

lemma enq_all: "repr s xs \<Longrightarrow> room_all room ys xs \<Longrightarrow> repr (fold enq ys s) (xs @ ys)"
proof (induction ys arbitrary: s xs)
  case Nil
  then show ?case by simp
next
  case (Cons y ys)
  then show ?case using Cons.IH [of "enq y s" "xs @ [y]"] enq_snoc by simp
qed

lemma deq_all: "repr s (xs @ ys) \<Longrightarrow> \<exists>s'. take_from deq (length xs) s = Some (xs, s') \<and> repr s' ys"
proof (induction xs arbitrary: s)
  case Nil
  then show ?case by simp
next
  case (Cons x xs)
  then obtain s' where "deq s = Some (x, s')" "repr s' (xs @ ys)" using deq_first by fastforce
  with Cons.IH [of s'] show ?case by auto
qed

text \<open>What goes in comes out in the same order, after what was there.\<close>

lemma in_order:
  assumes "repr s xs" and "room_all room ys xs"
  shows "\<exists>s'. take_from deq (length xs + length ys) (fold enq ys s) = Some (xs @ ys, s') \<and> deq s' = None"
  using deq_all [of "fold enq ys s" "xs @ ys" "[]"] enq_all [OF assms] deq_empty by auto

lemma deq_iff: "repr s xs \<Longrightarrow> deq s = None \<longleftrightarrow> xs = []"
  using deq_empty deq_first by (cases xs) fastforce+

end

section \<open>Page frames\<close>

text \<open>
  \<open>get n s\<close> returns the physical address of \<open>n\<close> consecutive frames, 0 when it fails; \<open>put\<close>
  gives frames back. \<open>used s\<close> are the numbers of the frames in use. The contract says
  nothing of a run that starts at frame 0: its address cannot be told from a failure.
\<close>

definition frames :: "u32 \<Rightarrow> u32 \<Rightarrow> nat set" where
  "frames f n = {unat f div 4096 ..< unat f div 4096 + unat n}"

locale page_frames =
  fixes get :: "u32 \<Rightarrow> 's \<Rightarrow> (u32 \<times> 's) option" and put :: "u32 \<Rightarrow> u32 \<Rightarrow> 's \<Rightarrow> (int \<times> 's) option"
    and used :: "'s \<Rightarrow> nat set" and limit :: nat
  assumes get_takes: "\<lbrakk>get n s = Some (f, s'); f \<noteq> 0; unat n < limit\<rbrakk> \<Longrightarrow>
      frames f n \<inter> used s = {} \<and> used s' = used s \<union> frames f n \<and> frames f n \<subseteq> {..<limit}"
    and put_gives: "\<lbrakk>f \<noteq> 0; n \<noteq> 0; frames f n \<subseteq> {..<limit}\<rbrakk> \<Longrightarrow>
      \<exists>r s'. put f n s = Some (r, s') \<and> used s' = used s - frames f n"
begin

lemma put_back:
  assumes "get n s = Some (f, s1)" and "f \<noteq> 0" and "n \<noteq> 0" and "unat n < limit"
  shows "\<exists>r s2. put f n s1 = Some (r, s2) \<and> used s2 = used s"
proof -
  note g = get_takes [OF assms(1,2,4)]
  then have "frames f n \<subseteq> {..<limit}" by simp
  from put_gives [OF assms(2,3) this, of s1] obtain r s2
    where p: "put f n s1 = Some (r, s2)" "used s2 = used s1 - frames f n" by auto
  have "used s1 - frames f n = used s" using g by blast
  with p show ?thesis by simp
qed

text \<open>Two allocations never overlap, and freeing one leaves the other in use.\<close>

lemma get_get_disjoint:
  assumes "get n s = Some (f, s1)" "f \<noteq> 0" "unat n < limit" "n \<noteq> 0"
    and "get k s1 = Some (g, s2)" "g \<noteq> 0" "unat k < limit"
  shows "frames f n \<inter> frames g k = {}"
    and "\<exists>r s3. put f n s2 = Some (r, s3) \<and> frames g k \<subseteq> used s3 \<and> used s3 \<inter> frames f n = {}"
proof -
  note g1 = get_takes [OF assms(1-3)] and g2 = get_takes [OF assms(5-7)]
  show d: "frames f n \<inter> frames g k = {}" using g1 g2 by blast
  have "frames f n \<subseteq> {..<limit}" using g1 by simp
  from put_gives [OF assms(2,4) this, of s2] obtain r s3
    where p: "put f n s2 = Some (r, s3)" "used s3 = used s2 - frames f n" by auto
  have "frames g k \<subseteq> used s3" "used s3 \<inter> frames f n = {}" using g2 d p(2) by blast+
  with p(1) show "\<exists>r s3. put f n s2 = Some (r, s3) \<and> frames g k \<subseteq> used s3 \<and> used s3 \<inter> frames f n = {}"
    by blast
qed

end

end
