(* ===== verification/Linked_List.thy ===== *)
theory Linked_List
  imports Interfaces
begin

text \<open>
  The intrusive doubly linked list of \<^verbatim>\<open>fs/list.c\<close> and \<^verbatim>\<open>include/list.h\<close>. Nodes and list heads
  live in a store, so aliasing is explicit: an operation updates the store at the pointers the
  code writes through. A null pointer is \<open>None\<close>.
\<close>

section \<open>State\<close>

type_synonym node = nat
type_synonym list_id = nat

record list_node =
  n_next :: "node option"
  n_prev :: "node option"
  n_list :: "list_id option"
  n_priority :: int

record list_head =
  l_head :: "node option"
  l_tail :: "node option"

record list_store =
  node_at :: "node \<Rightarrow> list_node"
  list_at :: "list_id \<Rightarrow> list_head"

definition upd_node :: "node \<Rightarrow> (list_node \<Rightarrow> list_node) \<Rightarrow> list_store \<Rightarrow> list_store" where
  "upd_node n f s = s\<lparr>node_at := (node_at s)(n := f (node_at s n))\<rparr>"

definition upd_list :: "list_id \<Rightarrow> (list_head \<Rightarrow> list_head) \<Rightarrow> list_store \<Rightarrow> list_store" where
  "upd_list l f s = s\<lparr>list_at := (list_at s)(l := f (list_at s l))\<rparr>"

definition upd_node_opt :: "node option \<Rightarrow> (list_node \<Rightarrow> list_node) \<Rightarrow> list_store \<Rightarrow> list_store" where
  "upd_node_opt p f s = (case p of None \<Rightarrow> s | Some n \<Rightarrow> upd_node n f s)"

definition head_of :: "list_store \<Rightarrow> list_id \<Rightarrow> node option" where
  "head_of s l = l_head (list_at s l)"

definition tail_of :: "list_store \<Rightarrow> list_id \<Rightarrow> node option" where
  "tail_of s l = l_tail (list_at s l)"

section \<open>Operations\<close>

definition list_push_head :: "list_id \<Rightarrow> node \<Rightarrow> list_store \<Rightarrow> list_store" where
  "list_push_head l n s0 =
     (let s1 = upd_node n (\<lambda>x. x\<lparr>n_next := head_of s0 l, n_prev := None, n_priority := 0\<rparr>) s0;
          s2 = upd_node_opt (head_of s1 l) (\<lambda>x. x\<lparr>n_prev := Some n\<rparr>) s1;
          s3 = upd_list l (\<lambda>h. h\<lparr>l_head := Some n\<rparr>) s2;
          s4 = (if tail_of s3 l = None then upd_list l (\<lambda>h. h\<lparr>l_tail := Some n\<rparr>) s3 else s3)
      in upd_node n (\<lambda>x. x\<lparr>n_list := Some l\<rparr>) s4)"

definition list_push_tail :: "list_id \<Rightarrow> node \<Rightarrow> list_store \<Rightarrow> list_store" where
  "list_push_tail l n s0 =
     (let s1 = upd_node n (\<lambda>x. x\<lparr>n_prev := tail_of s0 l, n_next := None, n_priority := 0\<rparr>) s0;
          s2 = upd_node_opt (tail_of s1 l) (\<lambda>x. x\<lparr>n_next := Some n\<rparr>) s1;
          s3 = upd_list l (\<lambda>h. h\<lparr>l_tail := Some n\<rparr>) s2;
          s4 = (if head_of s3 l = None then upd_list l (\<lambda>h. h\<lparr>l_head := Some n\<rparr>) s3 else s3)
      in upd_node n (\<lambda>x. x\<lparr>n_list := Some l\<rparr>) s4)"

text \<open>
  The search loop of \<^verbatim>\<open>list_push_priority\<close> gives up after 5001 nodes: the counter \<open>i\<close> bounds
  it, so it ends also on a cyclic list. \<open>Some n\<close> is the node to insert before.
\<close>

function priority_scan :: "list_store \<Rightarrow> int \<Rightarrow> node option \<Rightarrow> nat \<Rightarrow> node option" where
  "priority_scan s pri None i = None"
| "priority_scan s pri (Some n) i =
     (if pri > n_priority (node_at s n) \<or> i > 5000 then Some n
      else priority_scan s pri (n_next (node_at s n)) (i + 1))"
  by pat_completeness auto
termination by (relation "measure (\<lambda>(s, pri, n, i). 5001 - i)") auto

definition list_push_priority :: "list_id \<Rightarrow> node \<Rightarrow> int \<Rightarrow> list_store \<Rightarrow> list_store" where
  "list_push_priority l n pri s0 =
     (if head_of s0 l = None then list_push_head l n s0
      else case priority_scan s0 pri (head_of s0 l) 0 of
        None \<Rightarrow> list_push_tail l n s0
      | Some b \<Rightarrow>
          let s1 = upd_node n (\<lambda>x. x\<lparr>n_next := Some b, n_prev := n_prev (node_at s0 b),
                                  n_priority := pri\<rparr>) s0;
              s2 = (case n_prev (node_at s1 b) of
                      Some p \<Rightarrow> upd_node p (\<lambda>x. x\<lparr>n_next := Some n\<rparr>) s1
                    | None \<Rightarrow> upd_list l (\<lambda>h. h\<lparr>l_head := Some n\<rparr>) s1);
              s3 = upd_node b (\<lambda>x. x\<lparr>n_prev := Some n\<rparr>) s2
          in upd_node n (\<lambda>x. x\<lparr>n_list := Some l\<rparr>) s3)"

definition list_pop_head :: "list_id \<Rightarrow> list_store \<Rightarrow> node option \<times> list_store" where
  "list_pop_head l s0 =
     (case head_of s0 l of
        None \<Rightarrow> (None, s0)
      | Some r \<Rightarrow>
          let s1 = upd_list l (\<lambda>h. h\<lparr>l_head := n_next (node_at s0 r)\<rparr>) s0;
              s2 = upd_node_opt (head_of s1 l) (\<lambda>x. x\<lparr>n_prev := None\<rparr>) s1;
              s3 = (if head_of s2 l = None then upd_list l (\<lambda>h. h\<lparr>l_tail := None\<rparr>) s2 else s2)
          in (Some r, upd_node r (\<lambda>x. x\<lparr>n_next := None, n_prev := None, n_list := None\<rparr>) s3))"

definition list_pop_tail :: "list_id \<Rightarrow> list_store \<Rightarrow> node option \<times> list_store" where
  "list_pop_tail l s0 =
     (case tail_of s0 l of
        None \<Rightarrow> (None, s0)
      | Some r \<Rightarrow>
          let s1 = upd_list l (\<lambda>h. h\<lparr>l_tail := n_prev (node_at s0 r)\<rparr>) s0;
              s2 = upd_node_opt (tail_of s1 l) (\<lambda>x. x\<lparr>n_next := None\<rparr>) s1;
              s3 = (if tail_of s2 l = None then upd_list l (\<lambda>h. h\<lparr>l_head := None\<rparr>) s2 else s2)
          in (Some r, upd_node r (\<lambda>x. x\<lparr>n_next := None, n_prev := None, n_list := None\<rparr>) s3))"

text \<open>
  In the middle of the list the code dereferences both neighbours; \<open>None\<close> is the null
  dereference.
\<close>

definition list_remove :: "node \<Rightarrow> list_store \<Rightarrow> list_store option" where
  "list_remove n s =
     (case n_list (node_at s n) of
        None \<Rightarrow> Some s
      | Some l \<Rightarrow>
          if head_of s l = Some n then Some (snd (list_pop_head l s))
          else if tail_of s l = Some n then Some (snd (list_pop_tail l s))
          else (case (n_next (node_at s n), n_prev (node_at s n)) of
             (Some nx, Some pv) \<Rightarrow>
               (let s1 = upd_node nx (\<lambda>x. x\<lparr>n_prev := n_prev (node_at s n)\<rparr>) s;
                    s2 = upd_node pv (\<lambda>x. x\<lparr>n_next := n_next (node_at s1 n)\<rparr>) s1
                in Some (upd_node n (\<lambda>x. x\<lparr>n_next := None, n_prev := None, n_list := None\<rparr>) s2))
           | _ \<Rightarrow> None))"

section \<open>Well-formed lists\<close>

definition nexts :: "list_store \<Rightarrow> node \<Rightarrow> node option" where
  "nexts s n = n_next (node_at s n)"

definition prevs :: "list_store \<Rightarrow> node \<Rightarrow> node option" where
  "prevs s n = n_prev (node_at s n)"

definition owners :: "list_store \<Rightarrow> node \<Rightarrow> list_id option" where
  "owners s n = n_list (node_at s n)"

definition prios :: "list_store \<Rightarrow> node \<Rightarrow> int" where
  "prios s n = n_priority (node_at s n)"

text \<open>\<open>holds s l xs\<close>: the list \<open>l\<close> of the store consists of the nodes \<open>xs\<close> in this order.\<close>

definition holds :: "list_store \<Rightarrow> list_id \<Rightarrow> node list \<Rightarrow> bool" where
  "holds s l xs \<longleftrightarrow>
     distinct xs \<and> chain (nexts s) (prevs s) None xs None \<and>
     head_of s l = first_or xs None \<and> tail_of s l = last_or None xs \<and>
     (\<forall>x\<in>set xs. owners s x = Some l)"

named_theorems store_simps \<open>reading an updated list store\<close>

lemma fields_upd_node [store_simps]:
  "nexts (upd_node n f s) = (nexts s)(n := n_next (f (node_at s n)))"
  "prevs (upd_node n f s) = (prevs s)(n := n_prev (f (node_at s n)))"
  "owners (upd_node n f s) = (owners s)(n := n_list (f (node_at s n)))"
  "prios (upd_node n f s) = (prios s)(n := n_priority (f (node_at s n)))"
  "head_of (upd_node n f s) = head_of s"
  "tail_of (upd_node n f s) = tail_of s"
  by (auto simp: upd_node_def nexts_def prevs_def owners_def prios_def head_of_def tail_of_def
      fun_eq_iff)

lemma fields_upd_list [store_simps]:
  "nexts (upd_list k g s) = nexts s"
  "prevs (upd_list k g s) = prevs s"
  "owners (upd_list k g s) = owners s"
  "prios (upd_list k g s) = prios s"
  "head_of (upd_list k g s) = (head_of s)(k := l_head (g (list_at s k)))"
  "tail_of (upd_list k g s) = (tail_of s)(k := l_tail (g (list_at s k)))"
  by (auto simp: upd_list_def nexts_def prevs_def owners_def prios_def head_of_def tail_of_def
      fun_eq_iff)

lemma fields_fold [store_simps]:
  "n_next (node_at s n) = nexts s n" "n_prev (node_at s n) = prevs s n"
  "n_list (node_at s n) = owners s n" "n_priority (node_at s n) = prios s n"
  "l_head (list_at s l) = head_of s l" "l_tail (list_at s l) = tail_of s l"
  by (simp_all add: nexts_def prevs_def owners_def prios_def head_of_def tail_of_def)

lemma upd_node_opt_simps [store_simps]:
  "upd_node_opt None f s = s" "upd_node_opt (Some n) f s = upd_node n f s"
  by (simp_all add: upd_node_opt_def)

text \<open>A list depends only on the links and owners of its nodes and on its own head.\<close>

lemma holds_cong:
  assumes "\<And>x. x \<in> set xs \<Longrightarrow> nexts s x = nexts s' x" "\<And>x. x \<in> set xs \<Longrightarrow> prevs s x = prevs s' x"
    and "\<And>x. x \<in> set xs \<Longrightarrow> owners s x = owners s' x"
    and "head_of s l = head_of s' l" and "tail_of s l = tail_of s' l"
  shows "holds s l xs = holds s' l xs"
  using assms chain_cong [of xs "nexts s" "nexts s'" "prevs s" "prevs s'" None None]
  by (auto simp: holds_def)

lemma holds_Nil [simp]: "holds s l [] \<longleftrightarrow> head_of s l = None \<and> tail_of s l = None"
  by (auto simp: holds_def)

lemma holds_push_head:
  assumes "holds s l xs" and "n \<notin> set xs"
  shows "holds (list_push_head l n s) l (n # xs)"
proof (cases xs)
  case Nil
  with assms show ?thesis by (simp add: holds_def list_push_head_def Let_def store_simps)
next
  case (Cons x ys)
  then show ?thesis using assms
    by (auto simp: holds_def list_push_head_def Let_def store_simps chain_simps last_or_eq)
qed

lemma holds_push_tail:
  assumes "holds s l xs" and "n \<notin> set xs"
  shows "holds (list_push_tail l n s) l (xs @ [n])"
proof (cases xs rule: rev_cases)
  case Nil
  with assms show ?thesis by (simp add: holds_def list_push_tail_def Let_def store_simps)
next
  case (snoc ys y)
  then show ?thesis using assms
    by (auto simp: holds_def list_push_tail_def Let_def store_simps chain_simps first_or_eq hd_append)
qed

lemma holds_pop_head:
  assumes "holds s l (x # xs)"
  shows "fst (list_pop_head l s) = Some x" and "holds (snd (list_pop_head l s)) l xs"
    and "owners (snd (list_pop_head l s)) x = None"
  using assms
  by (cases xs; auto simp: holds_def list_pop_head_def Let_def store_simps chain_simps last_or_eq)+

lemma holds_pop_tail:
  assumes "holds s l (xs @ [x])"
  shows "fst (list_pop_tail l s) = Some x" and "holds (snd (list_pop_tail l s)) l xs"
    and "owners (snd (list_pop_tail l s)) x = None"
  using assms
  by (cases xs rule: rev_cases;
      auto simp: holds_def list_pop_tail_def Let_def store_simps chain_simps first_or_eq hd_append)+

lemma pop_empty:
  assumes "holds s l []"
  shows "list_pop_head l s = (None, s)" and "list_pop_tail l s = (None, s)"
  using assms by (simp_all add: list_pop_head_def list_pop_tail_def)

lemma list_split_middle:
  assumes "x \<in> set xs" and "x \<noteq> hd xs" and "x \<noteq> last xs"
  obtains as a b bs where "xs = as @ a # x # b # bs"
proof -
  obtain us vs where "xs = us @ x # vs" using assms(1) by (meson split_list)
  moreover from this assms(2) obtain as a where "us = as @ [a]" by (cases us rule: rev_cases) auto
  moreover from \<open>xs = us @ x # vs\<close> assms(3) obtain b bs where "vs = b # bs" by (cases vs) auto
  ultimately show ?thesis using that by simp
qed

lemma holds_remove:
  assumes h: "holds s l xs" and n: "n \<in> set xs"
  shows "\<exists>s'. list_remove n s = Some s' \<and> holds s' l (remove1 n xs) \<and> owners s' n = None"
proof -
  have own: "n_list (node_at s n) = Some l" using h n by (auto simp: holds_def owners_def)
  consider "n = hd xs" | "n \<noteq> hd xs" "n = last xs" | "n \<noteq> hd xs" "n \<noteq> last xs" by blast
  then show ?thesis
  proof cases
    case 1
    then obtain ys where "xs = n # ys" using n by (cases xs) auto
    with h own holds_pop_head [of s l n ys] show ?thesis by (auto simp: list_remove_def holds_def)
  next
    case 2
    then obtain ys where ys: "xs = ys @ [n]" using n by (cases xs rule: rev_cases) auto
    with 2(1) have "ys \<noteq> []" by (cases ys) auto
    have "n \<notin> set ys" using h ys by (simp add: holds_def)
    then have "remove1 n xs = ys" using ys by (simp add: remove1_append remove1_idem)
    moreover have "head_of s l \<noteq> Some n" using h 2(1) by (auto simp: holds_def first_or_eq)
    moreover have "tail_of s l = Some n" using h ys by (simp add: holds_def)
    ultimately have "head_of s l \<noteq> Some n" "tail_of s l = Some n" "remove1 n xs = ys" by simp_all
    with own ys h holds_pop_tail [of s l ys n] show ?thesis by (auto simp: list_remove_def)
  next
    case 3
    with n obtain as a b bs where xs: "xs = as @ a # n # b # bs" by (rule list_split_middle)
    have "head_of s l \<noteq> Some n" "tail_of s l \<noteq> Some n"
      using h 3 by (auto simp: holds_def first_or_eq last_or_eq)
    moreover have "n_next (node_at s n) = Some b" "n_prev (node_at s n) = Some a"
      using h xs by (auto simp: holds_def chain_simps store_simps)
    ultimately show ?thesis using own h xs
      by (auto simp: list_remove_def Let_def holds_def store_simps chain_simps remove1_append)
  qed
qed

text \<open>Where \<^verbatim>\<open>list_push_priority\<close> inserts: before the first smaller priority.\<close>

fun split_at :: "(node \<Rightarrow> int) \<Rightarrow> int \<Rightarrow> nat \<Rightarrow> node list \<Rightarrow> node list \<times> node list" where
  "split_at pr pri i [] = ([], [])"
| "split_at pr pri i (x # xs) =
     (if pri > pr x \<or> i > 5000 then ([], x # xs)
      else (let (us, vs) = split_at pr pri (i + 1) xs in (x # us, vs)))"

lemma split_at_append: "split_at pr pri i xs = (us, vs) \<Longrightarrow> xs = us @ vs"
  by (induction pr pri i xs arbitrary: us vs rule: split_at.induct) (auto split: if_splits prod.splits)

lemma split_at_ge:
  "split_at pr pri i xs = (us, vs) \<Longrightarrow> \<forall>x\<in>set us. pri \<le> pr x"
  by (induction pr pri i xs arbitrary: us vs rule: split_at.induct)
    (auto split: if_splits prod.splits)

lemma split_at_less:
  "split_at pr pri i xs = (us, v # vs) \<Longrightarrow> i + length xs \<le> 5001 \<Longrightarrow> pr v < pri"
  by (induction pr pri i xs arbitrary: us rule: split_at.induct) (auto split: if_splits prod.splits)

lemma priority_scan_split:
  "chain (nexts s) pv b xs None \<Longrightarrow> split_at (prios s) pri i xs = (us, vs) \<Longrightarrow>
   priority_scan s pri (first_or xs None) i = first_or vs None"
  by (induction xs arbitrary: i us b) (auto simp: store_simps split: if_splits prod.splits)

lemma holds_push_priority:
  assumes h: "holds s l xs" and n: "n \<notin> set xs" and sp: "split_at (prios s) pri 0 xs = (us, vs)"
  shows "holds (list_push_priority l n pri s) l (us @ n # vs)
    \<and> prios (list_push_priority l n pri s) = (prios s)(n := if vs = [] then 0 else pri)"
proof -
  note xs = split_at_append [OF sp]
  have scan: "priority_scan s pri (head_of s l) 0 = first_or vs None"
    using h priority_scan_split [OF _ sp] by (auto simp: holds_def)
  show ?thesis
  proof (cases "xs = []")
    case True
    then show ?thesis using h n xs holds_push_head [OF h n]
      by (auto simp: list_push_priority_def list_push_head_def Let_def store_simps)
  next
    case False
    then have ne: "head_of s l \<noteq> None" using h by (auto simp: holds_def first_or_eq)
    show ?thesis
    proof (cases vs)
      case Nil
      then show ?thesis using ne scan xs holds_push_tail [OF h n]
        by (auto simp: list_push_priority_def list_push_tail_def Let_def store_simps upd_node_opt_def
            split: option.splits)
    next
      case (Cons v ws)
      have pv: "prevs s v = last_or None us" using h xs Cons by (auto simp: holds_def chain_simps)
      show ?thesis
      proof (cases us rule: rev_cases)
        case Nil
        then show ?thesis using ne scan xs Cons h n pv
          by (auto simp: list_push_priority_def Let_def holds_def store_simps chain_simps last_or_eq)
      next
        case (snoc ts t)
        then show ?thesis using ne scan xs Cons h n pv
          by (auto simp: list_push_priority_def Let_def holds_def store_simps chain_simps first_or_eq
              last_or_eq hd_append)
      qed
    qed
  qed
qed

text \<open>Sorted by falling priority.\<close>

definition by_priority :: "(node \<Rightarrow> int) \<Rightarrow> node list \<Rightarrow> bool" where
  "by_priority pr xs \<longleftrightarrow> sorted_wrt (\<lambda>x y. pr y \<le> pr x) xs"

lemma by_priority_append [simp]:
  "by_priority pr [] \<longleftrightarrow> True"
  "by_priority pr (x # xs) \<longleftrightarrow> (\<forall>y\<in>set xs. pr y \<le> pr x) \<and> by_priority pr xs"
  "by_priority pr (xs @ ys) \<longleftrightarrow>
     by_priority pr xs \<and> by_priority pr ys \<and> (\<forall>x\<in>set xs. \<forall>y\<in>set ys. pr y \<le> pr x)"
  by (auto simp: by_priority_def sorted_wrt_append)

lemma by_priority_upd [simp]: "n \<notin> set xs \<Longrightarrow> by_priority (pr(n := c)) xs = by_priority pr xs"
  by (induction xs) auto

section \<open>The list as a queue\<close>

text \<open>Operations on one list do not disturb another one with different nodes.\<close>

lemma holds_other_push_tail:
  assumes "holds s l xs" and "holds s k ys" and "k \<noteq> l" and "n \<notin> set xs" and "n \<notin> set ys"
  shows "holds (list_push_tail l n s) k ys"
proof -
  have d: "set xs \<inter> set ys = {}" using assms(1-3) by (auto simp: holds_def)
  show ?thesis
  proof (cases "tail_of s l")
    case None
    then show ?thesis using assms(2,3,5)
      by (intro holds_cong [THEN iffD1, OF _ _ _ _ _ assms(2)])
        (auto simp: list_push_tail_def Let_def store_simps)
  next
    case (Some t)
    then have "t \<in> set xs" using assms(1) by (auto simp: holds_def last_or_eq split: if_splits)
    then show ?thesis using assms(2,3,5) d Some
      by (intro holds_cong [THEN iffD1, OF _ _ _ _ _ assms(2)])
        (auto simp: list_push_tail_def Let_def store_simps)
  qed
qed

definition pop_head_opt :: "list_id \<Rightarrow> list_store \<Rightarrow> (node \<times> list_store) option" where
  "pop_head_opt l s = (case list_pop_head l s of (None, s') \<Rightarrow> None | (Some n, s') \<Rightarrow> Some (n, s'))"

interpretation list_queue: fifo "list_push_tail l" "pop_head_opt l" "\<lambda>s. holds s l" "\<lambda>n xs. n \<notin> set xs"
proof unfold_locales
  fix s xs n assume "holds s l xs" and "n \<notin> set xs"
  then show "holds (list_push_tail l n s) l (xs @ [n])" by (rule holds_push_tail)
next
  fix s assume "holds s l []"
  then show "pop_head_opt l s = None" by (simp add: pop_head_opt_def pop_empty)
next
  fix s x xs assume h: "holds s l (x # xs)"
  obtain r s' where pop: "list_pop_head l s = (r, s')" by fastforce
  with holds_pop_head [OF h] have "r = Some x" "holds s' l xs" by auto
  then show "\<exists>s'. pop_head_opt l s = Some (x, s') \<and> holds s' l xs"
    by (simp add: pop_head_opt_def pop)
qed

text \<open>A store in which every list is empty, and the list of the nodes 1, 2, 3 pushed to it.\<close>

definition empty_store :: list_store where
  "empty_store = \<lparr>node_at = \<lambda>_. \<lparr>n_next = None, n_prev = None, n_list = None, n_priority = 0\<rparr>,
     list_at = \<lambda>_. \<lparr>l_head = None, l_tail = None\<rparr>\<rparr>"

lemma empty_store_holds: "holds empty_store l []"
  by (simp add: empty_store_def head_of_def tail_of_def)

lemma store_123: "holds (fold (list_push_tail 0) [1, 2, 3] empty_store) 0 [1, 2, 3]"
  using list_queue.enq_all [OF empty_store_holds [of 0], of "[1, 2, 3]"] by simp

lemma prios_push_tail: "prios (list_push_tail l n s) = (prios s)(n := 0)"
  by (auto simp: list_push_tail_def Let_def store_simps upd_node_opt_def fun_eq_iff split: option.splits)

section \<open>Properties\<close>

text \<open>
  C31: \<^verbatim>\<open>list_remove\<close> of a node that is in a list, wherever it stands, never dereferences a null
  pointer, takes exactly that node out, keeps the links of the others consistent in both
  directions, and clears the owner of the node.
\<close>

theorem list_remove_correct:
  assumes "holds s l xs" and "n \<in> set xs"
  shows "\<exists>s'. list_remove n s = Some s' \<and> holds s' l (remove1 n xs) \<and> owners s' n = None"
  using assms by (rule holds_remove)

theorem list_remove_correct_witness:
  "\<exists>s'. list_remove 2 (fold (list_push_tail 0) [1, 2, 3] empty_store) = Some s'
    \<and> holds s' 0 [1, 3] \<and> owners s' 2 = None"
  using list_remove_correct [OF store_123, of 2] by simp

text \<open>
  \<^verbatim>\<open>list_push_priority\<close> keeps a list sorted by falling priority, as long as priorities are
  not negative and the list has at most 5001 nodes: the new node stands after all nodes of at
  least its priority.
\<close>

theorem push_priority_sorted:
  assumes h: "holds s l xs" and n: "n \<notin> set xs" and len: "length xs \<le> 5001"
    and sorted: "by_priority (prios s) xs" and nonneg: "\<forall>x\<in>set xs. 0 \<le> prios s x" "0 \<le> pri"
  shows "\<exists>us vs. xs = us @ vs \<and> holds (list_push_priority l n pri s) l (us @ n # vs)
    \<and> (\<forall>x\<in>set us. pri \<le> prios s x) \<and> (\<forall>x\<in>set vs. prios s x < pri)
    \<and> by_priority (prios (list_push_priority l n pri s)) (us @ n # vs)
    \<and> (\<forall>x\<in>set (us @ n # vs). 0 \<le> prios (list_push_priority l n pri s) x)"
proof -
  obtain us vs where sp: "split_at (prios s) pri 0 xs = (us, vs)" by fastforce
  note xs = split_at_append [OF sp]
  note res = holds_push_priority [OF h n sp]
  have us: "\<forall>x\<in>set us. pri \<le> prios s x" by (rule split_at_ge [OF sp])
  have vs: "\<forall>x\<in>set vs. prios s x < pri"
  proof (cases vs)
    case (Cons v ws)
    then have "prios s v < pri" using split_at_less [of "prios s" pri 0 xs us v ws] sp len by simp
    moreover have "\<forall>x\<in>set ws. prios s x \<le> prios s v"
      using sorted xs Cons by simp
    ultimately show ?thesis using Cons by auto
  qed simp
  have "n \<notin> set us" "n \<notin> set vs" using n xs by auto
  then have ne: "\<forall>x\<in>set us \<union> set vs. x \<noteq> n" by auto
  have "by_priority ((prios s)(n := if vs = [] then 0 else pri)) (us @ n # vs)"
    using us vs sorted nonneg xs ne \<open>n \<notin> set us\<close> \<open>n \<notin> set vs\<close>
    by (cases "vs = []") (auto simp: less_imp_le)
  then have "by_priority (prios (list_push_priority l n pri s)) (us @ n # vs)" using res by simp
  moreover have "\<forall>x\<in>set (us @ n # vs). 0 \<le> prios (list_push_priority l n pri s) x"
    using res nonneg xs by auto
  ultimately show ?thesis using res xs us vs by blast
qed

theorem push_priority_sorted_witness:
  "holds (list_push_priority 0 9 7 (fold (list_push_tail 0) [1, 2, 3] empty_store)) 0 [9, 1, 2, 3]"
proof -
  define s where "s = fold (list_push_tail 0) [1, 2, 3] empty_store"
  have h: "holds s 0 [1, 2, 3]" unfolding s_def by (rule store_123)
  have p: "prios s x = 0" for x
    unfolding s_def by (simp add: prios_push_tail) (simp add: empty_store_def prios_def)
  have "\<exists>us vs. [1, 2, 3] = us @ vs \<and> holds (list_push_priority 0 9 7 s) 0 (us @ 9 # vs)
    \<and> (\<forall>x\<in>set us. 7 \<le> prios s x)"
    using push_priority_sorted [OF h, of 9 7] p by (auto simp: by_priority_def simp del: One_nat_def)
  then obtain us vs where r: "[1, 2, 3] = us @ vs" "holds (list_push_priority 0 9 7 s) 0 (us @ 9 # vs)"
    "\<forall>x\<in>set us. 7 \<le> prios s x" by blast
  then have "us = []" using p by (cases us) auto
  with r show ?thesis unfolding s_def by simp
qed

text \<open>
  C34: \<^verbatim>\<open>list_push_tail\<close> and \<^verbatim>\<open>list_pop_head\<close> make a FIFO queue: any number of new nodes pushed
  at the tail is popped from the head in the same order, after the nodes that were there,
  and then the list is empty.
\<close>

theorem list_fifo:
  assumes "holds s l xs" and "room_all (\<lambda>n xs. n \<notin> set xs) ys xs"
  shows "\<exists>s'. take_from (pop_head_opt l) (length xs + length ys) (fold (list_push_tail l) ys s)
      = Some (xs @ ys, s') \<and> pop_head_opt l s' = None"
  using assms by (rule list_queue.in_order)

theorem list_fifo_witness:
  "\<exists>s'. take_from (pop_head_opt 0) 3 (fold (list_push_tail 0) [4, 5, 6] empty_store)
      = Some ([4, 5, 6], s') \<and> pop_head_opt 0 s' = None"
  using list_fifo [OF empty_store_holds [of 0], of "[4, 5, 6]"] by (simp add: numeral_3_eq_3)

end
