(* ===== verification/Pmm.thy ===== *)
theory Pmm
  imports Interfaces
begin

text \<open>
  The physical page allocator of \<^verbatim>\<open>mm/memory.c\<close>: a bitmap with one bit per 4 KiB frame of
  the first 128 MiB, a rotating start position and three counters. An access outside the
  bitmap, a division by zero and a \<^verbatim>\<open>HALT\<close> loop are \<open>None\<close>. The bitmap lock is always free
  when it is taken (the kernel runs these functions on one core), so it is not part of the
  state. The addresses of the linker symbols are arguments.
\<close>

section \<open>State\<close>

record pmm =
  pm_bitmap :: "nat \<Rightarrow> u8"
  alloc_start :: u32
  total_pages :: u32
  total_allocated :: u32
  total_available :: u32

definition FRAMES :: u32 where [simp]: "FRAMES = 32768"

definition KERNEL_STACK_SIZE :: u32 where [simp]: "KERNEL_STACK_SIZE = 8192"

definition create_stack :: "addr \<Rightarrow> u32 \<Rightarrow> addr" where
  "create_stack stack tid =
     (if tid = 0 then 0
      else if tid \<ge> of_nat MAX_TASKS then 0
      else stack + (tid - 1) * KERNEL_STACK_SIZE)"

section \<open>The bitmap\<close>

definition in_bitmap :: "u32 \<Rightarrow> bool" where
  "in_bitmap i \<longleftrightarrow> unat (drop_bit 3 i) < BITMAP_SIZE"

definition page_marked :: "'a pmm_scheme \<Rightarrow> u32 \<Rightarrow> bool option" where
  "page_marked s i =
     (let index = unat (drop_bit 3 i); md = unat (i AND 7) in
      if in_bitmap i then Some (pm_bitmap s index AND push_bit md 1 \<noteq> 0) else None)"

definition page_set_mark :: "u32 \<Rightarrow> 'a pmm_scheme \<Rightarrow> 'a pmm_scheme option" where
  "page_set_mark i s =
     (let index = unat (drop_bit 3 i); md = unat (i AND 7) in
      if in_bitmap i
      then Some (s\<lparr>pm_bitmap := (pm_bitmap s)(index := pm_bitmap s index OR push_bit md 1)\<rparr>)
      else None)"

definition page_clear_mark :: "u32 \<Rightarrow> 'a pmm_scheme \<Rightarrow> 'a pmm_scheme option" where
  "page_clear_mark i s =
     (let index = unat (i div 8); md = unat (i mod 8) in
      if in_bitmap i
      then Some (s\<lparr>pm_bitmap := (pm_bitmap s)(index := pm_bitmap s index AND NOT (push_bit md 1))\<rparr>)
      else None)"

section \<open>Allocation\<close>

text \<open>
  The inner loop: the number of unmarked frames from \<open>base\<close> on, at most \<open>npages\<close>; it is less
  than \<open>npages\<close> exactly when the C code jumps to \<^verbatim>\<open>next\<close> with that \<^verbatim>\<open>cnt\<close>.
\<close>

fun free_run :: "'a pmm_scheme \<Rightarrow> u32 \<Rightarrow> nat \<Rightarrow> u32 \<Rightarrow> u32 option" where
  "free_run s base 0 cnt = Some cnt"
| "free_run s base (Suc n) cnt =
     (case page_marked s (base + cnt) of
        None \<Rightarrow> None
      | Some True \<Rightarrow> Some cnt
      | Some False \<Rightarrow> free_run s base n (cnt + 1))"

definition mark_run :: "u32 \<Rightarrow> u32 \<Rightarrow> 'a pmm_scheme \<Rightarrow> 'a pmm_scheme option" where
  "mark_run off npages s = foldM (\<lambda>cnt. page_set_mark (off + of_nat cnt)) [0..<unat npages] s"

partial_function (option) search_pages ::
  "u32 \<Rightarrow> 'a pmm_scheme \<Rightarrow> u32 \<Rightarrow> (u32 \<times> 'a pmm_scheme) option" where
  "search_pages npages s off =
     (if off \<le> FRAMES - npages then
        (if FRAMES - npages = 0 then None
         else let base = (off + alloc_start s) mod (FRAMES - npages) in
          case free_run s base (unat npages) 0 of
            None \<Rightarrow> None
          | Some cnt \<Rightarrow>
              if cnt < npages then search_pages npages s (off + (cnt + 1))
              else (case mark_run base npages (s\<lparr>alloc_start := base + npages\<rparr>) of
                 None \<Rightarrow> None
               | Some s' \<Rightarrow>
                   Some (push_bit PAGE_BITS base,
                     s'\<lparr>total_allocated := total_allocated s' + npages,
                        total_available := total_available s' - npages\<rparr>)))
      else Some (0, s))"

definition get_pages :: "addr \<Rightarrow> u32 \<Rightarrow> 'a pmm_scheme \<Rightarrow> (u32 \<times> 'a pmm_scheme) option" where
  "get_pages kernel_end npages s =
     (if npages = 0 then Some (0, s)
      else if npages > total_available s then Some (0, s)
      else let s = (if alloc_start s = -1 then s\<lparr>alloc_start := drop_bit PAGE_BITS kernel_end\<rparr> else s)
           in search_pages npages s 1)"

definition get_page :: "addr \<Rightarrow> 'a pmm_scheme \<Rightarrow> (u32 \<times> 'a pmm_scheme) option" where
  "get_page kernel_end s = get_pages kernel_end 1 s"

definition put_frame :: "u32 \<Rightarrow> nat \<Rightarrow> 'a pmm_scheme \<times> u32 \<Rightarrow> ('a pmm_scheme \<times> u32) option" where
  "put_frame base i = (\<lambda>(s, ret).
     case page_marked s (base + of_nat i) of
       None \<Rightarrow> None
     | Some False \<Rightarrow> Some (s, ret)
     | Some True \<Rightarrow>
         (case page_clear_mark (base + of_nat i) s of None \<Rightarrow> None | Some s' \<Rightarrow> Some (s', ret + 1)))"

definition put_pages :: "u32 \<Rightarrow> u32 \<Rightarrow> 'a pmm_scheme \<Rightarrow> (int \<times> 'a pmm_scheme) option" where
  "put_pages phyaddr npages s =
     (let base = drop_bit PAGE_BITS phyaddr in
      if phyaddr = 0 then Some (- EINVAL, s)
      else if npages = 0 then Some (- EINVAL, s)
      else (case foldM (put_frame base) [0..<unat npages] (s, 0) of
          None \<Rightarrow> None
        | Some (s', ret) \<Rightarrow>
            Some (sint ret, s'\<lparr>total_allocated := total_allocated s' - ret,
                              total_available := total_available s' + ret\<rparr>)))"

definition put_page :: "u32 \<Rightarrow> 'a pmm_scheme \<Rightarrow> (int \<times> 'a pmm_scheme) option" where
  "put_page phyaddr s = put_pages phyaddr 1 s"

section \<open>Initialisation of the bitmap\<close>

text \<open>
  What the boot loader passes (\<^verbatim>\<open>include/lowlevel/multiboot.h\<close>): the fields the kernel reads,
  the memory map as the list of its entries and the module table as a function of the index.
\<close>

record mmap_entry =
  mm_addr :: u64
  mm_len :: u64
  mm_type :: u32

record multiboot_info =
  mb_flags :: u32
  mem_lower :: u32
  mem_upper :: u32
  mods_count :: u32
  mods_addr :: u32
  mb_mmap :: "mmap_entry list"
  mb_mods :: "nat \<Rightarrow> u32 \<times> u32"

definition MULTIBOOT_INFO_MEM :: u32 where [simp]: "MULTIBOOT_INFO_MEM = 1"
definition MULTIBOOT_INFO_MODS :: u32 where [simp]: "MULTIBOOT_INFO_MODS = 8"
definition MULTIBOOT_INFO_MEM_MAP :: u32 where [simp]: "MULTIBOOT_INFO_MEM_MAP = 0x40"
definition MULTIBOOT_MEMORY_AVAILABLE :: u32 where [simp]: "MULTIBOOT_MEMORY_AVAILABLE = 1"

definition has_flag :: "u32 \<Rightarrow> u32 \<Rightarrow> bool" where
  "has_flag w f \<longleftrightarrow> w AND f \<noteq> 0"

function free_region :: "u32 \<Rightarrow> u32 \<Rightarrow> 'a pmm_scheme \<Rightarrow> 'a pmm_scheme option" where
  "free_region a end_addr s =
     (if a < end_addr \<and> a < FRAMES * PAGE_SIZE
      then (case page_marked s (drop_bit PAGE_BITS a) of
              None \<Rightarrow> None
            | Some False \<Rightarrow> free_region (a + PAGE_SIZE) end_addr s
            | Some True \<Rightarrow>
                (case page_clear_mark (drop_bit PAGE_BITS a) s of
                   None \<Rightarrow> None
                 | Some s' \<Rightarrow> free_region (a + PAGE_SIZE) end_addr
                     (s'\<lparr>total_pages := total_pages s' + 1, total_available := total_available s' + 1\<rparr>)))
      else Some s)"
  by pat_completeness auto
termination
  by (relation "measure (\<lambda>(a, end_addr, s). 2 ^ 27 - unat a)")
    (auto simp: unat_word_ariths word_less_nat_alt)

definition free_entry :: "mmap_entry \<Rightarrow> 'a pmm_scheme \<Rightarrow> 'a pmm_scheme option" where
  "free_entry e s =
     (if mm_type e = MULTIBOOT_MEMORY_AVAILABLE
      then let a = ucast (mm_addr e); end_addr = ucast (ucast a + mm_len e) in free_region a end_addr s
      else Some s)"

text \<open>Without a memory map: the two sizes in KiB; a machine that gives neither halts for ever.\<close>

definition free_by_size :: "multiboot_info \<Rightarrow> 'a pmm_scheme \<Rightarrow> 'a pmm_scheme option" where
  "free_by_size mb s =
     (let pages_lower = drop_bit 2 (mem_lower mb); pages_upper = drop_bit 2 (mem_upper mb) in
      case foldM (\<lambda>page. page_clear_mark (of_nat page)) [0..<unat pages_lower] s of
        None \<Rightarrow> None
      | Some s \<Rightarrow>
          let pages_upper = (if pages_upper > FRAMES - 256 then FRAMES - 256 else pages_upper) in
          (case foldM (\<lambda>page. page_clear_mark (of_nat page + 256)) [0..<unat pages_upper] s of
             None \<Rightarrow> None
           | Some s \<Rightarrow>
               Some (s\<lparr>total_pages := total_pages s + (pages_lower + pages_upper),
                       total_available := total_available s + (pages_lower + pages_upper)\<rparr>)))"

definition free_available :: "multiboot_info \<Rightarrow> 'a pmm_scheme \<Rightarrow> 'a pmm_scheme option" where
  "free_available mb s =
     (if has_flag (mb_flags mb) MULTIBOOT_INFO_MEM_MAP then foldM free_entry (mb_mmap mb) s
      else if has_flag (mb_flags mb) MULTIBOOT_INFO_MEM then free_by_size mb s
      else None)"

definition mark_used :: "u32 \<Rightarrow> 'a pmm_scheme \<Rightarrow> 'a pmm_scheme option" where
  "mark_used a s =
     (case page_set_mark (drop_bit PAGE_BITS a) s of
        None \<Rightarrow> None
      | Some s' \<Rightarrow> Some (s'\<lparr>total_allocated := total_allocated s' + 1,
                          total_available := total_available s' - 1\<rparr>))"

text \<open>\<^verbatim>\<open>for (addr = a; addr < end; addr += PAGE_SIZE)\<close>: beyond the bitmap the access is undefined.\<close>

partial_function (option) mark_region :: "u32 \<Rightarrow> u32 \<Rightarrow> 'a pmm_scheme \<Rightarrow> 'a pmm_scheme option" where
  "mark_region a end_addr s =
     (if a < end_addr
      then (case mark_used a s of None \<Rightarrow> None | Some s' \<Rightarrow> mark_region (a + PAGE_SIZE) end_addr s')
      else Some s)"

definition mark_modules :: "multiboot_info \<Rightarrow> 'a pmm_scheme \<Rightarrow> 'a pmm_scheme option" where
  "mark_modules mb s =
     foldM (\<lambda>i. mark_region (fst (mb_mods mb i)) (snd (mb_mods mb i))) [0..<unat (mods_count mb)] s"

text \<open>Lines 187 to 264 of \<^verbatim>\<open>memory_init\<close>: free what is available, then reserve what is in use.\<close>

definition mark_boot_info :: "addr \<Rightarrow> multiboot_info \<Rightarrow> 'a pmm_scheme \<Rightarrow> 'a pmm_scheme option" where
  "mark_boot_info mb_addr mb s =
     (case mark_used mb_addr s of
        None \<Rightarrow> None
      | Some s \<Rightarrow>
          if has_flag (mb_flags mb) MULTIBOOT_INFO_MODS
          then (case mark_region (mods_addr mb) (mods_addr mb + mods_count mb * 16) s of
                  None \<Rightarrow> None
                | Some s \<Rightarrow> mark_modules mb s)
          else Some s)"

definition init_bitmap ::
  "(addr \<times> multiboot_info) option \<Rightarrow> addr \<Rightarrow> addr \<Rightarrow> 'a pmm_scheme \<Rightarrow> 'a pmm_scheme option" where
  "init_bitmap mb_info kernel_start kernel_end s =
     (case (case mb_info of
              None \<Rightarrow> Some s
            | Some (mb_addr, mb) \<Rightarrow>
                (case free_available mb s of None \<Rightarrow> None | Some s \<Rightarrow> mark_boot_info mb_addr mb s)) of
        None \<Rightarrow> None
      | Some s \<Rightarrow> mark_region kernel_start kernel_end s)"

text \<open>Line 177: all memory is marked as used before anything else.\<close>

definition mark_all :: "'a pmm_scheme \<Rightarrow> 'a pmm_scheme" where
  "mark_all s = s\<lparr>pm_bitmap := (\<lambda>i. if i < BITMAP_SIZE then 0xff else pm_bitmap s i)\<rparr>"

declare free_region.simps [simp del]

section \<open>The set of used frames\<close>

definition marked :: "'a pmm_scheme \<Rightarrow> nat \<Rightarrow> bool" where
  "marked s p \<longleftrightarrow> bit (pm_bitmap s (p div 8)) (p mod 8)"

definition used_frames :: "'a pmm_scheme \<Rightarrow> nat set" where
  "used_frames s = {p. p < 32768 \<and> marked s p}"

lemma bit_position:
  "unat (drop_bit 3 (i :: u32)) = unat i div 8"
  "unat (i AND 7) = unat i mod 8"
  "unat (i div 8) = unat i div 8" "unat (i mod 8) = unat i mod 8"
proof -
  show "unat (drop_bit 3 i) = unat i div 8" unfolding drop_bit_eq_div unat_div by simp
  have "i AND 7 = take_bit 3 i" by (simp add: take_bit_eq_mask mask_eq_exp_minus_1)
  also have "take_bit 3 i = i mod 8" by (simp add: take_bit_eq_mod)
  finally have e: "i AND 7 = i mod 8" .
  show "unat (i AND 7) = unat i mod 8" unfolding e unat_mod by simp
  show "unat (i div 8) = unat i div 8" "unat (i mod 8) = unat i mod 8"
    unfolding unat_div unat_mod by simp_all
qed

lemma in_bitmap_iff: "in_bitmap i \<longleftrightarrow> unat i < 32768"
  by (simp add: in_bitmap_def bit_position) linarith

lemma page_marked_eq: "page_marked s i = (if unat i < 32768 then Some (marked s (unat i)) else None)"
  unfolding page_marked_def Let_def bit_position in_bitmap_iff marked_def
  by (simp only: bit_iff_and_push_bit_not_eq_0)

definition set_frame :: "nat \<Rightarrow> 'a pmm_scheme \<Rightarrow> 'a pmm_scheme" where
  "set_frame p s =
     s\<lparr>pm_bitmap := (pm_bitmap s)(p div 8 := pm_bitmap s (p div 8) OR push_bit (p mod 8) 1)\<rparr>"

definition clear_frame :: "nat \<Rightarrow> 'a pmm_scheme \<Rightarrow> 'a pmm_scheme" where
  "clear_frame p s =
     s\<lparr>pm_bitmap := (pm_bitmap s)(p div 8 := pm_bitmap s (p div 8) AND NOT (push_bit (p mod 8) 1))\<rparr>"

lemma page_set_mark_eq: "page_set_mark i s = (if unat i < 32768 then Some (set_frame (unat i) s) else None)"
  by (simp add: page_set_mark_def Let_def bit_position in_bitmap_iff set_frame_def)

lemma page_clear_mark_eq:
  "page_clear_mark i s = (if unat i < 32768 then Some (clear_frame (unat i) s) else None)"
  unfolding page_clear_mark_def Let_def bit_position in_bitmap_iff clear_frame_def by simp

lemma same_frame: "(q :: nat) div 8 = p div 8 \<and> q mod 8 = p mod 8 \<longleftrightarrow> q = p"
  by (metis div_mult_mod_eq)

lemma marked_set_frame [simp]: "marked (set_frame p s) q \<longleftrightarrow> q = p \<or> marked s q"
proof (cases "q div 8 = p div 8")
  case True
  then have "q mod 8 = p mod 8 \<longleftrightarrow> q = p" using same_frame by blast
  moreover have "q mod 8 < 8" by simp
  ultimately show ?thesis using True
    by (auto simp: marked_def set_frame_def bit_simps)
qed (auto simp: marked_def set_frame_def)

lemma marked_clear_frame [simp]: "marked (clear_frame p s) q \<longleftrightarrow> q \<noteq> p \<and> marked s q"
proof (cases "q div 8 = p div 8")
  case True
  then have "q mod 8 = p mod 8 \<longleftrightarrow> q = p" using same_frame by blast
  moreover have "q mod 8 < 8" by simp
  ultimately show ?thesis using True
    by (auto simp: marked_def clear_frame_def bit_simps)
qed (auto simp: marked_def clear_frame_def)

lemma frame_fields [simp]:
  "alloc_start (set_frame p s) = alloc_start s" "alloc_start (clear_frame p s) = alloc_start s"
  "total_pages (set_frame p s) = total_pages s" "total_pages (clear_frame p s) = total_pages s"
  "total_allocated (set_frame p s) = total_allocated s"
  "total_allocated (clear_frame p s) = total_allocated s"
  "total_available (set_frame p s) = total_available s"
  "total_available (clear_frame p s) = total_available s"
  "pmm.more (set_frame p s) = pmm.more s" "pmm.more (clear_frame p s) = pmm.more s"
  by (simp_all add: set_frame_def clear_frame_def)

lemma marked_fields [simp]:
  "marked (s\<lparr>alloc_start := v\<rparr>) p = marked s p"
  "marked (s\<lparr>total_pages := v\<rparr>) p = marked s p"
  "marked (s\<lparr>total_allocated := v\<rparr>) p = marked s p"
  "marked (s\<lparr>total_available := v\<rparr>) p = marked s p"
  by (simp_all add: marked_def)

section \<open>What allocation does\<close>

lemma free_run_spec:
  assumes "unat base + unat cnt + n \<le> 32768"
  shows "\<exists>k\<le>n. free_run s base n cnt = Some (cnt + of_nat k)
    \<and> (\<forall>j<k. \<not> marked s (unat base + unat cnt + j))
    \<and> (k < n \<longrightarrow> marked s (unat base + unat cnt + k))"
  using assms
proof (induction n arbitrary: cnt)
  case 0
  then show ?case by simp
next
  case (Suc n)
  have b: "unat (base + cnt) = unat base + unat cnt" and c: "unat (cnt + 1) = Suc (unat cnt)"
    using Suc.prems by (simp_all add: unat_word_ariths)
  show ?case
  proof (cases "marked s (unat base + unat cnt)")
    case True
    then show ?thesis using Suc.prems b by (intro exI [of _ 0]) (simp add: page_marked_eq)
  next
    case False
    obtain k where k: "k \<le> n" "free_run s base n (cnt + 1) = Some (cnt + 1 + of_nat k)"
      "\<forall>j<k. \<not> marked s (unat base + unat (cnt + 1) + j)"
      "k < n \<longrightarrow> marked s (unat base + unat (cnt + 1) + k)"
      using Suc.IH [of "cnt + 1"] Suc.prems c by auto
    have "\<not> marked s (unat base + unat cnt + j)" if "j < Suc k" for j
      using that k(3) False c by (cases j) auto
    then show ?thesis using k False Suc.prems b c
      by (intro exI [of _ "Suc k"]) (auto simp: page_marked_eq ac_simps)
  qed
qed

definition set_frames :: "nat \<Rightarrow> nat \<Rightarrow> 'a pmm_scheme \<Rightarrow> 'a pmm_scheme" where
  "set_frames b n s = fold (\<lambda>i. set_frame (b + i)) [0..<n] s"

lemma set_frames_marked [simp]: "marked (set_frames b n s) p \<longleftrightarrow> (b \<le> p \<and> p < b + n) \<or> marked s p"
  by (induction n) (auto simp: set_frames_def)

lemma set_frames_fields [simp]:
  "alloc_start (set_frames b n s) = alloc_start s" "total_pages (set_frames b n s) = total_pages s"
  "total_allocated (set_frames b n s) = total_allocated s"
  "total_available (set_frames b n s) = total_available s"
  by (induction n) (auto simp: set_frames_def)

lemma mark_run_eq:
  assumes "unat off + unat n \<le> 32768"
  shows "mark_run off n s = Some (set_frames (unat off) (unat n) s)"
proof -
  have u: "unat (off + of_nat i) = unat off + i" if "i < unat n" for i
    using assms that by (simp add: unat_word_ariths unat_of_nat)
  have "foldM (\<lambda>cnt. page_set_mark (off + of_nat cnt)) [0..<k] s =
      Some (fold (\<lambda>i. set_frame (unat off + i)) [0..<k] s)" if "k \<le> unat n" for k
    using that
  proof (induction k)
    case (Suc k)
    then show ?case using assms u [of k] by (simp add: foldM_append page_set_mark_eq)
  qed simp
  then show ?thesis by (simp add: mark_run_def set_frames_def)
qed

text \<open>The outcome of a search: a run of frames that were free is taken, or nothing happens.\<close>

definition took_frames :: "nat \<Rightarrow> 'a pmm_scheme \<Rightarrow> nat \<Rightarrow> u32 \<Rightarrow> 'a pmm_scheme \<Rightarrow> bool" where
  "took_frames b s n f s' \<longleftrightarrow>
     b + n \<le> 32768 \<and> unat f = b * 4096 \<and> (\<forall>p. b \<le> p \<and> p < b + n \<longrightarrow> \<not> marked s p)
     \<and> marked s' = (\<lambda>p. (b \<le> p \<and> p < b + n) \<or> marked s p)
     \<and> total_allocated s' = total_allocated s + of_nat n
     \<and> total_available s' = total_available s - of_nat n
     \<and> alloc_start s' = of_nat (b + n) \<and> total_pages s' = total_pages s"

lemma search_base:
  assumes n: "unat n < 32768"
  shows "unat ((off + alloc_start s) mod (FRAMES - n)) < 32768 - unat n"
    and "unat (FRAMES - n) = 32768 - unat n" and "FRAMES - n \<noteq> 0"
proof -
  show M: "unat (FRAMES - n) = 32768 - unat n" using n by (simp add: unat_sub word_le_nat_alt)
  show "unat ((off + alloc_start s) mod (FRAMES - n)) < 32768 - unat n"
    by (metis M n mod_less_divisor unat_mod zero_less_diff)
  show "FRAMES - n \<noteq> 0" using M n by (metis unat_0 zero_less_diff less_numeral_extra(3))
qed

lemma search_miss:
  assumes n: "unat n < 32768" and off: "off \<le> FRAMES - n"
    and run: "free_run s ((off + alloc_start s) mod (FRAMES - n)) (unat n) 0 = Some (of_nat k)"
    and k: "k < unat n"
  shows "search_pages n s off = search_pages n s (off + (of_nat k + 1))"
    and "unat (off + (of_nat k + 1)) = unat off + Suc k"
proof -
  have uk: "unat (of_nat k :: u32) = k" using k n by (intro unat_of_nat_32) simp
  then have "of_nat k < n" using k by (simp add: word_less_nat_alt)
  then show "search_pages n s off = search_pages n s (off + (of_nat k + 1))"
    using off search_base(3) [OF n] run by (subst search_pages.simps) (simp add: Let_def)
  show "unat (off + (of_nat k + 1)) = unat off + Suc k"
    using off k search_base(2) [OF n] n uk by (simp add: unat_word_ariths word_le_nat_alt)
qed

lemma search_hit:
  assumes n: "unat n < 32768" and off: "off \<le> FRAMES - n"
    and base: "base = (off + alloc_start s) mod (FRAMES - n)"
    and run: "free_run s base (unat n) 0 = Some n" "\<forall>j<unat n. \<not> marked s (unat base + j)"
  shows "\<exists>f s'. search_pages n s off = Some (f, s') \<and> took_frames (unat base) s (unat n) f s'"
proof -
  let ?s = "s\<lparr>alloc_start := base + n\<rparr>"
  have ub: "unat base < 32768 - unat n" unfolding base by (rule search_base(1) [OF n])
  have "mark_run base n ?s = Some (set_frames (unat base) (unat n) ?s)"
    using ub by (intro mark_run_eq) simp
  then have r: "search_pages n s off = Some (push_bit PAGE_BITS base,
      (set_frames (unat base) (unat n) ?s)
        \<lparr>total_allocated := total_allocated s + n, total_available := total_available s - n\<rparr>)"
    using off search_base(3) [OF n] run(1)
    by (subst search_pages.simps) (simp add: Let_def base [simplified, symmetric])
  have "unat (push_bit PAGE_BITS base) = unat base * 4096"
    using ub by (simp add: push_bit_eq_mult unat_word_ariths)
  moreover have "base + n = of_nat (unat base + unat n)" by simp
  moreover have "\<not> marked s p" if "unat base \<le> p" "p < unat base + unat n" for p
    using run(2) that by (metis le_iff_add nat_add_left_cancel_less)
  ultimately have "took_frames (unat base) s (unat n) (push_bit PAGE_BITS base)
      ((set_frames (unat base) (unat n) ?s)
        \<lparr>total_allocated := total_allocated s + n, total_available := total_available s - n\<rparr>)"
    using ub by (auto simp: took_frames_def fun_eq_iff)
  then show ?thesis using r by blast
qed

lemma search_pages_spec:
  assumes n: "0 < unat n" "unat n < 32768"
  shows "unat off \<le> 32768 \<Longrightarrow> \<exists>f s'. search_pages n s off = Some (f, s')
    \<and> (f = 0 \<and> s' = s \<or> (\<exists>b. took_frames b s (unat n) f s'))"
proof (induction "32768 - unat off" arbitrary: off rule: less_induct)
  case less
  note M = search_base(2) [OF n(2)]
  show ?case
  proof (cases "off \<le> FRAMES - n")
    case False
    then show ?thesis by (subst search_pages.simps) (auto simp: Let_def)
  next
    case True
    define base where "base = (off + alloc_start s) mod (FRAMES - n)"
    have "unat base + unat (0 :: u32) + unat n \<le> 32768"
      unfolding base_def using search_base(1) [OF n(2), of off s] by simp
    from free_run_spec [OF this, of s] obtain k where
      k: "k \<le> unat n" "free_run s base (unat n) 0 = Some (of_nat k)"
      "\<forall>j<k. \<not> marked s (unat base + j)" by auto
    show ?thesis
    proof (cases "k < unat n")
      case lt: True
      note miss = search_miss [OF n(2) True k(2) [unfolded base_def] lt]
      have "unat off + Suc k \<le> 32768" using True M lt n(2) unfolding word_le_nat_alt by linarith
      then show ?thesis using less.hyps [of "off + (of_nat k + 1)"] miss
        by (simp only: miss)
    next
      case False
      with k(1) have "k = unat n" by simp
      with k search_hit [OF n(2) True base_def] show ?thesis by (metis of_nat_unat_word)
    qed
  qed
qed

text \<open>A single frame is always found if one of the first 32767 frames is free.\<close>

lemma search_one:
  assumes start: "unat (alloc_start s) + 32767 < 2 ^ 32" and off0: "off0 \<le> 32767"
    and free: "\<not> marked s ((off0 + unat (alloc_start s)) mod 32767)"
  shows "1 \<le> unat off \<Longrightarrow> unat off \<le> off0 \<Longrightarrow>
    \<exists>f s' b. search_pages 1 s off = Some (f, s') \<and> took_frames b s 1 f s'"
proof (induction "off0 - unat off" arbitrary: off rule: less_induct)
  case less
  have n: "unat (1 :: u32) < 32768" by simp
  have off: "off \<le> FRAMES - 1" using less.prems off0 by (simp add: word_le_nat_alt)
  define base where "base = (off + alloc_start s) mod (FRAMES - 1)"
  have "unat (off + alloc_start s) = unat off + unat (alloc_start s)"
    using less.prems off0 start by (simp add: unat_word_ariths)
  then have ub: "unat base = (unat off + unat (alloc_start s)) mod 32767"
    unfolding base_def unat_mod by simp
  have m: "page_marked s base = Some (marked s (unat base))"
    using search_base(1) [OF n, of off s] by (simp add: page_marked_eq base_def)
  show ?case
  proof (cases "marked s (unat base)")
    case False
    then have "free_run s base (unat (1 :: u32)) 0 = Some 1" using m by (simp add: free_run.simps(2) [of s base 0, simplified])
    then show ?thesis using search_hit [OF n off base_def] False by (fastforce simp: less_Suc_eq)
  next
    case True
    then have ne: "unat off \<noteq> off0" using free ub by auto
    have run: "free_run s base (unat (1 :: u32)) 0 = Some (of_nat 0)"
      using m True by (simp add: free_run.simps(2) [of s base 0, simplified])
    note miss = search_miss [OF n off run [unfolded base_def]]
    have "unat (off + (of_nat 0 + 1)) = Suc (unat off)" using miss(2) by simp
    then show ?thesis using less.hyps [of "off + (of_nat 0 + 1)"] less.prems ne miss(1) by simp
  qed
qed

lemma get_pages_spec:
  assumes "unat n < 32768"
  shows "\<exists>f s'. get_pages ke n s = Some (f, s') \<and>
    (f = 0 \<and> used_frames s' = used_frames s \<and> total_available s' = total_available s
       \<and> total_allocated s' = total_allocated s
     \<or> n \<noteq> 0 \<and> (\<exists>b s0. marked s0 = marked s \<and> total_available s0 = total_available s
         \<and> total_allocated s0 = total_allocated s \<and> took_frames b s0 (unat n) f s'))"
proof (cases "n = 0 \<or> n > total_available s")
  case True
  then show ?thesis by (auto simp: get_pages_def)
next
  case False
  define s0 where "s0 = (if alloc_start s = -1 then s\<lparr>alloc_start := drop_bit PAGE_BITS ke\<rparr> else s)"
  have s0: "marked s0 = marked s" "total_available s0 = total_available s"
    "total_allocated s0 = total_allocated s" by (auto simp: s0_def fun_eq_iff)
  have "get_pages ke n s = search_pages n s0 1" using False by (simp add: get_pages_def s0_def)
  moreover have "0 < unat n" using False by (simp add: unat_gt_0)
  ultimately show ?thesis using search_pages_spec [of n 1 s0] assms s0 False
    by (auto simp: used_frames_def)
qed

lemma took_frames_used:
  assumes "took_frames b s n f s'"
  shows "unat f div 4096 = b" "{b..<b + n} \<inter> used_frames s = {}"
    "used_frames s' = used_frames s \<union> {b..<b + n}" "{b..<b + n} \<subseteq> {..<32768}"
  using assms by (auto simp: took_frames_def used_frames_def)

text \<open>Giving frames back.\<close>

definition clear_frames :: "nat \<Rightarrow> nat \<Rightarrow> 'a pmm_scheme \<Rightarrow> 'a pmm_scheme" where
  "clear_frames b n s = fold (\<lambda>i s. if marked s (b + i) then clear_frame (b + i) s else s) [0..<n] s"

lemma clear_frames_marked [simp]:
  "marked (clear_frames b n s) p \<longleftrightarrow> \<not> (b \<le> p \<and> p < b + n) \<and> marked s p"
proof (induction n)
  case (Suc n)
  then show ?case by (cases "p = b + n") (auto simp: clear_frames_def)
qed (simp add: clear_frames_def)

lemma clear_frames_fields [simp]:
  "alloc_start (clear_frames b n s) = alloc_start s" "total_pages (clear_frames b n s) = total_pages s"
  "total_allocated (clear_frames b n s) = total_allocated s"
  "total_available (clear_frames b n s) = total_available s"
  by (induction n) (auto simp: clear_frames_def)

lemma put_loop:
  assumes "unat base + n \<le> 32768"
  shows "foldM (put_frame base) [0..<n] (s, 0) =
    Some (clear_frames (unat base) n s, of_nat (card {p. unat base \<le> p \<and> p < unat base + n \<and> marked s p}))"
  using assms
proof (induction n)
  case 0
  have e: "{p. unat base \<le> p \<and> p < unat base + 0 \<and> marked s p} = {}" by auto
  show ?case unfolding e by (simp add: clear_frames_def)
next
  case (Suc n)
  let ?S = "\<lambda>n. {p. unat base \<le> p \<and> p < unat base + n \<and> marked s p}"
  have u: "unat (base + of_nat n) = unat base + n"
    using Suc.prems by (simp add: unat_word_ariths unat_of_nat)
  have S: "?S (Suc n) = (if marked s (unat base + n) then insert (unat base + n) (?S n) else ?S n)"
    by (auto simp: less_Suc_eq)
  have m: "marked (clear_frames (unat base) n s) (unat base + n) = marked s (unat base + n)" by simp
  have "card (?S (Suc n)) = (if marked s (unat base + n) then Suc (card (?S n)) else card (?S n))"
    unfolding S by (auto simp: card_insert_if)
  moreover have "clear_frames (unat base) (Suc n) s =
      (if marked s (unat base + n) then clear_frame (unat base + n) (clear_frames (unat base) n s)
       else clear_frames (unat base) n s)"
    using m by (simp add: clear_frames_def)
  ultimately show ?case using Suc u m
    by (simp add: foldM_append put_frame_def page_marked_eq page_clear_mark_eq)
qed

lemma put_pages_spec:
  assumes "f \<noteq> 0" and "n \<noteq> 0" and "unat f div 4096 + unat n \<le> 32768"
  shows "\<exists>s'. put_pages f n s = Some (int (card (used_frames s \<inter> frames f n)), s')
    \<and> marked s' = (\<lambda>p. p \<notin> frames f n \<and> marked s p)
    \<and> total_allocated s' = total_allocated s - of_nat (card (used_frames s \<inter> frames f n))
    \<and> total_available s' = total_available s + of_nat (card (used_frames s \<inter> frames f n))"
proof -
  have b: "unat (drop_bit PAGE_BITS f) = unat f div 4096"
    unfolding drop_bit_eq_div unat_div by simp
  let ?c = "card (used_frames s \<inter> frames f n)"
  have set: "{p. unat f div 4096 \<le> p \<and> p < unat f div 4096 + unat n \<and> marked s p} = used_frames s \<inter> frames f n"
    using assms(3) by (auto simp: used_frames_def frames_def)
  have "?c \<le> card (frames f n)" by (intro card_mono) (auto simp: frames_def)
  then have c: "?c < 2 ^ 31" using assms(3) by (simp add: frames_def)
  then have "uint (of_nat ?c :: u32) = int ?c" by (simp add: unsigned_of_nat take_bit_nat_eq_self)
  then have "sint (of_nat ?c :: u32) = int ?c" using c sint_small [of "of_nat ?c"] by simp
  with put_loop [of "drop_bit PAGE_BITS f" "unat n" s] assms show ?thesis
    unfolding b set by (auto simp: put_pages_def b frames_def fun_eq_iff)
qed

lemma put_pages_used:
  assumes "f \<noteq> 0" and "n \<noteq> 0" and "unat f div 4096 + unat n \<le> 32768"
  shows "\<exists>r s'. put_pages f n s = Some (r, s') \<and> used_frames s' = used_frames s - frames f n"
  using put_pages_spec [OF assms, of s] by (fastforce simp: used_frames_def)

interpretation pmm_frames: page_frames "get_pages ke" put_pages used_frames 32768 for ke
proof unfold_locales
  fix n f :: u32 and s s' :: "'a pmm_scheme"
  assume g: "get_pages ke n s = Some (f, s')" and "f \<noteq> 0" and n: "unat n < 32768"
  then obtain b s0 where "marked s0 = marked s" "took_frames b s0 (unat n) f s'"
    using get_pages_spec [OF n, of ke s] by auto
  then show "frames f n \<inter> used_frames s = {} \<and> used_frames s' = used_frames s \<union> frames f n
      \<and> frames f n \<subseteq> {..<32768}"
    using took_frames_used [of b s0 "unat n" f s'] by (auto simp: frames_def used_frames_def)
next
  fix f n :: u32 and s :: "'a pmm_scheme"
  assume f: "f \<noteq> 0" and n: "n \<noteq> 0" and r: "frames f n \<subseteq> {..<32768}"
  have "0 < unat n" using n by (simp add: unat_gt_0)
  then have "unat f div 4096 + unat n - 1 \<in> frames f n" by (auto simp: frames_def)
  then have "unat f div 4096 + unat n \<le> 32768" using r by auto
  then show "\<exists>r s'. put_pages f n s = Some (r, s') \<and> used_frames s' = used_frames s - frames f n"
    by (rule put_pages_used [OF f n])
qed

section \<open>Properties\<close>

text \<open>
  C1: For fewer than 32768 frames \<^verbatim>\<open>get_pages\<close> always returns, never leaves the bitmap, and
  either fails with 0 or a run of frames that were all free, which it marks and no others, and
  returns their page-aligned address; the counters move by exactly the number of frames. A
  failure (0) leaves the frames as they were, except that a run at frame 0 is also reported as 0.
\<close>

theorem get_pages_correct:
  assumes "unat n < 32768"
  shows "\<exists>f s'. get_pages ke n s = Some (f, s')
    \<and> (used_frames s' = used_frames s \<and> f = 0
       \<or> (\<forall>p\<in>frames f n. p < 32768 \<and> \<not> marked s p) \<and> used_frames s' = used_frames s \<union> frames f n
         \<and> unat f mod 4096 = 0 \<and> total_available s' = total_available s - n
         \<and> total_allocated s' = total_allocated s + n)"
proof -
  obtain f s' where g: "get_pages ke n s = Some (f, s')"
    and c: "f = 0 \<and> used_frames s' = used_frames s \<or>
      (\<exists>b s0. marked s0 = marked s \<and> total_available s0 = total_available s
         \<and> total_allocated s0 = total_allocated s \<and> took_frames b s0 (unat n) f s')"
    using get_pages_spec [OF assms, of ke s] by blast
  show ?thesis
  proof (cases "f = 0 \<and> used_frames s' = used_frames s")
    case False
    then obtain b s0 where e: "marked s0 = marked s" "total_available s0 = total_available s"
      "total_allocated s0 = total_allocated s" and t: "took_frames b s0 (unat n) f s'" using c by blast
    have "frames f n = {b..<b + unat n}" using took_frames_used(1) [OF t] by (simp add: frames_def)
    with t e took_frames_used [OF t] g show ?thesis
      by (auto simp: took_frames_def used_frames_def)
  qed (use g in auto)
qed

text \<open>
  C2: Two successive successful allocations never overlap, and giving the first back leaves
  the second in use.
\<close>

theorem get_pages_disjoint:
  assumes "get_pages ke n s = Some (f, s1)" "f \<noteq> 0" "unat n < 32768" "n \<noteq> 0"
    and "get_pages ke k s1 = Some (g, s2)" "g \<noteq> 0" "unat k < 32768"
  shows "frames f n \<inter> frames g k = {}
    \<and> (\<exists>r s3. put_pages f n s2 = Some (r, s3) \<and> frames g k \<subseteq> used_frames s3
         \<and> used_frames s3 \<inter> frames f n = {})"
  using pmm_frames.get_get_disjoint [OF assms] by blast

definition available_ok :: "'a pmm_scheme \<Rightarrow> bool" where
  "available_ok s \<longleftrightarrow> unat (total_available s) + card (used_frames s) = 32768"

lemma finite_used [simp]: "finite (used_frames s)"
  by (simp add: used_frames_def)

lemma card_frames [simp]: "card (frames f n) = unat n" "finite (frames f n)"
  by (simp_all add: frames_def)

lemma available_after_get:
  assumes ok: "available_ok s" and n: "unat n < 32768" and g: "get_pages ke n s = Some (f, s')"
  shows "available_ok s'"
proof -
  from get_pages_spec [OF n, of ke s] g have
    "used_frames s' = used_frames s \<and> total_available s' = total_available s
     \<or> (\<exists>b s0. marked s0 = marked s \<and> total_available s0 = total_available s
         \<and> took_frames b s0 (unat n) f s')" by auto
  then show ?thesis
  proof (elim disjE exE conjE)
    fix b s0 assume e: "marked s0 = marked s" "total_available s0 = total_available s"
      and t: "took_frames b s0 (unat n) f s'"
    have u: "used_frames s0 = used_frames s" using e(1) by (simp add: used_frames_def)
    note t' = took_frames_used [OF t, unfolded u]
    have "card (used_frames s') = card (used_frames s) + unat n"
      unfolding t'(3) using t'(2) by (subst card_Un_disjoint) auto
    moreover have "card (used_frames s') \<le> card {..<32768 :: nat}"
      by (intro card_mono) (auto simp: used_frames_def)
    moreover have "total_available s' = total_available s - n" using t e by (simp add: took_frames_def)
    ultimately show ?thesis using ok by (simp add: available_ok_def unat_sub word_le_nat_alt)
  qed (use ok in \<open>simp add: available_ok_def\<close>)
qed

lemma available_after_put:
  assumes ok: "available_ok s" and "f \<noteq> 0" "n \<noteq> 0" "unat f div 4096 + unat n \<le> 32768"
    and p: "put_pages f n s = Some (r, s')"
  shows "available_ok s'"
proof -
  let ?c = "card (used_frames s \<inter> frames f n)"
  from put_pages_spec [OF assms(2-4), of s] p
  have m: "marked s' = (\<lambda>p. p \<notin> frames f n \<and> marked s p)"
    and a: "total_available s' = total_available s + of_nat ?c" by auto
  have "used_frames s' = used_frames s - frames f n" using m by (auto simp: used_frames_def)
  then have "card (used_frames s') + ?c = card (used_frames s)"
    using card_Diff_subset_Int [of "used_frames s" "frames f n"] card_mono [of "used_frames s" "used_frames s \<inter> frames f n"]
    by simp
  moreover from this have "unat (total_available s + of_nat ?c) = unat (total_available s) + ?c"
    using ok by (simp add: available_ok_def unat_word_ariths unat_of_nat)
  ultimately show ?thesis using ok a by (simp add: available_ok_def)
qed

text \<open>
  C22: The counter of available pages tracks the bitmap: \<^verbatim>\<open>get_pages\<close>, and \<^verbatim>\<open>put_pages\<close> of any
  range inside the bitmap (also one that is partly or not in use), keep "available + number of
  marked frames = 32768".
\<close>

theorem available_invariant:
  assumes "available_ok s"
  shows "(\<forall>ke n f s'. unat n < 32768 \<and> get_pages ke n s = Some (f, s') \<longrightarrow> available_ok s')
    \<and> (\<forall>f n r s'. f \<noteq> 0 \<and> n \<noteq> 0 \<and> unat f div 4096 + unat n \<le> 32768 \<and> put_pages f n s = Some (r, s')
      \<longrightarrow> available_ok s')"
  using available_after_get [OF assms] available_after_put [OF assms] by blast

text \<open>A machine with 128 MiB of free memory.\<close>

definition all_free :: pmm where
  "all_free = \<lparr>pm_bitmap = \<lambda>_. 0, alloc_start = 256, total_pages = 32768,
     total_allocated = 0, total_available = 32768\<rparr>"

lemma all_free_marked [simp]: "\<not> marked all_free p"
  by (simp add: marked_def all_free_def)

lemma all_free_fields [simp]:
  "alloc_start all_free = 256" "total_available all_free = 32768"
  by (simp_all add: all_free_def)

theorem available_invariant_witness:
  "\<exists>f s'. get_pages 0x100000 5 all_free = Some (f, s') \<and> available_ok s'"
proof -
  have "available_ok all_free" by (simp add: available_ok_def used_frames_def)
  moreover obtain f s' where "get_pages 0x100000 5 all_free = Some (f, s')"
    using get_pages_spec [of 5 "0x100000" all_free] by auto
  ultimately show ?thesis
    using available_invariant [of all_free, THEN conjunct1, rule_format, of 5 "0x100000" f s'] by auto
qed

text \<open>
  C13: A request for one page succeeds whenever one of the first 32767 frames is free (and the
  counter admits it): the rotating search misses none of them. The result is the address of a
  frame that was free, possibly frame 0.
\<close>

theorem get_page_complete:
  assumes "\<not> marked s p" and "p < 32767" and "1 \<le> total_available s"
    and "unat (alloc_start s) \<le> 32768" and "alloc_start s \<noteq> -1"
  shows "\<exists>f s' q. get_page ke s = Some (f, s') \<and> unat f = 4096 * q \<and> \<not> marked s q \<and> q < 32768
    \<and> marked s' = (\<lambda>p. p = q \<or> marked s p)"
proof -
  let ?a = "unat (alloc_start s)"
  define off0 where "off0 = (let d = (p + 32767 * 2 - ?a) mod 32767 in if d = 0 then 32767 else d)"
  have "(off0 + ?a) mod 32767 = (p + 32767 * 2 - ?a + ?a) mod 32767"
    unfolding off0_def Let_def by (auto simp: mod_simps)
  also have "p + 32767 * 2 - ?a + ?a = p + 32767 * 2" using assms(4) by simp
  also have "\<dots> mod 32767 = p" using assms(2) by (simp only: mod_mult_self2 mod_less)
  finally have free: "\<not> marked s ((off0 + ?a) mod 32767)" using assms(1) by simp
  have r: "1 \<le> off0" "off0 \<le> 32767" by (auto simp: off0_def Let_def)
  have "?a + 32767 < 2 ^ 32" using assms(4) by simp
  from search_one [OF this r(2) free, of 1] r(1) obtain f s' b
    where "search_pages 1 s 1 = Some (f, s')" and t: "took_frames b s 1 f s'" by auto
  then have "get_page ke s = Some (f, s')"
    using assms(3,5) by (auto simp: get_page_def get_pages_def)
  with t show ?thesis by (auto simp: took_frames_def le_less_Suc_eq less_Suc_eq_le intro!: exI)
qed

theorem get_page_complete_witness:
  "\<exists>f s'. get_page 0x100000 all_free = Some (f, s') \<and> (\<exists>q. unat f = 4096 * q \<and> q < 32768)"
  using get_page_complete [of all_free 5 "0x100000"] by auto

theorem get_pages_correct_witness:
  "\<exists>f s'. get_pages 0x100000 2 all_free = Some (f, s')"
  using get_pages_correct [of 2 "0x100000" all_free] by auto

lemma get_first_pages:
  "\<exists>f s1 g s2. get_pages ke 2 all_free = Some (f, s1) \<and> unat f = 257 * 4096
    \<and> get_pages ke 3 s1 = Some (g, s2) \<and> unat g = 260 * 4096"
proof -
  have u: "unat (2 :: u32) = Suc (Suc 0)" "unat (3 :: u32) = Suc (Suc (Suc 0))" by simp_all
  have "free_run all_free 257 (unat (2 :: u32)) 0 = Some 2"
    unfolding u by (simp add: page_marked_eq)
  from search_hit [of 2 1 257 all_free, OF _ _ _ this] obtain f s1
    where 1: "search_pages 2 all_free 1 = Some (f, s1)" "took_frames 257 all_free 2 f s1" by auto
  have s1: "alloc_start s1 = 259" "total_available s1 = 32766" "marked s1 = (\<lambda>p. 257 \<le> p \<and> p < 259)"
    using 1(2) by (auto simp: took_frames_def)
  have "free_run s1 260 (unat (3 :: u32)) 0 = Some 3"
    unfolding u by (simp add: page_marked_eq s1)
  from search_hit [of 3 1 260 s1, OF _ _ _ this] s1 obtain g s2
    where "search_pages 3 s1 1 = Some (g, s2)" "took_frames 260 s1 3 g s2" by auto
  with 1 s1 show ?thesis by (auto simp: get_pages_def took_frames_def intro!: exI)
qed

theorem get_pages_disjoint_witness:
  "\<exists>f s1 g s2 r s3. get_pages 0x100000 2 all_free = Some (f, s1) \<and> get_pages 0x100000 3 s1 = Some (g, s2)
    \<and> frames f 2 \<inter> frames g 3 = {} \<and> put_pages f 2 s2 = Some (r, s3) \<and> frames g 3 \<subseteq> used_frames s3"
proof -
  obtain f s1 g s2 where g: "get_pages 0x100000 2 all_free = Some (f, s1)" "unat f = 257 * 4096"
    "get_pages 0x100000 3 s1 = Some (g, s2)" "unat g = 260 * 4096" using get_first_pages by blast
  then have "f \<noteq> 0" "g \<noteq> 0" by auto
  then show ?thesis using get_pages_disjoint [OF g(1) _ _ _ g(3)] g by auto
qed

text \<open>The pages of a region are in use after it has been marked.\<close>

lemma unat_frame_of: "unat (drop_bit PAGE_BITS (a :: u32)) = unat a div 4096"
  unfolding drop_bit_eq_div unat_div by simp

lemma mark_used_marked:
  "mark_used a s = Some s' \<Longrightarrow> marked s' p \<longleftrightarrow> p = unat a div 4096 \<or> marked s p"
  unfolding mark_used_def page_set_mark_eq unat_frame_of by (auto split: if_splits)

lemma mark_region_keeps: "mark_region a e s = Some s' \<Longrightarrow> marked s p \<Longrightarrow> marked s' p"
proof -
  assume r: "mark_region a e s = Some s'" and "marked s p"
  have "marked s p \<longrightarrow> marked s' p"
  proof (rule mark_region.raw_induct [where P = "\<lambda>a e s s'. marked s p \<longrightarrow> marked s' p", OF _ r])
    fix rec a e and s s' :: "'b pmm_scheme"
    assume "\<And>a e s s'. rec a e s = Some s' \<Longrightarrow> marked s p \<longrightarrow> marked s' p"
      and "(if a < e then case mark_used a s of None \<Rightarrow> None | Some s' \<Rightarrow> rec (a + PAGE_SIZE) e s' else Some s) = Some s'"
    then show "marked s p \<longrightarrow> marked s' p"
      by (auto simp: mark_used_marked split: if_splits option.splits)
  qed
  with \<open>marked s p\<close> show "marked s' p" by blast
qed

lemma mark_region_marks:
  "mark_region a e s = Some s' \<Longrightarrow> unat e \<le> 2 ^ 27 \<Longrightarrow> a \<le> x \<Longrightarrow> x < e \<Longrightarrow> unat a mod 4096 = 0 \<Longrightarrow>
   marked s' (unat x div 4096)"
proof (induction "2 ^ 27 - unat a" arbitrary: a s rule: less_induct)
  case less
  from less.prems(3,4) have "a < e" by simp
  with less.prems(1) obtain s1 where s1: "mark_used a s = Some s1" "mark_region (a + PAGE_SIZE) e s1 = Some s'"
    by (subst (asm) mark_region.simps) (auto split: option.splits)
  have ua: "unat a < 2 ^ 27" using \<open>a < e\<close> less.prems(2) by (simp add: word_less_nat_alt)
  then have u: "unat (a + PAGE_SIZE) = unat a + 4096" by (simp add: unat_word_ariths)
  show ?case
  proof (cases "unat x < unat a + 4096")
    case True
    have le: "unat a \<le> unat x" using less.prems(3) by (simp add: word_le_nat_alt)
    obtain q where q: "unat a = 4096 * q" using less.prems(5) by (metis mod_0_imp_dvd dvdE)
    then have "unat x div 4096 = q" using le True by (intro div_nat_eqI) simp_all
    then have "unat x div 4096 = unat a div 4096" using q by simp
    then have "marked s1 (unat x div 4096)" using mark_used_marked [OF s1(1)] by simp
    then show ?thesis by (rule mark_region_keeps [OF s1(2)])
  next
    case False
    then have "a + PAGE_SIZE \<le> x" using u by (simp only: word_le_nat_alt)
    then show ?thesis using less.hyps [of "a + PAGE_SIZE" s1] u ua s1(2) less.prems by simp
  qed
qed

text \<open>
  Whatever the boot loader reports as available, after the initialisation of the bitmap
  every frame of the kernel image is in use, so the allocator never hands it out.
\<close>

theorem kernel_frames_reserved:
  assumes "init_bitmap mb_info kstart kend s = Some s'" and "unat kstart mod 4096 = 0"
    and "unat kend \<le> 2 ^ 27" and "kstart \<le> x" and "x < kend"
  shows "marked s' (unat x div 4096)"
  using assms mark_region_marks [of kstart kend _ s' x]
  by (auto simp: init_bitmap_def split: option.splits)

theorem kernel_frames_reserved_witness:
  "\<exists>s'. init_bitmap None 0x100000 0x102000 all_free = Some s' \<and> marked s' 257"
proof -
  obtain s' where s': "mark_region 0x100000 0x102000 all_free = Some s'"
    by (simp add: mark_region.simps [of "0x100000"] mark_region.simps [of "0x101000"]
        mark_region.simps [of "0x102000"] mark_used_def page_set_mark_eq unat_frame_of)
  then have "init_bitmap None 0x100000 0x102000 all_free = Some s'" by (simp add: init_bitmap_def)
  with kernel_frames_reserved [OF this, of "0x101000"] show ?thesis by simp
qed

end
