(* ===== verification/Vma.thy ===== *)
theory Vma
  imports Pmm
begin

text \<open>
  Virtual memory areas, \<^verbatim>\<open>mm/vma.c\<close>: a doubly linked list of areas for the kernel and one for
  each task, in a store of \<^verbatim>\<open>vma_t\<close> structures addressed by 32-bit pointers (0 is null). The
  memory state extends the one of the physical allocator, because the lists take their nodes
  from \<^verbatim>\<open>kmalloc\<close>, which in turn calls \<^verbatim>\<open>vma_alloc\<close> and \<^verbatim>\<open>get_pages\<close>: here \<^verbatim>\<open>kmalloc\<close> and
  \<^verbatim>\<open>kfree\<close> are arguments, which the theory \<open>Kmalloc\<close> instantiates with the kernel's own.
\<close>

section \<open>State\<close>

record vma =
  v_start :: u32
  v_end :: u32
  v_flags :: u32
  v_next :: addr
  v_prev :: addr

text \<open>A list is the kernel's or the one of a task.\<close>

datatype vlist = Kernel_List | Task_List u32

record vmm = pmm +
  vma_at :: "addr \<Rightarrow> vma"
  vma_heads :: "vlist \<Rightarrow> addr"
  current_id :: u32

definition VMA_READ :: u32 where [simp]: "VMA_READ = 1"
definition VMA_WRITE :: u32 where [simp]: "VMA_WRITE = 2"
definition VMA_EXECUTE :: u32 where [simp]: "VMA_EXECUTE = 4"
definition VMA_CACHEABLE :: u32 where [simp]: "VMA_CACHEABLE = 8"
definition VMA_USER :: u32 where [simp]: "VMA_USER = 32"
definition VMA_HEAP :: u32 where [simp]: "VMA_HEAP = 11"
definition VMA_KERN_MIN :: u32 where [simp]: "VMA_KERN_MIN = 0xC0000"
definition VMA_KERN_MAX :: u32 where [simp]: "VMA_KERN_MAX = 0x40000000"
definition VMA_USER_MIN :: u32 where [simp]: "VMA_USER_MIN = 0x40000000"
definition VMA_USER_MAX :: u32 where [simp]: "VMA_USER_MAX = 0xFF400000"

text \<open>The size of \<^verbatim>\<open>vma_t\<close>: five 32-bit fields.\<close>

definition SIZEOF_VMA :: u32 where [simp]: "SIZEOF_VMA = 20"

definition upd_vma :: "addr \<Rightarrow> (vma \<Rightarrow> vma) \<Rightarrow> 'a vmm_scheme \<Rightarrow> 'a vmm_scheme" where
  "upd_vma p f s = s\<lparr>vma_at := (vma_at s)(p := f (vma_at s p))\<rparr>"

definition upd_vma_opt :: "addr \<Rightarrow> (vma \<Rightarrow> vma) \<Rightarrow> 'a vmm_scheme \<Rightarrow> 'a vmm_scheme" where
  "upd_vma_opt p f s = (if p = 0 then s else upd_vma p f s)"

definition set_head :: "vlist \<Rightarrow> addr \<Rightarrow> 'a vmm_scheme \<Rightarrow> 'a vmm_scheme" where
  "set_head l p s = s\<lparr>vma_heads := (vma_heads s)(l := p)\<rparr>"

section \<open>Operations\<close>

text \<open>
  The first-fit search of \<^verbatim>\<open>vma_alloc\<close>, from the gap between \<open>pred\<close> and \<open>succ\<close>; \<open>Some None\<close> is
  the label \<^verbatim>\<open>fail\<close>, otherwise the gap found and its start. A cyclic list may be searched for
  ever.
\<close>

partial_function (option) search_gap ::
  "'a vmm_scheme \<Rightarrow> u32 \<Rightarrow> u32 \<Rightarrow> u32 \<Rightarrow> addr \<Rightarrow> addr \<Rightarrow> (addr \<times> addr \<times> u32) option option" where
  "search_gap s base limit sz pred succ =
     (let start = (if pred \<noteq> 0 then v_end (vma_at s pred) else base);
          stop = (if succ \<noteq> 0 then v_start (vma_at s succ) else limit)
      in if start + sz < stop \<and> start \<ge> base \<and> start + sz < limit
         then Some (Some (pred, succ, start))
         else let pred' = succ; succ' = (if pred' \<noteq> 0 then v_next (vma_at s pred') else 0)
              in if pred' \<noteq> 0 \<or> succ' \<noteq> 0 then search_gap s base limit sz pred' succ'
                 else Some None)"

text \<open>The node is linked in at the place found before the call of \<^verbatim>\<open>kmalloc\<close>.\<close>

definition link_new :: "vlist \<Rightarrow> addr \<Rightarrow> addr \<Rightarrow> addr \<Rightarrow> u32 \<Rightarrow> u32 \<Rightarrow> u32 \<Rightarrow> 'a vmm_scheme \<Rightarrow> 'a vmm_scheme" where
  "link_new l new pred succ start stop flags s0 =
     (let s1 = upd_vma new (\<lambda>_. \<lparr>v_start = start, v_end = stop, v_flags = flags,
                               v_next = succ, v_prev = pred\<rparr>) s0;
          s2 = (if succ \<noteq> 0 then upd_vma succ (\<lambda>v. v\<lparr>v_prev := new\<rparr>) s1 else s1)
      in if pred \<noteq> 0 then upd_vma pred (\<lambda>v. v\<lparr>v_next := new\<rparr>) s2 else set_head l new s2)"

definition vma_alloc ::
  "(u32 \<Rightarrow> 'a vmm_scheme \<Rightarrow> (addr \<times> 'a vmm_scheme) option) \<Rightarrow> u32 \<Rightarrow> u32 \<Rightarrow> 'a vmm_scheme
     \<Rightarrow> (u32 \<times> 'a vmm_scheme) option" where
  "vma_alloc kmalloc sz flags s =
     (let (base, limit, l) =
            (if has_flag flags VMA_USER then (VMA_USER_MIN, VMA_USER_MAX, Task_List (current_id s))
             else (VMA_KERN_MIN, VMA_KERN_MAX, Kernel_List))
      in case search_gap s base limit sz 0 (vma_heads s l) of
           None \<Rightarrow> None
         | Some None \<Rightarrow> Some (0, s)
         | Some (Some (pred, succ, start)) \<Rightarrow>
             if pred \<noteq> 0 \<and> v_flags (vma_at s pred) = flags
             then Some (start, upd_vma pred (\<lambda>v. v\<lparr>v_end := start + sz\<rparr>) s)
             else (case kmalloc SIZEOF_VMA s of
                 None \<Rightarrow> None
               | Some (new, s') \<Rightarrow>
                   if new = 0 then Some (0, s')
                   else Some (start, link_new l new pred succ start (start + sz) flags s')))"

partial_function (option) find_area :: "'a vmm_scheme \<Rightarrow> u32 \<Rightarrow> u32 \<Rightarrow> addr \<Rightarrow> addr option" where
  "find_area s start stop p =
     (if p = 0 then Some 0
      else if start \<ge> v_start (vma_at s p) \<and> stop \<le> v_end (vma_at s p) then Some p
      else find_area s start stop (v_next (vma_at s p)))"

text \<open>
  \<^verbatim>\<open>vma_free\<close>: the whole area, its beginning, its end or a hole in the middle. The hole's new
  node keeps whatever flags its memory held, and its successor keeps its old back link.
\<close>

definition vma_free ::
  "(u32 \<Rightarrow> 'a vmm_scheme \<Rightarrow> (addr \<times> 'a vmm_scheme) option) \<Rightarrow> (addr \<Rightarrow> 'a vmm_scheme \<Rightarrow> 'a vmm_scheme option)
     \<Rightarrow> u32 \<Rightarrow> u32 \<Rightarrow> 'a vmm_scheme \<Rightarrow> (int \<times> 'a vmm_scheme) option" where
  "vma_free kmalloc kfree start stop s =
     (if start \<ge> stop then Some (- EINVAL, s)
      else case (if stop < VMA_KERN_MAX then Some Kernel_List
                 else if start \<ge> VMA_KERN_MAX then Some (Task_List (current_id s)) else None) of
        None \<Rightarrow> Some (- EINVAL, s)
      | Some l \<Rightarrow>
          if vma_heads s l = 0 then Some (- EINVAL, s)
          else (case find_area s start stop (vma_heads s l) of
              None \<Rightarrow> None
            | Some p \<Rightarrow>
                if p = 0 then Some (- EINVAL, s)
                else let v = vma_at s p in
                  if start = v_start v \<and> stop = v_end v then
                    (let s1 = (if p = vma_heads s l then set_head l (v_next v) s else s);
                         s2 = upd_vma_opt (v_prev v) (\<lambda>w. w\<lparr>v_next := v_next v\<rparr>) s1;
                         s3 = upd_vma_opt (v_next (vma_at s2 p)) (\<lambda>w. w\<lparr>v_prev := v_prev (vma_at s2 p)\<rparr>) s2
                     in map_option (Pair 0) (kfree p s3))
                  else if start = v_start v then Some (0, upd_vma p (\<lambda>w. w\<lparr>v_start := stop\<rparr>) s)
                  else if stop = v_end v then Some (0, upd_vma p (\<lambda>w. w\<lparr>v_end := start\<rparr>) s)
                  else (case kmalloc SIZEOF_VMA s of
                      None \<Rightarrow> None
                    | Some (new, s0) \<Rightarrow>
                        if new = 0 then Some (- ENOMEM, s0)
                        else let s1 = upd_vma new (\<lambda>w. w\<lparr>v_end := v_end (vma_at s0 p)\<rparr>) s0;
                                 s2 = upd_vma p (\<lambda>w. w\<lparr>v_end := start\<rparr>) s1;
                                 s3 = upd_vma new (\<lambda>w. w\<lparr>v_start := stop\<rparr>) s2;
                                 s4 = upd_vma new (\<lambda>w. w\<lparr>v_next := v_next (vma_at s3 p)\<rparr>) s3;
                                 s5 = upd_vma p (\<lambda>w. w\<lparr>v_next := new\<rparr>) s4
                             in Some (0, upd_vma new (\<lambda>w. w\<lparr>v_prev := p\<rparr>) s5))))"

partial_function (option) search_place ::
  "'a vmm_scheme \<Rightarrow> u32 \<Rightarrow> u32 \<Rightarrow> addr \<Rightarrow> addr \<Rightarrow> (addr \<times> addr) option" where
  "search_place s start stop pred succ =
     (if pred \<noteq> 0 \<or> succ \<noteq> 0 then
        (if (pred = 0 \<or> v_end (vma_at s pred) \<le> start) \<and> (succ = 0 \<or> v_start (vma_at s succ) \<ge> stop)
         then Some (pred, succ)
         else search_place s start stop succ (if succ \<noteq> 0 then v_next (vma_at s succ) else 0))
      else Some (pred, succ))"

definition vma_add ::
  "(u32 \<Rightarrow> 'a vmm_scheme \<Rightarrow> (addr \<times> 'a vmm_scheme) option) \<Rightarrow> u32 \<Rightarrow> u32 \<Rightarrow> u32 \<Rightarrow> 'a vmm_scheme
     \<Rightarrow> (int \<times> 'a vmm_scheme) option" where
  "vma_add kmalloc start stop flags s =
     (if start \<ge> stop then Some (- EINVAL, s)
      else if has_flag flags VMA_USER \<and> start < VMA_KERN_MAX then Some (- EINVAL, s)
      else if \<not> has_flag flags VMA_USER \<and> stop \<ge> VMA_KERN_MAX then Some (- EINVAL, s)
      else let l = (if has_flag flags VMA_USER then Task_List (current_id s) else Kernel_List) in
        (case search_place s start stop 0 (vma_heads s l) of
           None \<Rightarrow> None
         | Some (pred, succ) \<Rightarrow>
             if vma_heads s l \<noteq> 0 \<and> pred = 0 \<and> succ = 0 then Some (- EINVAL, s)
             else (case kmalloc SIZEOF_VMA s of
                 None \<Rightarrow> None
               | Some (new, s') \<Rightarrow>
                   if new = 0 then Some (- ENOMEM, s')
                   else Some (0, link_new l new pred succ start stop flags s'))))"

text \<open>Copying and dropping the list of a task.\<close>

partial_function (option) copy_nodes ::
  "(u32 \<Rightarrow> 'a vmm_scheme \<Rightarrow> (addr \<times> 'a vmm_scheme) option) \<Rightarrow> u32 \<Rightarrow> addr \<Rightarrow> addr \<Rightarrow> 'a vmm_scheme
     \<Rightarrow> (int \<times> 'a vmm_scheme) option" where
  "copy_nodes kmalloc dest old lst s =
     (if old = 0 then Some (0, s)
      else (case kmalloc SIZEOF_VMA s of
          None \<Rightarrow> None
        | Some (new, s) \<Rightarrow>
            if new = 0 then Some (- ENOMEM, s)
            else let s1 = upd_vma new (\<lambda>w. w\<lparr>v_start := v_start (vma_at s old), v_end := v_end (vma_at s old),
                                         v_flags := v_flags (vma_at s old), v_prev := lst\<rparr>) s;
                     s2 = (if lst \<noteq> 0 then upd_vma lst (\<lambda>w. w\<lparr>v_next := new\<rparr>) s1
                           else set_head (Task_List dest) new s1)
                 in copy_nodes kmalloc dest (v_next (vma_at s2 old)) new s2))"

definition copy_vma_list ::
  "(u32 \<Rightarrow> 'a vmm_scheme \<Rightarrow> (addr \<times> 'a vmm_scheme) option) \<Rightarrow> u32 \<Rightarrow> u32 \<Rightarrow> 'a vmm_scheme
     \<Rightarrow> (int \<times> 'a vmm_scheme) option" where
  "copy_vma_list kmalloc src dest s = copy_nodes kmalloc dest (vma_heads s (Task_List src)) 0 s"

partial_function (option) drop_vma_list ::
  "(addr \<Rightarrow> 'a vmm_scheme \<Rightarrow> 'a vmm_scheme option) \<Rightarrow> u32 \<Rightarrow> 'a vmm_scheme \<Rightarrow> (int \<times> 'a vmm_scheme) option" where
  "drop_vma_list kfree task s =
     (let p = vma_heads s (Task_List task) in
      if p \<noteq> 0 then
        (case kfree p (set_head (Task_List task) (v_next (vma_at s p)) s) of
           None \<Rightarrow> None | Some s' \<Rightarrow> drop_vma_list kfree task s')
      else Some (0, s))"

text \<open>
  \<^verbatim>\<open>vma_init\<close> reserves the kernel, the video memory and what the boot loader passed; the
  result of reserving the module table itself is ignored.
\<close>

definition VIDEO_MEM_ADDR :: u32 where [simp]: "VIDEO_MEM_ADDR = 0xB8000"
definition SIZEOF_MULTIBOOT_INFO :: u32 where [simp]: "SIZEOF_MULTIBOOT_INFO = 88"

fun vma_add_modules ::
  "(u32 \<Rightarrow> 'a vmm_scheme \<Rightarrow> (addr \<times> 'a vmm_scheme) option) \<Rightarrow> (nat \<Rightarrow> u32 \<times> u32) \<Rightarrow> nat list
     \<Rightarrow> 'a vmm_scheme \<Rightarrow> (int \<times> 'a vmm_scheme) option" where
  "vma_add_modules kmalloc mods [] s = Some (0, s)"
| "vma_add_modules kmalloc mods (i # is) s =
     (case vma_add kmalloc (PAGE_CEIL (fst (mods i))) (PAGE_FLOOR (snd (mods i)))
             (VMA_READ OR VMA_WRITE OR VMA_CACHEABLE) s of
        None \<Rightarrow> None
      | Some (ret, s) \<Rightarrow> if ret \<noteq> 0 then Some (ret, s) else vma_add_modules kmalloc mods is s)"

definition vma_init ::
  "(u32 \<Rightarrow> 'a vmm_scheme \<Rightarrow> (addr \<times> 'a vmm_scheme) option) \<Rightarrow> (addr \<times> multiboot_info) option
     \<Rightarrow> addr \<Rightarrow> addr \<Rightarrow> 'a vmm_scheme \<Rightarrow> (int \<times> 'a vmm_scheme) option" where
  "vma_init kmalloc mb_info kernel_start kernel_end s =
     (case vma_add kmalloc (PAGE_CEIL kernel_start) (PAGE_FLOOR kernel_end)
             (VMA_READ OR VMA_WRITE OR VMA_EXECUTE OR VMA_CACHEABLE) s of
        None \<Rightarrow> None
      | Some (ret, s) \<Rightarrow> if ret \<noteq> 0 then Some (ret, s) else
     (case vma_add kmalloc VIDEO_MEM_ADDR (VIDEO_MEM_ADDR + PAGE_SIZE) (VMA_READ OR VMA_WRITE) s of
        None \<Rightarrow> None
      | Some (ret, s) \<Rightarrow> if ret \<noteq> 0 then Some (ret, s) else
     (case mb_info of
        None \<Rightarrow> Some (ret, s)
      | Some (mb_addr, mb) \<Rightarrow>
     (case vma_add kmalloc (PAGE_CEIL mb_addr) (PAGE_FLOOR (mb_addr + SIZEOF_MULTIBOOT_INFO))
             (VMA_READ OR VMA_CACHEABLE) s of
        None \<Rightarrow> None
      | Some (ret, s) \<Rightarrow> if ret \<noteq> 0 then Some (ret, s) else
        if has_flag (mb_flags mb) MULTIBOOT_INFO_MODS
        then (case vma_add kmalloc (PAGE_CEIL (mods_addr mb)) (PAGE_FLOOR (mods_addr mb + mods_count mb * 16))
                     (VMA_READ OR VMA_CACHEABLE) s of
                None \<Rightarrow> None
              | Some (_, s) \<Rightarrow> vma_add_modules kmalloc (mb_mods mb) [0..<unat (mods_count mb)] s)
        else Some (ret, s)))))"

section \<open>Well-formed lists of areas\<close>

definition ptr_opt :: "addr \<Rightarrow> addr option" where
  "ptr_opt p = (if p = 0 then None else Some p)"

definition ptr_of :: "addr option \<Rightarrow> addr" where
  "ptr_of p = (case p of None \<Rightarrow> 0 | Some a \<Rightarrow> a)"

lemma ptr_simps [simp]:
  "ptr_opt 0 = None" "a \<noteq> 0 \<Longrightarrow> ptr_opt a = Some a" "ptr_of None = 0" "ptr_of (Some a) = a"
  "ptr_of (ptr_opt a) = a"
  by (simp_all add: ptr_opt_def ptr_of_def)

lemma ptr_opt_iff: "ptr_opt a = p \<Longrightarrow> a = ptr_of p"
  by auto

definition vnexts :: "'a vmm_scheme \<Rightarrow> addr \<Rightarrow> addr option" where
  "vnexts s p = ptr_opt (v_next (vma_at s p))"

definition vprevs :: "'a vmm_scheme \<Rightarrow> addr \<Rightarrow> addr option" where
  "vprevs s p = ptr_opt (v_prev (vma_at s p))"

definition starts :: "'a vmm_scheme \<Rightarrow> addr \<Rightarrow> u32" where
  "starts s p = v_start (vma_at s p)"

definition ends :: "'a vmm_scheme \<Rightarrow> addr \<Rightarrow> u32" where
  "ends s p = v_end (vma_at s p)"

text \<open>Areas that follow one another without overlap, from the address \<open>lo\<close> on.\<close>

fun in_order :: "(addr \<Rightarrow> u32) \<Rightarrow> (addr \<Rightarrow> u32) \<Rightarrow> u32 \<Rightarrow> addr list \<Rightarrow> bool" where
  "in_order st en lo [] \<longleftrightarrow> True"
| "in_order st en lo (x # xs) \<longleftrightarrow> lo \<le> st x \<and> st x \<le> en x \<and> in_order st en (en x) xs"

definition vmas :: "'a vmm_scheme \<Rightarrow> vlist \<Rightarrow> addr list \<Rightarrow> bool" where
  "vmas s l xs \<longleftrightarrow>
     distinct xs \<and> 0 \<notin> set xs \<and> chain (vnexts s) (vprevs s) None xs None
     \<and> ptr_opt (vma_heads s l) = first_or xs None \<and> in_order (starts s) (ends s) 0 xs"

definition area :: "'a vmm_scheme \<Rightarrow> addr \<Rightarrow> nat set" where
  "area s x = {unat (starts s x) ..< unat (ends s x)}"

definition covered :: "'a vmm_scheme \<Rightarrow> addr list \<Rightarrow> nat set" where
  "covered s xs = (\<Union>x\<in>set xs. area s x)"

named_theorems vma_simps \<open>reading an updated store of areas\<close>

lemma fields_upd_vma [vma_simps]:
  "vnexts (upd_vma p f s) = (vnexts s)(p := ptr_opt (v_next (f (vma_at s p))))"
  "vprevs (upd_vma p f s) = (vprevs s)(p := ptr_opt (v_prev (f (vma_at s p))))"
  "starts (upd_vma p f s) = (starts s)(p := v_start (f (vma_at s p)))"
  "ends (upd_vma p f s) = (ends s)(p := v_end (f (vma_at s p)))"
  "vma_heads (upd_vma p f s) = vma_heads s"
  by (auto simp: upd_vma_def vnexts_def vprevs_def starts_def ends_def fun_eq_iff)

lemma fields_set_head [vma_simps]:
  "vnexts (set_head l p s) = vnexts s" "vprevs (set_head l p s) = vprevs s"
  "starts (set_head l p s) = starts s" "ends (set_head l p s) = ends s"
  "vma_heads (set_head l p s) = (vma_heads s)(l := p)" "vma_at (set_head l p s) = vma_at s"
  by (auto simp: set_head_def vnexts_def vprevs_def starts_def ends_def fun_eq_iff)

lemma fields_fold_vma [vma_simps]:
  "ptr_opt (v_next (vma_at s p)) = vnexts s p" "ptr_opt (v_prev (vma_at s p)) = vprevs s p"
  "v_start (vma_at s p) = starts s p" "v_end (vma_at s p) = ends s p"
  by (simp_all add: vnexts_def vprevs_def starts_def ends_def)

lemma in_order_upd [vma_simps]:
  "x \<notin> set xs \<Longrightarrow> in_order (st(x := v)) en lo xs = in_order st en lo xs"
  "x \<notin> set xs \<Longrightarrow> in_order st (en(x := v)) lo xs = in_order st en lo xs"
  by (induction xs arbitrary: lo) auto

lemma in_order_append:
  "in_order st en lo (xs @ ys) \<longleftrightarrow>
     in_order st en lo xs \<and> in_order st en (if xs = [] then lo else en (last xs)) ys"
  by (induction xs arbitrary: lo) auto

lemma in_order_mono: "in_order st en lo xs \<Longrightarrow> lo' \<le> lo \<Longrightarrow> in_order st en lo' xs"
  by (cases xs) auto

lemma in_order_le: "in_order st en lo xs \<Longrightarrow> x \<in> set xs \<Longrightarrow> lo \<le> st x \<and> st x \<le> en x"
proof (induction xs arbitrary: lo)
  case (Cons y ys)
  then show ?case using order_trans by fastforce
qed simp

lemma in_order_end: "in_order st en lo xs \<Longrightarrow> x \<in> set xs \<Longrightarrow> en x \<le> en (last xs)"
proof (induction xs arbitrary: lo)
  case (Cons y ys)
  show ?case
  proof (cases "ys = []")
    case False
    have "en y \<le> en (last ys)" using Cons.prems False in_order_le [of st en "en y" ys "last ys"]
      by (meson in_order.simps(2) last_in_set order_trans)
    then show ?thesis using Cons False by auto
  qed (use Cons in auto)
qed simp

lemma link_new_bounds:
  "starts (link_new l new pred succ start stop flags s) = (starts s)(new := start)"
  "ends (link_new l new pred succ start stop flags s) = (ends s)(new := stop)"
  by (auto simp: link_new_def Let_def vma_simps)

lemma link_new_vmas:
  assumes v: "vmas s l (us @ vs)" and new: "new \<notin> set (us @ vs)" "new \<noteq> 0"
    and pred: "pred = ptr_of (last_or None us)" and succ: "succ = ptr_of (first_or vs None)"
    and lo: "us \<noteq> [] \<Longrightarrow> ends s (last us) \<le> start" and le: "start \<le> stop"
    and hi: "vs \<noteq> [] \<Longrightarrow> stop \<le> starts s (hd vs)"
  shows "vmas (link_new l new pred succ start stop flags s) l (us @ new # vs)"
proof -
  let ?s = "link_new l new pred succ start stop flags s"
  have ne: "x \<noteq> 0" if "x \<in> set (us @ vs)" for x using v that by (auto simp: vmas_def)
  have ord: "in_order (starts ?s) (ends ?s) 0 (us @ new # vs)"
    using v new(1) lo le hi in_order_mono [of "starts s" "ends s" _ vs]
    unfolding link_new_bounds vmas_def in_order_append
    by (cases vs) (auto simp: vma_simps)
  have links: "chain (vnexts ?s) (vprevs ?s) None (us @ new # vs) None
      \<and> ptr_opt (vma_heads ?s l) = first_or (us @ new # vs) None"
  proof (cases us rule: rev_cases)
    case Nil
    then show ?thesis using v new ne pred succ
      by (cases vs) (auto simp: link_new_def Let_def vmas_def vma_simps chain_simps)
  next
    case (snoc ts t)
    then show ?thesis using v new ne pred succ
      by (cases vs)
        (auto simp: link_new_def Let_def vmas_def vma_simps chain_simps first_or_eq hd_append)
  qed
  have "distinct (us @ new # vs)" "0 \<notin> set (us @ new # vs)" using v new by (auto simp: vmas_def)
  with ord links show ?thesis by (simp add: vmas_def)
qed

lemma covered_link_new:
  assumes "new \<notin> set (us @ vs)"
  shows "covered (link_new l new pred succ start stop flags s) (us @ new # vs)
    = covered s (us @ vs) \<union> {unat start ..< unat stop}"
proof -
  let ?s = "link_new l new pred succ start stop flags s"
  have "area ?s new = {unat start ..< unat stop}" "\<forall>x\<in>set (us @ vs). area ?s x = area s x"
    using assms by (auto simp: area_def link_new_bounds)
  then show ?thesis by (auto simp: covered_def)
qed

text \<open>The areas before a gap end below it and those after it start above it.\<close>

lemma gap_free:
  assumes v: "vmas s l (us @ vs)" and lo: "us \<noteq> [] \<Longrightarrow> ends s (last us) \<le> start"
    and hi: "vs \<noteq> [] \<Longrightarrow> stop \<le> starts s (hd vs)"
  shows "covered s (us @ vs) \<inter> {unat start ..< unat stop} = {}"
proof -
  have o: "in_order (starts s) (ends s) 0 us" "vs \<noteq> [] \<Longrightarrow> in_order (starts s) (ends s) (starts s (hd vs)) vs"
    using v by (cases vs; auto simp: vmas_def in_order_append)+
  have "ends s x \<le> start" if "x \<in> set us" for x
    using in_order_end [OF o(1) that] lo that by (cases us) auto
  moreover have "stop \<le> starts s x" if "x \<in> set vs" for x
    using in_order_le [OF o(2) that] hi that by (cases vs) auto
  ultimately show ?thesis by (fastforce simp: covered_def area_def word_le_nat_alt)
qed

section \<open>The searches\<close>

definition gap_between :: "'a vmm_scheme \<Rightarrow> u32 \<Rightarrow> u32 \<Rightarrow> u32 \<Rightarrow> addr list \<Rightarrow> addr list \<Rightarrow> u32 \<Rightarrow> bool" where
  "gap_between s base limit sz us vs start \<longleftrightarrow>
     start = (if us = [] then base else ends s (last us)) \<and>
     start + sz < (if vs = [] then limit else starts s (hd vs)) \<and> base \<le> start \<and> start + sz < limit"

lemma search_gap_list:
  assumes v: "vmas s l (us @ vs)" and ne: "us @ vs \<noteq> [] \<or> us = []"
  shows "\<exists>r. search_gap s base limit sz (ptr_of (last_or None us)) (ptr_of (first_or vs None)) = Some r
    \<and> (case r of None \<Rightarrow> True
       | Some (p, q, start) \<Rightarrow> \<exists>us' vs'. us @ vs = us' @ vs' \<and> p = ptr_of (last_or None us')
           \<and> q = ptr_of (first_or vs' None) \<and> gap_between s base limit sz us' vs' start)"
  using assms
proof (induction vs arbitrary: us)
  case Nil
  have nz: "last us \<noteq> 0" if "us \<noteq> []"
    using Nil.prems(1) last_in_set [OF that] by (auto simp: vmas_def)
  let ?start = "if us = [] then base else ends s (last us)"
  show ?case
  proof (cases "gap_between s base limit sz us [] ?start")
    case True
    then have "search_gap s base limit sz (ptr_of (last_or None us)) (ptr_of (first_or [] None)) =
        Some (Some (ptr_of (last_or None us), ptr_of (first_or [] None), ?start))"
      using nz by (subst search_gap.simps) (auto simp: Let_def gap_between_def last_or_eq vma_simps)
    with True show ?thesis
      by (intro exI [of _ "Some (ptr_of (last_or None us), ptr_of (first_or [] None), ?start)"])
        (simp only: option.case prod.case, blast)
  next
    case False
    then show ?thesis using nz
      by (subst search_gap.simps) (auto simp: Let_def gap_between_def last_or_eq vma_simps)
  qed
next
  case (Cons v vs)
  have nz: "last us \<noteq> 0" if "us \<noteq> []"
    using Cons.prems(1) last_in_set [OF that] by (auto simp: vmas_def)
  have nv: "v \<noteq> 0" using Cons.prems(1) by (auto simp: vmas_def)
  let ?start = "if us = [] then base else ends s (last us)"
  show ?case
  proof (cases "gap_between s base limit sz us (v # vs) ?start")
    case True
    then have "search_gap s base limit sz (ptr_of (last_or None us)) (ptr_of (first_or (v # vs) None)) =
        Some (Some (ptr_of (last_or None us), ptr_of (first_or (v # vs) None), ?start))"
      using nz nv by (subst search_gap.simps) (auto simp: Let_def gap_between_def last_or_eq vma_simps)
    with True show ?thesis
      by (intro exI [of _ "Some (ptr_of (last_or None us), ptr_of (first_or (v # vs) None), ?start)"])
        (simp only: option.case prod.case, blast)
  next
    case False
    have nx: "ptr_of (first_or vs None) = v_next (vma_at s v)"
      using Cons.prems(1) by (auto simp: vmas_def chain_simps vnexts_def dest: ptr_opt_iff)
    have "search_gap s base limit sz (ptr_of (last_or None us)) (ptr_of (first_or (v # vs) None))
        = search_gap s base limit sz (ptr_of (last_or None (us @ [v]))) (ptr_of (first_or vs None))"
      using nz nv False nx
      by (subst search_gap.simps) (auto simp: Let_def gap_between_def last_or_eq vma_simps)
    then show ?thesis
      using Cons.IH [of "us @ [v]", unfolded append_assoc append_Cons append_Nil] Cons.prems by simp
  qed
qed

definition place_between :: "'a vmm_scheme \<Rightarrow> u32 \<Rightarrow> u32 \<Rightarrow> addr list \<Rightarrow> addr list \<Rightarrow> bool" where
  "place_between s start stop us vs \<longleftrightarrow>
     (us = [] \<or> ends s (last us) \<le> start) \<and> (vs = [] \<or> stop \<le> starts s (hd vs))"

lemma search_place_list:
  assumes v: "vmas s l (us @ vs)"
  shows "\<exists>p q. search_place s start stop (ptr_of (last_or None us)) (ptr_of (first_or vs None)) = Some (p, q)
    \<and> ((p = 0 \<and> q = 0) \<or> (\<exists>us' vs'. us @ vs = us' @ vs' \<and> p = ptr_of (last_or None us')
           \<and> q = ptr_of (first_or vs' None) \<and> place_between s start stop us' vs'))
    \<and> (us @ vs \<noteq> [] \<and> p = 0 \<and> q = 0 \<longrightarrow> (\<forall>us' vs'. us @ vs = us' @ vs' \<and> length us \<le> length us'
           \<longrightarrow> \<not> place_between s start stop us' vs'))"
  using assms
proof (induction vs arbitrary: us)
  case Nil
  have nz: "last us \<noteq> 0" if "us \<noteq> []"
    using Nil.prems(1) last_in_set [OF that] by (auto simp: vmas_def)
  have e: "search_place s start stop 0 0 = Some (0, 0)" by (subst search_place.simps) simp
  show ?case
  proof (cases "us \<noteq> [] \<and> ends s (last us) \<le> start")
    case True
    then have "search_place s start stop (ptr_of (last_or None us)) (ptr_of (first_or [] None))
        = Some (last us, 0)"
      using nz by (subst search_place.simps) (auto simp: last_or_eq vma_simps)
    then show ?thesis using True nz
      by (auto simp: place_between_def last_or_eq)
  next
    case False
    then have "search_place s start stop (ptr_of (last_or None us)) (ptr_of (first_or [] None)) = Some (0, 0)"
      using nz e by (subst search_place.simps) (auto simp: last_or_eq vma_simps)
    then show ?thesis using False by (auto simp: place_between_def)
  qed
next
  case (Cons v vs)
  have nz: "last us \<noteq> 0" if "us \<noteq> []"
    using Cons.prems(1) last_in_set [OF that] by (auto simp: vmas_def)
  have nv: "v \<noteq> 0" using Cons.prems(1) by (auto simp: vmas_def)
  show ?case
  proof (cases "place_between s start stop us (v # vs)")
    case True
    then have "search_place s start stop (ptr_of (last_or None us)) (ptr_of (first_or (v # vs) None))
        = Some (ptr_of (last_or None us), v)"
      using nz nv by (subst search_place.simps) (auto simp: place_between_def last_or_eq vma_simps)
    then show ?thesis using True nv by (metis first_or.simps(2) ptr_simps(4))
  next
    case False
    have nx: "ptr_of (first_or vs None) = v_next (vma_at s v)"
      using Cons.prems(1) by (auto simp: vmas_def chain_simps vnexts_def dest: ptr_opt_iff)
    have "search_place s start stop (ptr_of (last_or None us)) (ptr_of (first_or (v # vs) None))
        = search_place s start stop (ptr_of (last_or None (us @ [v]))) (ptr_of (first_or vs None))"
      using nz nv False nx
      by (subst search_place.simps) (auto simp: place_between_def last_or_eq vma_simps)
    moreover have "\<not> place_between s start stop us' vs'"
      if "us @ v # vs = us' @ vs'" "length us \<le> length us'" "\<not> length (us @ [v]) \<le> length us'" for us' vs'
    proof -
      have "length us' = length us" using that(2,3) by simp
      with that(1) have "us' = us" "vs' = v # vs" by auto
      with False show ?thesis by simp
    qed
    ultimately show ?thesis
      using Cons.IH [of "us @ [v]", unfolded append_assoc append_Cons append_Nil] Cons.prems
      by (metis append_is_Nil_conv not_Cons_self2)
  qed
qed

text \<open>A place is found whenever the new area overlaps no area of the list.\<close>

lemma place_exists:
  "\<lbrakk>in_order (starts s) (ends s) lo xs; \<forall>x\<in>set xs. ends s x \<le> start \<or> stop \<le> starts s x; start < stop\<rbrakk>
   \<Longrightarrow> \<exists>us vs. xs = us @ vs \<and> place_between s start stop us vs"
proof (induction xs arbitrary: lo)
  case Nil
  then show ?case by (auto simp: place_between_def)
next
  case (Cons x xs)
  show ?case
  proof (cases "stop \<le> starts s x")
    case True
    then have "place_between s start stop [] (x # xs)" by (simp add: place_between_def)
    then show ?thesis by (metis append_Nil)
  next
    case False
    then have x: "ends s x \<le> start" using Cons.prems by auto
    obtain us vs where "xs = us @ vs" "place_between s start stop us vs"
      using Cons.IH [of "ends s x"] Cons.prems by auto
    with x have "place_between s start stop (x # us) vs"
      by (auto simp: place_between_def)
    with \<open>xs = us @ vs\<close> show ?thesis by (metis append_Cons)
  qed
qed

lemma place_iff:
  assumes v: "vmas s l (us @ vs)" and p: "place_between s start stop us vs" and "start < stop"
  shows "\<forall>x\<in>set (us @ vs). ends s x \<le> start \<or> stop \<le> starts s x"
proof -
  have o: "in_order (starts s) (ends s) 0 us" "vs \<noteq> [] \<Longrightarrow> in_order (starts s) (ends s) (starts s (hd vs)) vs"
    using v by (cases vs; auto simp: vmas_def in_order_append)+
  have "ends s x \<le> start" if "x \<in> set us" for x
    using in_order_end [OF o(1) that] p that by (cases us) (auto simp: place_between_def)
  moreover have "stop \<le> starts s x" if "x \<in> set vs" for x
    using in_order_le [OF o(2) that] p that by (cases vs) (auto simp: place_between_def)
  ultimately show ?thesis by auto
qed

lemma extend_last:
  assumes v: "vmas s l ((us @ [x]) @ vs)" and st: "ends s x \<le> stop" and hi: "vs \<noteq> [] \<Longrightarrow> stop \<le> starts s (hd vs)"
  shows "vmas (upd_vma x (\<lambda>w. w\<lparr>v_end := stop\<rparr>) s) l ((us @ [x]) @ vs)
    \<and> covered (upd_vma x (\<lambda>w. w\<lparr>v_end := stop\<rparr>) s) ((us @ [x]) @ vs)
      = covered s ((us @ [x]) @ vs) \<union> {unat (ends s x) ..< unat stop}"
proof -
  let ?s = "upd_vma x (\<lambda>w. w\<lparr>v_end := stop\<rparr>) s"
  have f: "vnexts ?s = vnexts s" "vprevs ?s = vprevs s" "starts ?s = starts s" "ends ?s = (ends s)(x := stop)"
    "vma_heads ?s = vma_heads s"
    by (auto simp: vma_simps fun_eq_iff)
  have x: "x \<notin> set us" "x \<notin> set vs" "starts s x \<le> ends s x"
    using v in_order_le [of "starts s" "ends s" 0 "(us @ [x]) @ vs" x] by (auto simp: vmas_def)
  have "in_order (starts s) ((ends s)(x := stop)) 0 ((us @ [x]) @ vs)"
    using v x st hi unfolding vmas_def in_order_append by (cases vs) (auto simp: vma_simps in_order_append)
  then have "vmas ?s l ((us @ [x]) @ vs)" using v f by (simp add: vmas_def)
  moreover have "\<forall>y\<in>set us \<union> set vs. area ?s y = area s y" "area ?s x = area s x \<union> {unat (ends s x) ..< unat stop}"
    using x st f by (auto simp: area_def word_le_nat_alt)
  ultimately show ?thesis by (auto simp: covered_def)
qed

section \<open>The heap the areas come from\<close>

text \<open>
  What the list operations need of the kernel heap. When it is \<open>ready\<close>, the next call of
  \<^verbatim>\<open>kmalloc(sizeof(vma_t))\<close> returns the block \<open>blk\<close> and does not touch any list of areas
  (a heap that has to grow would call \<^verbatim>\<open>vma_alloc\<close> in turn); \<^verbatim>\<open>kfree\<close> of an owned block does
  not touch them either.
\<close>

definition same_vmas :: "'a vmm_scheme \<Rightarrow> 'a vmm_scheme \<Rightarrow> bool" where
  "same_vmas s s' \<longleftrightarrow> vma_at s' = vma_at s \<and> vma_heads s' = vma_heads s \<and> current_id s' = current_id s"

lemma same_vmas_fields:
  assumes "same_vmas s s'"
  shows "vnexts s' = vnexts s" "vprevs s' = vprevs s" "starts s' = starts s" "ends s' = ends s"
    "vma_heads s' = vma_heads s" "vmas s' l xs = vmas s l xs" "covered s' xs = covered s xs"
proof -
  show f: "vnexts s' = vnexts s" "vprevs s' = vprevs s" "starts s' = starts s" "ends s' = ends s"
    "vma_heads s' = vma_heads s"
    using assms by (simp_all add: same_vmas_def vnexts_def vprevs_def starts_def ends_def fun_eq_iff)
  then show "vmas s' l xs = vmas s l xs" "covered s' xs = covered s xs"
    by (simp_all add: vmas_def covered_def area_def)
qed

lemma find_area_list:
  assumes "vmas s l (us @ vs)"
  shows "\<exists>p. find_area s start stop (ptr_of (first_or vs None)) = Some p
    \<and> (if \<exists>x\<in>set vs. starts s x \<le> start \<and> stop \<le> ends s x
       then p \<in> set vs \<and> starts s p \<le> start \<and> stop \<le> ends s p else p = 0)"
  using assms
proof (induction vs arbitrary: us)
  case Nil
  then show ?case by (subst find_area.simps) simp
next
  case (Cons v vs)
  have nv: "v \<noteq> 0" using Cons.prems(1) by (auto simp: vmas_def)
  have nx: "v_next (vma_at s v) = ptr_of (first_or vs None)"
    using Cons.prems(1) by (auto simp: vmas_def chain_simps vnexts_def dest: ptr_opt_iff)
  have "find_area s start stop v = (if starts s v \<le> start \<and> stop \<le> ends s v then Some v
      else find_area s start stop (ptr_of (first_or vs None)))"
    using nv nx by (subst find_area.simps) (simp add: vma_simps)
  then show ?case using Cons.IH [of "us @ [v]"] Cons.prems by (auto split: if_splits)
qed

lemma area_disjoint:
  assumes v: "vmas s l (us @ x # vs)" and y: "y \<in> set us \<union> set vs"
  shows "area s y \<inter> area s x = {}"
proof -
  have o: "in_order (starts s) (ends s) 0 us" "in_order (starts s) (ends s) (ends s x) vs"
    "us \<noteq> [] \<Longrightarrow> ends s (last us) \<le> starts s x"
    using v by (auto simp: vmas_def in_order_append)
  show ?thesis
  proof (cases "y \<in> set us")
    case True
    then have "ends s y \<le> starts s x" using in_order_end [OF o(1) True] o(3) by (cases us) auto
    then show ?thesis by (auto simp: area_def word_le_nat_alt)
  next
    case False
    then show ?thesis using y in_order_le [OF o(2), of y] by (auto simp: area_def word_le_nat_alt)
  qed
qed

lemma area_change:
  assumes v: "vmas s l (us @ x # vs)" and b: "starts s x \<le> lo" "lo \<le> hi" "hi \<le> ends s x"
    and f: "vnexts t = vnexts s" "vprevs t = vprevs s" "vma_heads t = vma_heads s"
      "starts t = (starts s)(x := lo)" "ends t = (ends s)(x := hi)"
  shows "vmas t l (us @ x # vs)"
    and "covered t (us @ x # vs) = (covered s (us @ x # vs) - area s x) \<union> {unat lo ..< unat hi}"
proof -
  have x: "x \<notin> set us" "x \<notin> set vs" using v by (auto simp: vmas_def)
  have "in_order (starts t) (ends t) 0 (us @ x # vs)"
    using v b x unfolding vmas_def in_order_append f
    by (auto simp: vma_simps intro: order_trans elim: in_order_mono)
  then show "vmas t l (us @ x # vs)" using v by (simp add: vmas_def f(1-3))
  note area_disjoint [OF v]
  moreover have "\<forall>y\<in>set us \<union> set vs. area t y = area s y" "area t x = {unat lo ..< unat hi}"
    using x f by (auto simp: area_def)
  ultimately show "covered t (us @ x # vs) = (covered s (us @ x # vs) - area s x) \<union> {unat lo ..< unat hi}"
    by (auto simp: covered_def)
qed

lemma unlink_vmas:
  assumes v: "vmas s l (us @ x # vs)"
  defines "s1 \<equiv> (if x = vma_heads s l then set_head l (v_next (vma_at s x)) s else s)"
  defines "s2 \<equiv> upd_vma_opt (v_prev (vma_at s x)) (\<lambda>w. w\<lparr>v_next := v_next (vma_at s x)\<rparr>) s1"
  defines "s3 \<equiv> upd_vma_opt (v_next (vma_at s2 x)) (\<lambda>w. w\<lparr>v_prev := v_prev (vma_at s2 x)\<rparr>) s2"
  shows "vmas s3 l (us @ vs)" and "starts s3 = starts s" and "ends s3 = ends s"
proof -
  have ne: "y \<noteq> 0" if "y \<in> set (us @ x # vs)" for y using v that by (auto simp: vmas_def)
  have nx: "v_next (vma_at s x) = ptr_of (first_or vs None)" and pv: "v_prev (vma_at s x) = ptr_of (last_or None us)"
    using v by (auto simp: vmas_def chain_simps vnexts_def vprevs_def dest: ptr_opt_iff)
  have hd: "vma_heads s l = ptr_of (first_or (us @ x # vs) None)" using v by (auto simp: vmas_def dest: ptr_opt_iff)
  have se: "starts s3 = starts s" "ends s3 = ends s"
    unfolding s3_def s2_def s1_def upd_vma_opt_def by (auto simp: vma_simps fun_eq_iff)
  then show "starts s3 = starts s" "ends s3 = ends s" by blast+
  have x2: "v_next (vma_at s2 x) = v_next (vma_at s x)" "v_prev (vma_at s2 x) = v_prev (vma_at s x)"
    using pv v unfolding s2_def s1_def upd_vma_opt_def upd_vma_def
    by (auto simp: vma_simps last_or_eq vmas_def)
  have ord: "in_order (starts s) (ends s) 0 (us @ vs)"
    using v unfolding vmas_def in_order_append by (auto elim: in_order_mono intro: order_trans)
  have "chain (vnexts s3) (vprevs s3) None (us @ vs) None \<and> ptr_opt (vma_heads s3 l) = first_or (us @ vs) None"
  proof (cases us rule: rev_cases)
    case Nil
    then show ?thesis using v ne nx pv hd x2 unfolding s3_def x2 s2_def s1_def upd_vma_opt_def
      by (cases vs) (auto simp: vmas_def vma_simps chain_simps)
  next
    case (snoc ts t)
    then have "x \<noteq> vma_heads s l" using hd v by (auto simp: vmas_def first_or_eq hd_append split: if_splits)
    then show ?thesis using v ne nx pv x2 snoc unfolding s3_def x2 s2_def s1_def upd_vma_opt_def
      by (cases vs) (auto simp: vmas_def vma_simps chain_simps first_or_eq hd_append)
  qed
  then show "vmas s3 l (us @ vs)" using v ord se by (auto simp: vmas_def)
qed

locale vma_heap =
  fixes kmalloc :: "u32 \<Rightarrow> 'a vmm_scheme \<Rightarrow> (addr \<times> 'a vmm_scheme) option"
    and kfree :: "addr \<Rightarrow> 'a vmm_scheme \<Rightarrow> 'a vmm_scheme option"
    and ready :: "'a vmm_scheme \<Rightarrow> bool" and blk :: "'a vmm_scheme \<Rightarrow> addr"
    and owns :: "'a vmm_scheme \<Rightarrow> addr \<Rightarrow> bool"
  assumes kmalloc_ready: "ready s \<Longrightarrow> \<exists>s'. kmalloc SIZEOF_VMA s = Some (blk s, s') \<and> same_vmas s s'"
    and blk_nonnull: "ready s \<Longrightarrow> blk s \<noteq> 0"
    and kfree_owned: "owns s p \<Longrightarrow> \<exists>s'. kfree p s = Some s' \<and> same_vmas s s'"
    and owns_upd: "owns (upd_vma q f s) p = owns s p" and owns_head: "owns (set_head l q s) p = owns s p"
begin

lemma vma_add_result:
  assumes v: "vmas s l xs" and rd: "ready s" "blk s \<notin> set xs"
    and l: "l = (if has_flag flags VMA_USER then Task_List (current_id s) else Kernel_List)"
    and args: "start < stop" "if has_flag flags VMA_USER then VMA_KERN_MAX \<le> start else stop < VMA_KERN_MAX"
  shows "\<exists>r s'. vma_add kmalloc start stop flags s = Some (r, s') \<and>
    (if \<forall>x\<in>set xs. ends s x \<le> start \<or> stop \<le> starts s x
     then r = 0 \<and> (\<exists>xs'. vmas s' l xs' \<and> set xs' = insert (blk s) (set xs)
        \<and> covered s' xs' = covered s xs \<union> {unat start ..< unat stop}
        \<and> covered s xs \<inter> {unat start ..< unat stop} = {})
     else r = - EINVAL \<and> s' = s)"
proof -
  obtain s1 where km: "kmalloc SIZEOF_VMA s = Some (blk s, s1)" and same: "same_vmas s s1"
    using kmalloc_ready [OF rd(1)] by blast
  note f = same_vmas_fields [OF same]
  have head: "ptr_of (first_or xs None) = vma_heads s l" "vma_heads s l = 0 \<longleftrightarrow> xs = []"
    using v by (cases xs; auto simp: vmas_def ptr_opt_def split: if_splits)+
  obtain p q where sp: "search_place s start stop 0 (vma_heads s l) = Some (p, q)"
    and pq: "p = 0 \<and> q = 0 \<or> (\<exists>us' vs'. xs = us' @ vs' \<and> p = ptr_of (last_or None us')
           \<and> q = ptr_of (first_or vs' None) \<and> place_between s start stop us' vs')"
    and no: "xs \<noteq> [] \<and> p = 0 \<and> q = 0 \<longrightarrow> (\<forall>us' vs'. xs = us' @ vs' \<longrightarrow> \<not> place_between s start stop us' vs')"
    using search_place_list [of s l "[]" xs start stop] v head(1) by auto
  have unfold: "vma_add kmalloc start stop flags s =
      (if vma_heads s l \<noteq> 0 \<and> p = 0 \<and> q = 0 then Some (- EINVAL, s)
       else Some (0, link_new l (blk s) p q start stop flags s1))"
    using args l sp km blk_nonnull [OF rd(1)] by (auto simp: vma_add_def Let_def split: if_splits)
  show ?thesis
  proof (cases "xs \<noteq> [] \<and> p = 0 \<and> q = 0")
    case True
    then have "\<not> (\<forall>x\<in>set xs. ends s x \<le> start \<or> stop \<le> starts s x)"
      using place_exists [of s 0 xs start stop] v args(1) no by (auto simp: vmas_def)
    then show ?thesis using unfold True head(2) by simp
  next
    case False
    then obtain us vs where uv: "xs = us @ vs" "p = ptr_of (last_or None us)" "q = ptr_of (first_or vs None)"
      "place_between s start stop us vs"
      using pq by (cases "xs = []") (auto simp: place_between_def)
    let ?s = "link_new l (blk s) p q start stop flags s1"
    have lo: "us \<noteq> [] \<Longrightarrow> ends s (last us) \<le> start" and hi: "vs \<noteq> [] \<Longrightarrow> stop \<le> starts s (hd vs)"
      using uv(4) by (auto simp: place_between_def)
    have "vmas ?s l (us @ blk s # vs)"
      using v rd(2) blk_nonnull [OF rd(1)] uv lo hi args(1)
      by (intro link_new_vmas) (auto simp: f less_imp_le)
    moreover have "covered ?s (us @ blk s # vs) = covered s xs \<union> {unat start ..< unat stop}"
      using covered_link_new [of "blk s" us vs l p q start stop flags s1] rd(2) uv(1) by (simp add: f)
    moreover have "covered s xs \<inter> {unat start ..< unat stop} = {}"
      using gap_free [of s l us vs start stop] v uv(1) lo hi by blast
    moreover have "\<forall>x\<in>set xs. ends s x \<le> start \<or> stop \<le> starts s x"
      using place_iff [of s l us vs start stop] v uv args(1) by blast
    ultimately show ?thesis using unfold False head(2) uv(1)
      by (auto intro!: exI [of _ "us @ blk s # vs"])
  qed
qed

lemma vma_alloc_result:
  assumes v: "vmas s l xs" and rd: "ready s" "blk s \<notin> set xs"
    and l: "(base, limit, l) = (if has_flag flags VMA_USER then (VMA_USER_MIN, VMA_USER_MAX, Task_List (current_id s))
       else (VMA_KERN_MIN, VMA_KERN_MAX, Kernel_List))"
    and lim: "\<forall>x\<in>set xs. ends s x \<le> limit"
  shows "\<exists>r s'. vma_alloc kmalloc sz flags s = Some (r, s') \<and>
    (r = 0 \<and> s' = s
     \<or> base \<le> r \<and> r \<le> limit \<and>
       (if unat r + unat sz < 2 ^ 32
        then unat r + unat sz < unat limit \<and> covered s xs \<inter> {unat r ..< unat r + unat sz} = {}
          \<and> (\<exists>xs'. vmas s' l xs' \<and> set xs' \<subseteq> insert (blk s) (set xs)
               \<and> covered s' xs' = covered s xs \<union> {unat r ..< unat r + unat sz})
        else r + sz < r \<and> (\<exists>x\<in>insert (blk s) (set xs). ends s' x = r + sz)))"
proof -
  obtain s1 where km: "kmalloc SIZEOF_VMA s = Some (blk s, s1)" and same: "same_vmas s s1"
    using kmalloc_ready [OF rd(1)] by blast
  note f = same_vmas_fields [OF same]
  have head: "ptr_of (first_or xs None) = vma_heads s l"
    using v by (auto simp: vmas_def dest: ptr_opt_iff)
  have bl: "base \<le> limit" using l by (auto split: if_splits)
  obtain g where sg: "search_gap s base limit sz 0 (vma_heads s l) = Some g"
    and g: "case g of None \<Rightarrow> True
       | Some (p, q, start) \<Rightarrow> \<exists>us vs. xs = us @ vs \<and> p = ptr_of (last_or None us)
           \<and> q = ptr_of (first_or vs None) \<and> gap_between s base limit sz us vs start"
    using search_gap_list [of s l "[]" xs base limit sz, unfolded append_Nil] v head by auto
  show ?thesis
  proof (cases g)
    case None
    then have "vma_alloc kmalloc sz flags s = Some (0, s)"
      using sg l [symmetric] by (simp add: vma_alloc_def)
    then show ?thesis by blast
  next
    case (Some t)
    obtain p q start where t: "t = (p, q, start)" by (cases t)
    with g Some obtain us vs where uv: "xs = us @ vs" "p = ptr_of (last_or None us)" "q = ptr_of (first_or vs None)"
      and gap: "gap_between s base limit sz us vs start" by auto
    have start: "base \<le> start" "start \<le> limit" using gap lim bl uv(1) by (auto simp: gap_between_def)
    show ?thesis
    proof (cases "unat start + unat sz < 2 ^ 32")
      case True
      then have add: "unat (start + sz) = unat start + unat sz" by (simp add: unat_word_ariths)
      then have le: "start \<le> start + sz" by (simp add: word_le_nat_alt)
      have hi: "vs \<noteq> [] \<Longrightarrow> start + sz \<le> starts s (hd vs)" and lo: "us \<noteq> [] \<Longrightarrow> ends s (last us) \<le> start"
        and b: "start + sz < limit" using gap by (auto simp: gap_between_def)
      have disj: "covered s xs \<inter> {unat start ..< unat start + unat sz} = {}"
        using gap_free [of s l us vs start "start + sz"] v uv(1) lo hi add by simp
      have "unat start + unat sz < unat limit" using b add by (simp add: word_less_nat_alt)
      moreover have "\<exists>s'. vma_alloc kmalloc sz flags s = Some (start, s') \<and> (\<exists>xs'. vmas s' l xs'
          \<and> set xs' \<subseteq> insert (blk s) (set xs) \<and> covered s' xs' = covered s xs \<union> {unat start ..< unat start + unat sz})"
      proof (cases "p \<noteq> 0 \<and> v_flags (vma_at s p) = flags")
        case True
        let ?s = "upd_vma p (\<lambda>w. w\<lparr>v_end := start + sz\<rparr>) s"
        have r: "vma_alloc kmalloc sz flags s = Some (start, ?s)"
          using sg l [symmetric] Some t True by (simp add: vma_alloc_def)
        from True uv(2) obtain ts where ts: "us = ts @ [p]"
          by (cases us rule: rev_cases) auto
        then have "start = ends s p" using gap by (simp add: gap_between_def)
        then show ?thesis using extend_last [of s l ts p vs "start + sz"] v uv(1) ts hi le r add
          by (intro exI [of _ ?s]) auto
      next
        case False
        let ?s = "link_new l (blk s) p q start (start + sz) flags s1"
        have r: "vma_alloc kmalloc sz flags s = Some (start, ?s)"
          using sg l [symmetric] Some t False km blk_nonnull [OF rd(1)] by (auto simp: vma_alloc_def)
        have "vmas ?s l (us @ blk s # vs)"
          using v rd(2) blk_nonnull [OF rd(1)] uv lo hi le by (intro link_new_vmas) (auto simp: f)
        moreover have "covered ?s (us @ blk s # vs) = covered s xs \<union> {unat start ..< unat start + unat sz}"
          using covered_link_new [of "blk s" us vs l p q start "start + sz" flags s1] rd(2) uv(1) add
          by (simp add: f)
        ultimately show ?thesis using r uv(1) by (intro exI [of _ ?s]) auto
      qed
      ultimately show ?thesis using start disj True by auto
    next
      case False
      moreover have "unat sz < 2 ^ 32" "unat start < 2 ^ 32" using unsigned_less [of sz] unsigned_less [of start] by auto
      ultimately have "unat (start + sz) = unat start + unat sz - 2 ^ 32"
        unfolding unat_word_ariths by (subst mod_if) (simp add: mod_less)
      then have wrap: "start + sz < start"
        using False \<open>unat sz < 2 ^ 32\<close> unfolding word_less_nat_alt by linarith
      have "\<exists>s'. vma_alloc kmalloc sz flags s = Some (start, s') \<and> (\<exists>x\<in>insert (blk s) (set xs). ends s' x = start + sz)"
      proof (cases "p \<noteq> 0 \<and> v_flags (vma_at s p) = flags")
        case True
        have "p \<in> set xs" using True uv(1,2) by (cases us rule: rev_cases) auto
        moreover have "vma_alloc kmalloc sz flags s = Some (start, upd_vma p (\<lambda>w. w\<lparr>v_end := start + sz\<rparr>) s)"
          using sg l [symmetric] Some t True by (simp add: vma_alloc_def)
        ultimately show ?thesis by (auto simp: vma_simps)
      next
        case False
        then have "vma_alloc kmalloc sz flags s = Some (start, link_new l (blk s) p q start (start + sz) flags s1)"
          using sg l [symmetric] Some t km blk_nonnull [OF rd(1)] by (auto simp: vma_alloc_def)
        then show ?thesis by (auto simp: link_new_bounds)
      qed
      then show ?thesis using False wrap start by auto
    qed
  qed
qed

lemma vma_free_result:
  assumes v: "vmas s l xs" and ow: "\<forall>x\<in>set xs. owns s x" and se: "start < stop"
    and l: "if stop < VMA_KERN_MAX then l = Kernel_List else VMA_KERN_MAX \<le> start \<and> l = Task_List (current_id s)"
    and edge: "\<forall>x\<in>set xs. starts s x \<le> start \<and> stop \<le> ends s x \<longrightarrow> starts s x = start \<or> ends s x = stop"
  shows "\<exists>r s'. vma_free kmalloc kfree start stop s = Some (r, s') \<and>
    (if \<exists>x\<in>set xs. starts s x \<le> start \<and> stop \<le> ends s x
     then r = 0 \<and> (\<exists>xs'. vmas s' l xs' \<and> set xs' \<subseteq> set xs
        \<and> covered s' xs' = covered s xs - {unat start ..< unat stop})
     else r = - EINVAL \<and> s' = s)"
proof -
  have hd: "vma_heads s l = ptr_of (first_or xs None)" using v by (auto simp: vmas_def dest: ptr_opt_iff)
  obtain p where fa: "find_area s start stop (vma_heads s l) = Some p"
    and p: "if \<exists>x\<in>set xs. starts s x \<le> start \<and> stop \<le> ends s x
       then p \<in> set xs \<and> starts s p \<le> start \<and> stop \<le> ends s p else p = 0"
    using find_area_list [of s l "[]" xs start stop] v hd by auto
  have h: "(if stop < VMA_KERN_MAX then Some Kernel_List
                 else if start \<ge> VMA_KERN_MAX then Some (Task_List (current_id s)) else None) = Some l"
    using l by (auto split: if_splits)
  have le: "start \<le> stop" "\<not> stop \<le> start" using se by auto
  show ?thesis
  proof (cases "\<exists>x\<in>set xs. starts s x \<le> start \<and> stop \<le> ends s x")
    case False
    with p have "p = 0" by simp
    then have "vma_free kmalloc kfree start stop s = Some (- EINVAL, s)"
      using fa h le unfolding vma_free_def by (simp add: Let_def)
    then show ?thesis using False by auto
  next
    case True
    with p have p': "p \<in> set xs" "starts s p \<le> start" "stop \<le> ends s p" by auto
    then obtain us vs where uv: "xs = us @ p # vs" by (meson split_list)
    have v': "vmas s l (us @ p # vs)" using v uv by simp
    have nz: "p \<noteq> 0" "vma_heads s l \<noteq> 0" using hd uv v' by (cases us; auto simp: vmas_def)+
    have sub: "area s p \<subseteq> covered s xs" using p'(1) by (auto simp: covered_def)
    consider "start = starts s p" "stop = ends s p" | "start = starts s p" "stop \<noteq> ends s p"
      | "start \<noteq> starts s p" "stop = ends s p" using edge p' by blast
    then show ?thesis
    proof cases
      case 1
      define s1 where "s1 = (if p = vma_heads s l then set_head l (v_next (vma_at s p)) s else s)"
      define s2 where "s2 = upd_vma_opt (v_prev (vma_at s p)) (\<lambda>w. w\<lparr>v_next := v_next (vma_at s p)\<rparr>) s1"
      define s3 where "s3 = upd_vma_opt (v_next (vma_at s2 p)) (\<lambda>w. w\<lparr>v_prev := v_prev (vma_at s2 p)\<rparr>) s2"
      note un = unlink_vmas [OF v', folded s1_def, folded s2_def, folded s3_def]
      have "owns s3 p" using ow p'(1)
        unfolding s3_def s2_def s1_def upd_vma_opt_def by (auto simp: owns_upd owns_head)
      then obtain s4 where s4: "kfree p s3 = Some s4" "same_vmas s3 s4" using kfree_owned by blast
      have r: "vma_free kmalloc kfree start stop s = Some (0, s4)"
        using 1 h le nz fa s4(1) unfolding vma_free_def
        by (simp add: Let_def vma_simps s1_def [symmetric] s2_def [symmetric] s3_def [symmetric])
      have "covered s4 (us @ vs) = covered s (us @ vs)"
        using un(2,3) same_vmas_fields(3,4) [OF s4(2)] by (simp add: covered_def area_def)
      also have "\<dots> = covered s xs - area s p"
      proof -
        have "covered s (us @ vs) \<inter> area s p = {}"
          using area_disjoint [OF v'] by (simp add: covered_def) blast
        then show ?thesis by (auto simp: uv covered_def)
      qed
      finally have "covered s4 (us @ vs) = covered s xs - {unat start ..< unat stop}"
        using 1 by (simp add: area_def)
      moreover have "vmas s4 l (us @ vs)" using un(1) same_vmas_fields(6) [OF s4(2)] by simp
      ultimately show ?thesis using True r uv by (auto intro!: exI [of _ "us @ vs"])
    next
      case 2
      let ?s = "upd_vma p (\<lambda>w. w\<lparr>v_start := stop\<rparr>) s"
      have r: "vma_free kmalloc kfree start stop s = Some (0, ?s)"
        using 2 h le nz fa unfolding vma_free_def by (simp add: Let_def vma_simps)
      have "vmas ?s l xs" "covered ?s xs = covered s xs - area s p \<union> {unat stop ..< unat (ends s p)}"
        using area_change [OF v', of stop "ends s p" ?s] p' 2 le(1) uv
        by (auto simp: vma_simps fun_eq_iff)
      moreover have "\<dots> = covered s xs - {unat start ..< unat stop}"
        using sub 2(1) p'(3) le(1) by (auto simp: area_def word_le_nat_alt)
      ultimately show ?thesis using True r by auto
    next
      case 3
      let ?s = "upd_vma p (\<lambda>w. w\<lparr>v_end := start\<rparr>) s"
      have r: "vma_free kmalloc kfree start stop s = Some (0, ?s)"
        using 3 h le nz fa unfolding vma_free_def by (simp add: Let_def vma_simps)
      have "vmas ?s l xs" "covered ?s xs = covered s xs - area s p \<union> {unat (starts s p) ..< unat start}"
        using area_change [OF v', of "starts s p" start ?s] p' 3 le(1) uv
        by (auto simp: vma_simps fun_eq_iff)
      moreover have "\<dots> = covered s xs - {unat start ..< unat stop}"
        using sub 3(2) p'(2) le(1) by (auto simp: area_def word_le_nat_alt)
      ultimately show ?thesis using True r by auto
    qed
  qed
qed

text \<open>A hole in the middle of an area that has a successor leaves the successor's back link stale.\<close>

lemma vma_free_hole:
  assumes v: "vmas s l (us @ p # q # vs)" and rd: "ready s" "blk s \<notin> set (us @ p # q # vs)"
    and in_area: "starts s p < start" "start < stop" "stop < ends s p"
    and l: "if stop < VMA_KERN_MAX then l = Kernel_List else VMA_KERN_MAX \<le> start \<and> l = Task_List (current_id s)"
  shows "\<exists>s'. vma_free kmalloc kfree start stop s = Some (0, s')
    \<and> nchain (vnexts s') (us @ p # blk s # q # vs) None
    \<and> vprevs s' q = Some p \<and> \<not> vmas s' l (us @ p # blk s # q # vs)"
proof -
  obtain s1 where km: "kmalloc SIZEOF_VMA s = Some (blk s, s1)" and same: "same_vmas s s1"
    using kmalloc_ready [OF rd(1)] by blast
  note f = same_vmas_fields [OF same]
  note v1 = v [folded f(6)]
  have hd: "vma_heads s l = ptr_of (first_or (us @ p # q # vs) None)"
    using v by (auto simp: vmas_def dest: ptr_opt_iff)
  then have nz: "p \<noteq> 0" "vma_heads s l \<noteq> 0" using v by (cases us; auto simp: vmas_def)+
  have sub: "area s x \<inter> area s p = {}" if "x \<in> set us \<union> set (q # vs)" for x
    using area_disjoint [OF v that] .
  have only: "\<not> (starts s x \<le> start \<and> stop \<le> ends s x)" if "x \<in> set us \<union> set (q # vs)" for x
  proof
    assume "starts s x \<le> start \<and> stop \<le> ends s x"
    then have "unat start \<in> area s x" "unat start \<in> area s p"
      using in_area by (auto simp: area_def word_le_nat_alt word_less_nat_alt)
    then show False using sub [OF that] by blast
  qed
  obtain p' where fa: "find_area s start stop (vma_heads s l) = Some p'"
    and p': "if \<exists>x\<in>set (us @ p # q # vs). starts s x \<le> start \<and> stop \<le> ends s x
       then p' \<in> set (us @ p # q # vs) \<and> starts s p' \<le> start \<and> stop \<le> ends s p' else p' = 0"
    using find_area_list [of s l "[]" "us @ p # q # vs" start stop] v hd by auto
  have "p' = p" using p' only in_area by (auto split: if_splits)
  have h: "(if stop < VMA_KERN_MAX then Some Kernel_List
                 else if start \<ge> VMA_KERN_MAX then Some (Task_List (current_id s)) else None) = Some l"
    using l by (auto split: if_splits)
  define s6 where "s6 = (let t1 = upd_vma (blk s) (\<lambda>w. w\<lparr>v_end := v_end (vma_at s1 p)\<rparr>) s1;
      t2 = upd_vma p (\<lambda>w. w\<lparr>v_end := start\<rparr>) t1;
      t3 = upd_vma (blk s) (\<lambda>w. w\<lparr>v_start := stop\<rparr>) t2;
      t4 = upd_vma (blk s) (\<lambda>w. w\<lparr>v_next := v_next (vma_at t3 p)\<rparr>) t3;
      t5 = upd_vma p (\<lambda>w. w\<lparr>v_next := blk s\<rparr>) t4
    in upd_vma (blk s) (\<lambda>w. w\<lparr>v_prev := p\<rparr>) t5)"
  have r: "vma_free kmalloc kfree start stop s = Some (0, s6)"
    using h nz fa km in_area blk_nonnull [OF rd(1)] \<open>p' = p\<close> unfolding vma_free_def s6_def
    by (auto simp: Let_def vma_simps)
  have n: "vnexts s6 = (vnexts s)(blk s := Some q, p := Some (blk s))"
    using v rd(2) blk_nonnull [OF rd(1)] unfolding s6_def
    by (auto simp: Let_def vma_simps fun_eq_iff f vmas_def chain_simps)
  have pv: "vprevs s6 q = Some p"
    using v rd(2) unfolding s6_def by (auto simp: Let_def vma_simps f vmas_def chain_simps)
  have "nchain (vnexts s) (us @ p # q # vs) None" using v chain_nchain by (auto simp: vmas_def)
  then have "nchain (vnexts s6) (us @ p # blk s # q # vs) None"
    using v rd(2) unfolding n by (auto simp: vmas_def chain_simps)
  moreover have "\<not> vmas s6 l (us @ p # blk s # q # vs)"
    using pv rd(2) by (auto simp: vmas_def chain_simps)
  ultimately show ?thesis using r pv by blast
qed

end

end
