(* ===== verification/Paging.thy ===== *)
theory Paging
  imports Vma
begin

text \<open>
  Paging, \<^verbatim>\<open>mm/page.c\<close>: two-level page tables reached through their own self-reference. The
  state holds the physical memory as frames of 1024 words and the frame of the active page
  directory; a virtual access is a walk of these tables as the processor does it (without large
  pages, and with a flushed TLB), and an access to an unmapped address is \<open>None\<close>, the page fault.
\<close>

section \<open>The memory management unit\<close>

record mmu = vmm +
  phys :: "nat \<Rightarrow> nat \<Rightarrow> u32"
  cr3 :: nat
  user_usage :: "u32 \<Rightarrow> u32"
  task_heap :: "u32 \<Rightarrow> addr"

definition PG_PRESENT :: u32 where [simp]: "PG_PRESENT = 1"
definition PG_RW :: u32 where [simp]: "PG_RW = 2"
definition PG_USER :: u32 where [simp]: "PG_USER = 4"
definition PG_GLOBAL :: u32 where [simp]: "PG_GLOBAL = 0x100"
definition PG_SELF :: u32 where [simp]: "PG_SELF = 0x200"

definition entry_frame :: "u32 \<Rightarrow> nat" where
  "entry_frame e = unat (drop_bit PAGE_BITS e)"

text \<open>The frame and the word that a virtual address denotes.\<close>

definition translate :: "'a mmu_scheme \<Rightarrow> u32 \<Rightarrow> (nat \<times> nat) option" where
  "translate s va =
     (let pde = phys s (cr3 s) (unat (drop_bit 22 va)) in
      if has_flag pde PG_PRESENT
      then let pte = phys s (entry_frame pde) (unat (drop_bit 12 va) mod 1024) in
           if has_flag pte PG_PRESENT then Some (entry_frame pte, unat va mod 4096 div 4) else None
      else None)"

definition vread :: "'a mmu_scheme \<Rightarrow> u32 \<Rightarrow> u32 option" where
  "vread s va = (case translate s va of None \<Rightarrow> None | Some (f, w) \<Rightarrow> Some (phys s f w))"

definition write_word :: "nat \<Rightarrow> nat \<Rightarrow> u32 \<Rightarrow> 'a mmu_scheme \<Rightarrow> 'a mmu_scheme" where
  "write_word f w v s = s\<lparr>phys := (phys s)(f := (phys s f)(w := v))\<rparr>"

definition vwrite :: "u32 \<Rightarrow> u32 \<Rightarrow> 'a mmu_scheme \<Rightarrow> 'a mmu_scheme option" where
  "vwrite va v s = (case translate s va of None \<Rightarrow> None | Some (f, w) \<Rightarrow> Some (write_word f w v s))"

text \<open>\<^verbatim>\<open>memset\<close> of a page to 0 and \<^verbatim>\<open>memcpy\<close> of a page, word by word.\<close>

definition zero_page :: "u32 \<Rightarrow> 'a mmu_scheme \<Rightarrow> 'a mmu_scheme option" where
  "zero_page va s = foldM (\<lambda>i. vwrite (va + of_nat (4 * i)) 0) [0..<1024] s"

definition copy_words :: "u32 \<Rightarrow> u32 \<Rightarrow> 'a mmu_scheme \<Rightarrow> 'a mmu_scheme option" where
  "copy_words dest src s =
     foldM (\<lambda>i s. case vread s (src + of_nat (4 * i)) of
              None \<Rightarrow> None | Some v \<Rightarrow> vwrite (dest + of_nat (4 * i)) v s) [0..<1024] s"

section \<open>The self-reference\<close>

text \<open>\<^verbatim>\<open>self[lvl][vpn]\<close> and \<^verbatim>\<open>other[lvl][vpn]\<close>: the address of the entry.\<close>

definition self_addr :: "nat \<Rightarrow> u32 \<Rightarrow> u32" where
  "self_addr lvl vpn = (if lvl = 0 then 0xFFC00000 else 0xFFFFF000) + 4 * vpn"

definition other_addr :: "nat \<Rightarrow> u32 \<Rightarrow> u32" where
  "other_addr lvl vpn = (if lvl = 0 then 0xFF800000 else 0xFFFFE000) + 4 * vpn"

definition virt_to_phys :: "'a mmu_scheme \<Rightarrow> u32 \<Rightarrow> u32 option" where
  "virt_to_phys s a =
     (let vpn = drop_bit PAGE_BITS a in
      case vread s (self_addr 0 vpn) of
        None \<Rightarrow> None
      | Some entry \<Rightarrow>
          let off = a AND NOT PAGE_MASK; phy = entry AND PAGE_MASK in Some (phy OR off))"

definition page_set_flags :: "u32 \<Rightarrow> u32 \<Rightarrow> u32 \<Rightarrow> int" where
  "page_set_flags viraddr npages flags = - EINVAL"

section \<open>Mapping\<close>

definition count_user :: "u32 \<Rightarrow> u32 \<Rightarrow> u32 \<Rightarrow> 'a mmu_scheme \<Rightarrow> 'a mmu_scheme" where
  "count_user bits t d s =
     (if has_flag bits PG_USER then s\<lparr>user_usage := (user_usage s)(t := user_usage s t + d)\<rparr> else s)"

text \<open>The directory level: a table for each 4 MiB region, \<open>-ENOMEM\<close> when no frame is left.\<close>

partial_function (option) map_tables ::
  "addr \<Rightarrow> u32 \<Rightarrow> u32 \<Rightarrow> u32 \<Rightarrow> 'a mmu_scheme \<Rightarrow> (int \<times> 'a mmu_scheme) option" where
  "map_tables ke bits vpn lst s =
     (if sint vpn \<le> sint lst then
        (case vread s (self_addr 1 vpn) of
           None \<Rightarrow> None
         | Some e \<Rightarrow>
             if has_flag e PG_PRESENT then map_tables ke bits (vpn + 1) lst s
             else (case get_pages ke 1 s of
                 None \<Rightarrow> None
               | Some (phyaddr, s) \<Rightarrow>
                   if phyaddr = 0 then Some (- ENOMEM, s)
                   else (case vwrite (self_addr 1 vpn) (phyaddr OR bits OR PG_PRESENT OR PG_USER OR PG_RW)
                                (count_user bits (current_id s) 1 s) of
                       None \<Rightarrow> None
                     | Some s \<Rightarrow>
                         (case zero_page (self_addr 0 (push_bit 10 vpn)) s of
                            None \<Rightarrow> None
                          | Some s \<Rightarrow> map_tables ke bits (vpn + 1) lst s))))
      else Some (0, s))"

partial_function (option) map_entries ::
  "u32 \<Rightarrow> u32 \<Rightarrow> u32 \<Rightarrow> u32 \<Rightarrow> 'a mmu_scheme \<Rightarrow> 'a mmu_scheme option" where
  "map_entries bits vpn lst phyaddr s =
     (if sint vpn \<le> sint lst then
        (case vread s (self_addr 0 vpn) of
           None \<Rightarrow> None
         | Some e \<Rightarrow>
             (case vwrite (self_addr 0 vpn) (phyaddr OR bits OR PG_PRESENT) s of
                None \<Rightarrow> None
              | Some s \<Rightarrow> map_entries bits (vpn + 1) lst (phyaddr + PAGE_SIZE) s))
      else Some s)"

definition page_map :: "addr \<Rightarrow> u32 \<Rightarrow> u32 \<Rightarrow> u32 \<Rightarrow> u32 \<Rightarrow> 'a mmu_scheme \<Rightarrow> (int \<times> 'a mmu_scheme) option" where
  "page_map ke viraddr phyaddr npages bits s =
     (let vpn = drop_bit PAGE_BITS viraddr; lst = vpn + npages - 1 in
      case map_tables ke bits (drop_bit 10 vpn) (drop_bit 10 lst) s of
        None \<Rightarrow> None
      | Some (ret, s) \<Rightarrow>
          if ret \<noteq> 0 then Some (ret, s)
          else (case map_entries bits vpn lst phyaddr s of None \<Rightarrow> None | Some s \<Rightarrow> Some (0, s)))"

partial_function (option) unmap_entries :: "u32 \<Rightarrow> u32 \<Rightarrow> 'a mmu_scheme \<Rightarrow> 'a mmu_scheme option" where
  "unmap_entries vpn stop s =
     (if vpn < stop
      then (case vwrite (self_addr 0 vpn) 0 s of
              None \<Rightarrow> None | Some s \<Rightarrow> unmap_entries (vpn + 1) stop s)
      else Some s)"

definition page_unmap :: "u32 \<Rightarrow> u32 \<Rightarrow> 'a mmu_scheme \<Rightarrow> (int \<times> 'a mmu_scheme) option" where
  "page_unmap viraddr npages s =
     (let start = drop_bit PAGE_BITS viraddr in
      map_option (Pair 0) (unmap_entries start (start + npages) s))"

section \<open>Dropping and copying an address space\<close>

text \<open>
  The nested function \<^verbatim>\<open>traverse\<close> of \<^verbatim>\<open>page_map_drop\<close> recurses on the level; \<^verbatim>\<open>self[lvl][vpn]\<close>
  is read anew for the \<^verbatim>\<open>put_pages\<close> after the recursion.
\<close>

fun drop_traverse :: "nat \<Rightarrow> u32 \<Rightarrow> 'a mmu_scheme \<Rightarrow> 'a mmu_scheme option" where
  "drop_traverse lvl vpn0 s =
     foldM (\<lambda>i s. let vpn = vpn0 + of_nat i in
        case vread s (self_addr lvl vpn) of
          None \<Rightarrow> None
        | Some e \<Rightarrow>
            if has_flag e PG_PRESENT \<and> has_flag e PG_USER then
              (case (case lvl of 0 \<Rightarrow> Some s | Suc l \<Rightarrow> drop_traverse l (push_bit 10 vpn) s) of
                 None \<Rightarrow> None
               | Some s \<Rightarrow>
                   (case vread s (self_addr lvl vpn) of
                      None \<Rightarrow> None
                    | Some e \<Rightarrow>
                        (case put_pages (e AND PAGE_MASK) 1 s of
                           None \<Rightarrow> None
                         | Some (_, s) \<Rightarrow> Some (s\<lparr>user_usage := (user_usage s)
                             (current_id s := user_usage s (current_id s) - 1)\<rparr>))))
            else Some s) [0..<1024] s"

definition page_map_drop :: "'a mmu_scheme \<Rightarrow> (int \<times> 'a mmu_scheme) option" where
  "page_map_drop s = map_option (Pair 0) (drop_traverse 1 0 s)"

text \<open>
  \<^verbatim>\<open>page_map_copy\<close>: the entries of a table one after the other; the result of the recursive call
  is ignored, that of the current table is returned early when no frame is left.
\<close>

definition PAGE_TMP :: "addr \<Rightarrow> u32" where
  "PAGE_TMP kernel_start = PAGE_FLOOR kernel_start - PAGE_SIZE"

definition table_vpns :: "u32 \<Rightarrow> u32 list" where
  "table_vpns vpn = map (\<lambda>i. vpn + of_nat i) [0..<1024]"

fun copy_traverse ::
  "addr \<Rightarrow> addr \<Rightarrow> u32 \<Rightarrow> nat \<Rightarrow> u32 list \<Rightarrow> 'a mmu_scheme \<Rightarrow> (int \<times> 'a mmu_scheme) option" where
  "copy_traverse ks ke dest lvl [] s = Some (0, s)"
| "copy_traverse ks ke dest lvl (vpn # vpns) s =
     (case vread s (self_addr lvl vpn) of
        None \<Rightarrow> None
      | Some e \<Rightarrow>
          if has_flag e PG_PRESENT then
            if has_flag e PG_USER then
              (case get_pages ke 1 s of
                 None \<Rightarrow> None
               | Some (phyaddr, s) \<Rightarrow>
                   if phyaddr = 0 then Some (- ENOMEM, s)
                   else (case vwrite (other_addr lvl vpn) (phyaddr OR (e AND NOT PAGE_MASK))
                                (s\<lparr>user_usage := (user_usage s)(dest := user_usage s dest + 1)\<rparr>) of
                       None \<Rightarrow> None
                     | Some s \<Rightarrow>
                         (case (case lvl of
                                  Suc l \<Rightarrow> map_option snd (copy_traverse ks ke dest l (table_vpns (push_bit 10 vpn)) s)
                                | 0 \<Rightarrow> (case page_map ke (PAGE_TMP ks) phyaddr 1 PG_RW s of
                                          None \<Rightarrow> None
                                        | Some (_, s) \<Rightarrow> copy_words (PAGE_TMP ks) (push_bit PAGE_BITS vpn) s)) of
                            None \<Rightarrow> None
                          | Some s \<Rightarrow> copy_traverse ks ke dest lvl vpns s)))
            else (case vwrite (other_addr lvl vpn) (if has_flag e PG_SELF then 0 else e) s of
                    None \<Rightarrow> None | Some s \<Rightarrow> copy_traverse ks ke dest lvl vpns s)
          else (case vwrite (other_addr lvl vpn) 0 s of
                  None \<Rightarrow> None | Some s \<Rightarrow> copy_traverse ks ke dest lvl vpns s))"

definition page_map_copy ::
  "addr \<Rightarrow> addr \<Rightarrow> u32 \<Rightarrow> u32 \<Rightarrow> 'a mmu_scheme \<Rightarrow> (int \<times> 'a mmu_scheme) option" where
  "page_map_copy ks ke dest dest_map s =
     (let e = dest_map OR PG_PRESENT OR PG_SELF OR PG_RW in
      case vwrite (self_addr 1 1022) e s of None \<Rightarrow> None
      | Some s \<Rightarrow> (case copy_traverse ks ke dest 1 (table_vpns 0) s of None \<Rightarrow> None
      | Some (ret, s) \<Rightarrow> (case vwrite (other_addr 1 1023) e s of None \<Rightarrow> None
      | Some s \<Rightarrow> map_option (Pair ret) (vwrite (self_addr 1 1022) 0 s))))"

section \<open>Page faults and initialisation\<close>

text \<open>
  A fault inside the heap area of the task is served with a fresh zeroed page. Any other fault,
  and a failure on the way, prints a message and halts for ever: \<open>None\<close>.
\<close>

definition page_fault_handler :: "addr \<Rightarrow> u32 \<Rightarrow> 'a mmu_scheme \<Rightarrow> 'a mmu_scheme option" where
  "page_fault_handler ke cr2 s =
     (let h = task_heap s (current_id s) in
      if h \<noteq> 0 \<and> cr2 \<ge> v_start (vma_at s h) \<and> cr2 < v_end (vma_at s h) then
        (let viraddr = cr2 AND PAGE_MASK in
         case get_page ke s of
           None \<Rightarrow> None
         | Some (phyaddr, s) \<Rightarrow>
             if phyaddr = 0 then None
             else (case page_map ke viraddr phyaddr 1 (PG_USER OR PG_RW) s of
                 None \<Rightarrow> None
               | Some (ret, s) \<Rightarrow> if ret \<noteq> 0 then None else zero_page viraddr s))
      else None)"

definition map_identity :: "addr \<Rightarrow> u32 \<Rightarrow> u32 \<Rightarrow> 'a mmu_scheme \<Rightarrow> 'a mmu_scheme option" where
  "map_identity ke a len s =
     map_option snd (page_map ke a a (drop_bit PAGE_BITS (PAGE_FLOOR len)) PG_GLOBAL s)"

definition page_init :: "addr \<Rightarrow> (addr \<times> multiboot_info) option \<Rightarrow> 'a mmu_scheme \<Rightarrow> (int \<times> 'a mmu_scheme) option" where
  "page_init ke mb_info s =
     (case mb_info of
        None \<Rightarrow> Some (0, s)
      | Some (_, mb) \<Rightarrow>
          if has_flag (mb_flags mb) MULTIBOOT_INFO_MODS then
            (case map_identity ke (mods_addr mb) (mods_count mb * 16) s of
               None \<Rightarrow> None
             | Some s \<Rightarrow>
                 map_option (Pair 0)
                   (foldM (\<lambda>i. map_identity ke (fst (mb_mods mb i)) (snd (mb_mods mb i) - fst (mb_mods mb i)))
                     [0..<unat (mods_count mb)] s))
          else Some (0, s))"

declare drop_traverse.simps [simp del] copy_traverse.simps [simp del]

end
