(* ===== verification/Kmalloc.thy ===== *)
theory Kmalloc
  imports Paging
begin

text \<open>
  The kernel heap, \<^verbatim>\<open>mm/malloc.c\<close>: buddy blocks in one free list per power of two. A free block
  starts with the link to the next one, an allocated block with a prefix (exponent and magic
  number); both are the first word of the block, so one field \<open>heap_word\<close> holds them. \<^verbatim>\<open>kmalloc\<close>
  may grow the heap with \<^verbatim>\<open>palloc\<close>, which calls \<^verbatim>\<open>vma_alloc\<close>, which may call \<^verbatim>\<open>kmalloc\<close>: each
  function takes the nested \<^verbatim>\<open>kmalloc\<close> as an argument, and \<open>kmalloc d\<close> allows \<open>d\<close> nested calls
  (the kernel stack bounds them), a deeper nesting being \<open>None\<close>. A call that finds a free block
  in the lists needs no nesting at all.
\<close>

section \<open>State\<close>

record kheap = mmu +
  heap_word :: "addr \<Rightarrow> u32"
  pnode_lists :: "nat \<Rightarrow> addr"
  copy_viraddr :: u32

definition PNODE_MAX :: nat where [simp]: "PNODE_MAX = 32"
definition PNODE_MIN :: nat where [simp]: "PNODE_MIN = 3"
definition PNODE_ALLOC :: nat where [simp]: "PNODE_ALLOC = 16"
definition PNODE_MAGIC :: u32 where [simp]: "PNODE_MAGIC = 0xBABE"

definition pnode_magic :: "u32 \<Rightarrow> u32" where
  "pnode_magic w = drop_bit 16 w"

definition pnode_exponent :: "u32 \<Rightarrow> nat" where
  "pnode_exponent w = unat (w AND 0xFF)"

text \<open>Setting the 16-bit magic in the upper half and the 8-bit exponent in the lowest byte.\<close>

definition set_prefix :: "nat \<Rightarrow> u32 \<Rightarrow> u32" where
  "set_prefix exp w =
     (let w = (w AND 0xFFFF) OR push_bit 16 PNODE_MAGIC in (w AND 0xFFFFFF00) OR of_nat exp)"

definition set_word :: "addr \<Rightarrow> u32 \<Rightarrow> 'a kheap_scheme \<Rightarrow> 'a kheap_scheme" where
  "set_word a w s = s\<lparr>heap_word := (heap_word s)(a := w)\<rparr>"

definition set_list :: "nat \<Rightarrow> addr \<Rightarrow> 'a kheap_scheme \<Rightarrow> 'a kheap_scheme" where
  "set_list i a s = s\<lparr>pnode_lists := (pnode_lists s)(i := a)\<rparr>"

section \<open>Operations\<close>

function pnode_large_avail :: "'a kheap_scheme \<Rightarrow> nat \<Rightarrow> bool" where
  "pnode_large_avail s exp =
     (if exp < PNODE_MAX \<and> pnode_lists s (exp - PNODE_MIN) = 0 then pnode_large_avail s (exp + 1)
      else exp \<noteq> PNODE_MAX)"
  by pat_completeness auto
termination by (relation "measure (\<lambda>(s, exp). PNODE_MAX - exp)") auto

text \<open>The smallest exponent; \<^verbatim>\<open>1 << exp\<close> is undefined from 32 on.\<close>

function exp_from :: "u32 \<Rightarrow> nat \<Rightarrow> nat option" where
  "exp_from sz exp =
     (if exp \<ge> 32 then None
      else if sz > push_bit exp 1 then exp_from sz (exp + 1) else Some exp)"
  by pat_completeness auto
termination by (relation "measure (\<lambda>(sz, exp). 32 - exp)") auto

definition pnode_exp :: "u32 \<Rightarrow> nat option" where
  "pnode_exp sz =
     (case exp_from sz 0 of None \<Rightarrow> None
      | Some exp \<Rightarrow>
          let exp = (if exp > PNODE_MAX then 0 else exp);
              exp = (if exp < PNODE_MIN then PNODE_MIN else exp)
          in Some exp)"

definition kfree :: "addr \<Rightarrow> 'a kheap_scheme \<Rightarrow> 'a kheap_scheme option" where
  "kfree a s =
     (if a = 0 then Some s
      else let pnode = a - 4; w = heap_word s pnode; i = pnode_exponent w - PNODE_MIN in
        if pnode_magic w \<noteq> PNODE_MAGIC then Some s
        else if PNODE_MIN \<le> pnode_exponent w \<and> pnode_exponent w \<le> PNODE_MAX
        then Some (set_list i pnode (set_word pnode (pnode_lists s i) s))
        else None)"

type_synonym 'a alloc_fun = "u32 \<Rightarrow> 'a kheap_scheme \<Rightarrow> (addr \<times> 'a kheap_scheme) option"

definition palloc_with :: "'a alloc_fun \<Rightarrow> addr \<Rightarrow> u32 \<Rightarrow> 'a kheap_scheme \<Rightarrow> (addr \<times> 'a kheap_scheme) option" where
  "palloc_with km ke sz s =
     (let npages = drop_bit PAGE_BITS (PAGE_FLOOR sz) in
      case vma_alloc km (npages * PAGE_SIZE) VMA_HEAP s of None \<Rightarrow> None
      | Some (viraddr, s) \<Rightarrow> if viraddr = 0 then Some (0, s) else
     (case get_pages ke npages s of None \<Rightarrow> None
      | Some (phyaddr, s) \<Rightarrow>
          if phyaddr = 0
          then map_option (\<lambda>(_, s). (0, s)) (vma_free km kfree viraddr (viraddr + npages * PAGE_SIZE) s)
          else
     (case page_map ke viraddr phyaddr npages (PG_RW OR PG_GLOBAL) s of None \<Rightarrow> None
      | Some (err, s) \<Rightarrow>
          if err \<noteq> 0
          then (case vma_free km kfree viraddr (viraddr + npages * PAGE_SIZE) s of None \<Rightarrow> None
                | Some (_, s) \<Rightarrow> map_option (\<lambda>(_, s). (0, s)) (put_pages phyaddr npages s))
          else Some (viraddr, s))))"

text \<open>\<^verbatim>\<open>pnode_get\<close> recurses to larger exponents; \<open>n\<close> counts how many are left below 32.\<close>

fun pnode_get_with :: "'a alloc_fun \<Rightarrow> addr \<Rightarrow> nat \<Rightarrow> nat \<Rightarrow> 'a kheap_scheme \<Rightarrow> (addr \<times> 'a kheap_scheme) option" where
  "pnode_get_with km ke 0 exp s = None"
| "pnode_get_with km ke (Suc n) exp s =
     (let i = exp - PNODE_MIN; pnode = pnode_lists s i in
      if pnode \<noteq> 0 then Some (pnode, set_list i (heap_word s pnode) s)
      else if exp \<ge> PNODE_ALLOC \<and> \<not> pnode_large_avail s exp
      then (if exp < 32 then palloc_with km ke (push_bit exp 1) s else None)
      else (case pnode_get_with km ke n (exp + 1) s of None \<Rightarrow> None
            | Some (pnode, s) \<Rightarrow>
                if pnode = 0 then Some (0, s)
                else let split = pnode + push_bit exp 1
                     in Some (pnode, set_list i split (set_word split (pnode_lists s i) s))))"

definition kmalloc_with :: "'a alloc_fun \<Rightarrow> addr \<Rightarrow> u32 \<Rightarrow> 'a kheap_scheme \<Rightarrow> (addr \<times> 'a kheap_scheme) option" where
  "kmalloc_with km ke sz s =
     (if sz = 0 then Some (0, s)
      else case pnode_exp (sz + 4) of None \<Rightarrow> None
      | Some exp \<Rightarrow>
          if exp = 0 then Some (0, s)
          else (case pnode_get_with km ke (Suc (PNODE_MAX - exp)) exp s of None \<Rightarrow> None
                | Some (pnode, s) \<Rightarrow>
                    if pnode = 0 then Some (0, s)
                    else Some (pnode + 4, set_word pnode (set_prefix exp (heap_word s pnode)) s)))"

text \<open>The nesting of \<^verbatim>\<open>kmalloc\<close> inside \<^verbatim>\<open>kmalloc\<close>.\<close>

fun kmalloc :: "nat \<Rightarrow> addr \<Rightarrow> u32 \<Rightarrow> 'a kheap_scheme \<Rightarrow> (addr \<times> 'a kheap_scheme) option" where
  "kmalloc 0 ke sz s = None"
| "kmalloc (Suc d) ke sz s = kmalloc_with (kmalloc d ke) ke sz s"

definition palloc :: "nat \<Rightarrow> addr \<Rightarrow> u32 \<Rightarrow> 'a kheap_scheme \<Rightarrow> (addr \<times> 'a kheap_scheme) option" where
  "palloc d ke = palloc_with (kmalloc d ke) ke"

definition pfree :: "nat \<Rightarrow> addr \<Rightarrow> addr \<Rightarrow> u32 \<Rightarrow> 'a kheap_scheme \<Rightarrow> 'a kheap_scheme option" where
  "pfree d ke a sz s =
     (if a = 0 \<or> sz = 0 then Some s
      else let viraddr = a AND PAGE_MASK; npages = drop_bit PAGE_BITS (PAGE_FLOOR sz) in
        case foldM (\<lambda>i s. case virt_to_phys s (viraddr + of_nat i * PAGE_SIZE) of
                       None \<Rightarrow> None
                     | Some phyaddr \<Rightarrow> map_option snd (put_page phyaddr s)) [0..<unat npages] s of
          None \<Rightarrow> None
        | Some s \<Rightarrow>
            (case page_unmap viraddr npages s of None \<Rightarrow> None
             | Some (_, s) \<Rightarrow>
                 map_option snd (vma_free (kmalloc d ke) kfree viraddr (viraddr + npages * PAGE_SIZE) s)))"

text \<open>
  \<^verbatim>\<open>getsize\<close> takes the whole prefix word for the size of the block. \<open>copy\<close> is the \<^verbatim>\<open>memcpy\<close>
  between virtual addresses (\<open>None\<close> for a fault).
\<close>

definition getsize :: "'a kheap_scheme \<Rightarrow> addr \<Rightarrow> u32" where
  "getsize s p = (if p \<noteq> 0 then heap_word s (p - 4) else -1)"

definition realloc ::
  "nat \<Rightarrow> (addr \<Rightarrow> addr \<Rightarrow> u32 \<Rightarrow> 'a kheap_scheme \<Rightarrow> 'a kheap_scheme option) \<Rightarrow> addr \<Rightarrow> addr \<Rightarrow> u32
     \<Rightarrow> 'a kheap_scheme \<Rightarrow> (addr \<times> 'a kheap_scheme) option" where
  "realloc d copy ke ptr sz s =
     (let msize = getsize s ptr in
      if sz \<le> msize then Some (ptr, s)
      else (case kmalloc d ke sz s of None \<Rightarrow> None
            | Some (newptr, s) \<Rightarrow>
                (case copy newptr ptr msize s of None \<Rightarrow> None
                 | Some s \<Rightarrow> map_option (Pair newptr) (kfree ptr s))))"

section \<open>Copying a frame, and the initialisation of the memory subsystem\<close>

definition copy_page :: "nat \<Rightarrow> addr \<Rightarrow> u32 \<Rightarrow> u32 \<Rightarrow> 'a kheap_scheme \<Rightarrow> (int \<times> 'a kheap_scheme) option" where
  "copy_page d ke pdest psrc s =
     (case (if copy_viraddr s = 0
            then map_option (\<lambda>(v, s). (v, s\<lparr>copy_viraddr := v\<rparr>)) (vma_alloc (kmalloc d ke) (2 * PAGE_SIZE) VMA_HEAP s)
            else Some (copy_viraddr s, s)) of
        None \<Rightarrow> None
      | Some (viraddr, s) \<Rightarrow> if viraddr = 0 then Some (- ENOMEM, s) else
     (let vsrc = viraddr; vdest = viraddr + PAGE_SIZE in
      case page_map ke vsrc psrc 1 (PG_GLOBAL OR PG_RW) s of None \<Rightarrow> None
      | Some (err, s) \<Rightarrow>
          if err \<noteq> 0 then map_option (\<lambda>(_, s). (- ENOMEM, s)) (page_unmap viraddr 1 s) else
     (case page_map ke vdest pdest 1 (PG_GLOBAL OR PG_RW) s of None \<Rightarrow> None
      | Some (err, s) \<Rightarrow>
          if err \<noteq> 0 then map_option (\<lambda>(_, s). (- ENOMEM, s)) (page_unmap (viraddr + PAGE_SIZE) 1 s) else
     (case copy_words vdest vsrc s of None \<Rightarrow> None
      | Some s \<Rightarrow> page_unmap viraddr 2 s))))"

definition memory_init ::
  "nat \<Rightarrow> (addr \<times> multiboot_info) option \<Rightarrow> addr \<Rightarrow> addr \<Rightarrow> 'a kheap_scheme \<Rightarrow> (int \<times> 'a kheap_scheme) option" where
  "memory_init d mb_info ks ke s =
     (case page_init ke mb_info (mark_all s) of None \<Rightarrow> None
      | Some (ret, s) \<Rightarrow> if ret \<noteq> 0 then Some (ret, s) else
     (case init_bitmap mb_info ks ke s of None \<Rightarrow> None
      | Some s \<Rightarrow>
     (case vma_init (kmalloc d ke) mb_info ks ke s of None \<Rightarrow> None
      | Some (ret, s) \<Rightarrow> if ret \<noteq> 0 then Some (ret, s) else
     (case mb_info of
        None \<Rightarrow> Some (ret, s)
      | Some (_, mb) \<Rightarrow>
          if has_flag (mb_flags mb) MULTIBOOT_INFO_MODS then map_option (Pair ret) (mark_modules mb s)
          else Some (ret, s)))))"

section \<open>The free lists\<close>

text \<open>The blocks linked from an address on, and the blocks of all lists that hold an address.\<close>

fun linked :: "(addr \<Rightarrow> u32) \<Rightarrow> addr \<Rightarrow> addr list \<Rightarrow> bool" where
  "linked w p [] \<longleftrightarrow> p = 0"
| "linked w p (x # xs) \<longleftrightarrow> p = x \<and> x \<noteq> 0 \<and> linked w (w x) xs"

definition in_block :: "nat \<Rightarrow> addr \<Rightarrow> nat \<Rightarrow> bool" where
  "in_block exp x a \<longleftrightarrow> unat x \<le> a \<and> a < unat x + 2 ^ exp"

definition occurrences :: "(nat \<Rightarrow> addr list) \<Rightarrow> nat \<Rightarrow> nat" where
  "occurrences B a = (\<Sum>i<30. length (filter (\<lambda>x. in_block (i + 3) x a) (B i)))"

text \<open>
  The lists hold the blocks \<open>B\<close>: no address is in two of them and none wraps around the end of
  the address space.
\<close>

definition heap_ok :: "'a kheap_scheme \<Rightarrow> (nat \<Rightarrow> addr list) \<Rightarrow> bool" where
  "heap_ok s B \<longleftrightarrow> (\<forall>i<30. linked (heap_word s) (pnode_lists s i) (B i)
      \<and> (\<forall>x\<in>set (B i). unat x + 2 ^ (i + 3) \<le> 2 ^ 32))
    \<and> (\<forall>a. occurrences B a \<le> 1)"

declare pnode_large_avail.simps [simp del] exp_from.simps [simp del]

lemma linked_upd [simp]: "x \<notin> set xs \<Longrightarrow> linked (w(x := v)) p xs = linked w p xs"
  by (induction xs arbitrary: p) auto

lemma occurrences_upd:
  assumes "i < 30"
  shows "occurrences (B(i := xs)) a + length (filter (\<lambda>x. in_block (i + 3) x a) (B i))
    = occurrences B a + length (filter (\<lambda>x. in_block (i + 3) x a) xs)"
proof -
  have "i \<in> {..<30}" using assms by simp
  then show ?thesis unfolding occurrences_def
    by (subst (1 2) sum.remove [of _ i]) auto
qed

lemma occurrences_Cons:
  "i < 30 \<Longrightarrow> occurrences (B(i := x # B i)) a = occurrences B a + of_bool (in_block (i + 3) x a)"
  using occurrences_upd [of i B "x # B i" a] by auto

lemma occurrences_tl:
  "i < 30 \<Longrightarrow> B i = x # xs \<Longrightarrow> occurrences B a = occurrences (B(i := xs)) a + of_bool (in_block (i + 3) x a)"
  using occurrences_upd [of i B xs a] by auto

lemma occurrences_ge:
  assumes "i < 30" "x \<in> set (B i)" "in_block (i + 3) x a" shows "1 \<le> occurrences B a"
proof -
  have "filter (\<lambda>x. in_block (i + 3) x a) (B i) \<noteq> []" using assms by (auto simp: filter_empty_conv)
  then have "1 \<le> length (filter (\<lambda>x. in_block (i + 3) x a) (B i))" by (cases "filter (\<lambda>x. in_block (i + 3) x a) (B i)") auto
  also have "\<dots> \<le> occurrences B a" unfolding occurrences_def using assms(1)
    by (intro member_le_sum) auto
  finally show ?thesis .
qed

lemma not_listed:
  assumes "occurrences B (unat x) = 0" "i < 30" shows "x \<notin> set (B i)"
  using occurrences_ge [of i x B "unat x"] assms by (auto simp: in_block_def)

text \<open>Putting a block that overlaps no listed one at the head of its list.\<close>

lemma heap_ok_push:
  assumes ok: "heap_ok s B" and i: "i < 30" and nz: "x \<noteq> 0" and wrap: "unat x + 2 ^ (i + 3) \<le> 2 ^ 32"
    and free: "\<forall>a. in_block (i + 3) x a \<longrightarrow> occurrences B a = 0"
  shows "heap_ok (set_list i x (set_word x (pnode_lists s i) s)) (B(i := x # B i))"
proof -
  have new: "x \<notin> set (B j)" if "j < 30" for j
    using not_listed [OF _ that] free by (simp add: in_block_def)
  have "occurrences (B(i := x # B i)) a \<le> 1" for a
    using ok free by (simp add: occurrences_Cons [OF i] heap_ok_def)
  then show ?thesis using ok i nz wrap new by (auto simp: heap_ok_def set_list_def set_word_def)
qed

lemma heap_ok_pop:
  assumes ok: "heap_ok s B" and i: "i < 30" and B: "B i = x # xs"
  shows "heap_ok (set_list i (heap_word s x) s) (B(i := xs))"
proof -
  have "occurrences (B(i := xs)) a \<le> 1" for a
    using ok occurrences_tl [where B = B, OF i B, of a] unfolding heap_ok_def by (metis add_leD1)
  moreover have "linked (heap_word s) (pnode_lists s i) (x # xs)"
    using ok i B by (metis heap_ok_def)
  moreover have "\<forall>y\<in>set xs. unat y + 2 ^ (i + 3) \<le> 2 ^ 32"
    using ok i B unfolding heap_ok_def by (metis list.set_intros(2))
  ultimately show ?thesis using ok by (auto simp: heap_ok_def set_list_def)
qed

text \<open>Writing into a block that is in no list.\<close>

lemma heap_ok_write:
  assumes "heap_ok s B" "occurrences B (unat x) = 0"
  shows "heap_ok (set_word x v s) B"
  using assms not_listed [OF assms(2)] by (auto simp: heap_ok_def set_word_def)

section \<open>Splitting and giving back\<close>

text \<open>Everything but the heap's lists stays as it is.\<close>

definition same_but_heap :: "'a kheap_scheme \<Rightarrow> 'a kheap_scheme \<Rightarrow> bool" where
  "same_but_heap s s' \<longleftrightarrow> kheap.truncate (s\<lparr>heap_word := heap_word s', pnode_lists := pnode_lists s'\<rparr>) = kheap.truncate s'"

lemma same_but_heap_refl: "same_but_heap s s"
  by (simp add: same_but_heap_def kheap.defs)

lemma same_but_heap_trans: "same_but_heap s t \<Longrightarrow> same_but_heap t u \<Longrightarrow> same_but_heap s u"
  by (simp add: same_but_heap_def kheap.defs)

lemma same_but_heap_sets: "same_but_heap s (set_list i p s)" "same_but_heap s (set_word a v s)"
  by (simp_all add: same_but_heap_def kheap.defs set_list_def set_word_def)

lemma same_but_heap_vmas: "same_but_heap s s' \<Longrightarrow> same_vmas s s'"
  by (simp add: same_but_heap_def same_vmas_def kheap.defs)

lemma large_avail:
  assumes "exp \<le> j" "j < 32" "pnode_lists s (j - 3) \<noteq> 0" shows "pnode_large_avail s exp"
  using assms
proof (induction s exp rule: pnode_large_avail.induct)
  case (1 s exp)
  show ?case
  proof (cases "pnode_lists s (exp - PNODE_MIN) = 0")
    case True
    then have "exp \<noteq> j" using 1(4) by auto
    then have "exp + 1 \<le> j" using 1(2) by simp
    then have "pnode_large_avail s (exp + 1)" using 1 True by simp
    then show ?thesis using True 1(2,3) by (subst pnode_large_avail.simps) simp
  next
    case False
    then show ?thesis using 1(2,3) by (subst pnode_large_avail.simps) simp
  qed
qed

lemma unat_push_1: "e < 32 \<Longrightarrow> unat (push_bit e (1 :: u32)) = 2 ^ e"
  using unat_of_nat_32 [of "2 ^ e"] power_strict_increasing [of e 32 "2 :: nat"]
  by (simp add: push_bit_eq_mult)

text \<open>A block is taken off its list, or a larger one is split in halves.\<close>

lemma pnode_get_splits:
  assumes "heap_ok s B" and "exp + n = 33" and "3 \<le> exp" and "exp \<le> j" and "j < 32" and "B (j - 3) \<noteq> []"
  shows "\<exists>p s' B'. pnode_get_with km ke n exp s = Some (p, s') \<and> heap_ok s' B' \<and> p \<noteq> 0
    \<and> unat p + 2 ^ exp \<le> 2 ^ 32 \<and> same_but_heap s s'
    \<and> (\<forall>a. occurrences B a = occurrences B' a + of_bool (in_block exp p a))"
  using assms
proof (induction n arbitrary: exp)
  case (Suc n)
  define i where "i = exp - 3"
  have i: "i < 30" "i + 3 = exp" using Suc.prems by (auto simp: i_def)
  have head: "linked (heap_word s) (pnode_lists s i) (B i)" using Suc.prems(1) i by (simp add: heap_ok_def)
  show ?case
  proof (cases "B i")
    case (Cons x xs)
    then have x: "pnode_lists s i = x" "x \<noteq> 0" using head by auto
    have "pnode_get_with km ke (Suc n) exp s = Some (x, set_list i (heap_word s x) s)"
      using x by (simp add: i_def)
    moreover have "unat x + 2 ^ exp \<le> 2 ^ 32" using Suc.prems(1) i Cons unfolding heap_ok_def
      by (metis list.set_intros(1))
    ultimately show ?thesis
      using x heap_ok_pop [OF Suc.prems(1) i(1) Cons] occurrences_tl [where B = B, OF i(1) Cons] i(2) same_but_heap_sets
      by (intro exI [of _ x] exI [of _ "set_list i (heap_word s x) s"] exI [of _ "B(i := xs)"] conjI)
        (simp_all del: fun_upd_apply pnode_get_with.simps)
  next
    case Nil
    then have empty: "pnode_lists s i = 0" using head by simp
    have "exp \<noteq> j" using Nil Suc.prems(6) i_def by auto
    then have lt: "exp + 1 \<le> j" "exp < 31" using Suc.prems by auto
    have "linked (heap_word s) (pnode_lists s (j - 3)) (B (j - 3))"
      using Suc.prems by (simp add: heap_ok_def)
    then have "pnode_lists s (j - 3) \<noteq> 0" using Suc.prems(6) by (cases "B (j - 3)") auto
    then have avail: "pnode_large_avail s exp" using large_avail Suc.prems by blast
    obtain p s1 B1 where r: "pnode_get_with km ke n (exp + 1) s = Some (p, s1)" "heap_ok s1 B1" "p \<noteq> 0"
      "unat p + 2 ^ (exp + 1) \<le> 2 ^ 32" "same_but_heap s s1"
      and occ: "\<And>a. occurrences B a = occurrences B1 a + of_bool (in_block (exp + 1) p a)"
      using Suc.IH [of "exp + 1"] Suc.prems lt(1) by auto
    define q where "q = p + push_bit exp 1"
    have q: "unat q = unat p + 2 ^ exp"
    proof -
      have "0 < (2 :: nat) ^ exp" "unat p + (2 ^ exp + 2 ^ exp) \<le> 2 ^ 32" using r(4) by simp_all
      then have "unat p + 2 ^ exp < 2 ^ 32" by linarith
      then show ?thesis unfolding q_def using lt(2) unat_push_1 [of exp] by (simp add: unat_word_ariths)
    qed
    let ?s = "set_list i q (set_word q (pnode_lists s1 i) s1)"
    have get: "pnode_get_with km ke (Suc n) exp s = Some (p, ?s)"
      using empty avail r(1,3) by (simp add: i_def q_def Let_def)
    have halves: "of_bool (in_block (exp + 1) p a) = (of_bool (in_block exp p a) + of_bool (in_block exp q a) :: nat)" for a
      using q by (auto simp: in_block_def)
    have le1: "occurrences B a \<le> 1" for a using Suc.prems(1) by (simp add: heap_ok_def)
    have free: "occurrences B1 a = 0" if "in_block exp q a" for a
      using le1 [of a] occ [of a] halves [of a] that by simp
    have "q \<noteq> 0" using q by (metis add_is_0 power_not_zero unat_0 zero_neq_numeral)
    then have "heap_ok ?s (B1(i := q # B1 i))"
      using heap_ok_push [OF r(2) i(1), of q] free q r(4) i(2) by simp
    moreover have "occurrences B a = occurrences (B1(i := q # B1 i)) a + of_bool (in_block exp p a)" for a
      using occ [of a] halves [of a] occurrences_Cons [OF i(1), of B1 q a] i(2) by simp
    moreover have "same_but_heap s ?s" using r(5) same_but_heap_sets same_but_heap_trans by blast
    moreover have "unat p + 2 ^ exp \<le> 2 ^ 32" using r(4) by simp
    ultimately show ?thesis using get r(3) by (intro exI conjI) auto
  qed
qed simp

text \<open>The prefix carries the magic number and the exponent.\<close>

lemma prefix_fields:
  assumes "e < 256"
  shows "pnode_magic (set_prefix e w) = PNODE_MAGIC" "pnode_exponent (set_prefix e w) = e"
proof -
  define E where "E = (of_nat e :: u32)"
  have "E = take_bit 8 E" using assms by (simp add: E_def take_bit_of_nat take_bit_nat_eq_self)
  then have e: "bit E n \<Longrightarrow> n < 8" for n by (metis bit_take_bit_iff)
  have "PNODE_MAGIC = take_bit 16 PNODE_MAGIC" by simp
  then have m: "bit PNODE_MAGIC n \<Longrightarrow> n < 16" for n by (metis bit_take_bit_iff)
  have masks: "(0xFFFF :: u32) = mask 16" "(0xFFFFFF00 :: u32) = NOT (mask 8)" "(0xFF :: u32) = mask 8"
    by (simp_all add: mask_eq_exp_minus_1)
  show "pnode_magic (set_prefix e w) = PNODE_MAGIC"
    unfolding pnode_magic_def set_prefix_def Let_def masks E_def [symmetric]
    by (rule bit_word_eqI) (auto simp: bit_simps simp del: PNODE_MAGIC_def dest: e m)
  have "set_prefix e w AND mask 8 = E"
    unfolding set_prefix_def Let_def masks E_def [symmetric]
    by (rule bit_word_eqI) (auto simp: bit_simps simp del: PNODE_MAGIC_def dest: e)
  then show "pnode_exponent (set_prefix e w) = e"
    unfolding pnode_exponent_def masks using assms by (simp add: E_def unat_of_nat_32)
qed

lemma exp_from_least:
  "unat sz \<le> 2 ^ j \<Longrightarrow> j < 32 \<Longrightarrow> exp \<le> j \<Longrightarrow>
   \<exists>e. exp_from sz exp = Some e \<and> exp \<le> e \<and> e \<le> j \<and> unat sz \<le> 2 ^ e"
proof (induction sz exp rule: exp_from.induct)
  case (1 sz exp)
  have le: "exp < 32" using 1 by simp
  have w: "sz > push_bit exp 1 \<longleftrightarrow> 2 ^ exp < unat sz"
    using unat_push_1 [OF le] by (simp add: word_less_nat_alt)
  show ?case
  proof (cases "2 ^ exp < unat sz")
    case True
    then have "exp \<noteq> j" using 1(2) by auto
    then obtain e where "exp_from sz (exp + 1) = Some e" "exp + 1 \<le> e" "e \<le> j" "unat sz \<le> 2 ^ e"
      using 1 True w le by fastforce
    then show ?thesis using True w le by (subst exp_from.simps) auto
  next
    case False
    then show ?thesis using w le 1(4) by (subst exp_from.simps) auto
  qed
qed

lemma pnode_exp_fits:
  assumes "unat sz \<le> 2 ^ j" "3 \<le> j" "j < 32"
  shows "\<exists>e. pnode_exp sz = Some e \<and> 3 \<le> e \<and> e \<le> j \<and> unat sz \<le> 2 ^ e"
proof -
  obtain e where e: "exp_from sz 0 = Some e" "e \<le> j" "unat sz \<le> 2 ^ e"
    using exp_from_least [OF assms(1,3), of 0] by auto
  have "(2 :: nat) ^ e \<le> 2 ^ 3" if "e < 3" using that by (intro power_increasing) auto
  then have "unat sz \<le> 2 ^ 3" if "e < 3" using that e(3) by simp
  then show ?thesis using e assms(2,3) by (auto simp: pnode_exp_def Let_def)
qed

lemma kmalloc_takes:
  assumes ok: "heap_ok s B" and sz: "0 < sz" "unat sz + 4 \<le> 2 ^ j" and j: "3 \<le> j" "j < 32" and B: "B (j - 3) \<noteq> []"
  shows "\<exists>p s' B' e. kmalloc (Suc d) ke sz s = Some (p + 4, s') \<and> heap_ok s' B' \<and> p \<noteq> 0
    \<and> 3 \<le> e \<and> e < 32 \<and> unat sz + 4 \<le> 2 ^ e \<and> unat p + 2 ^ e \<le> 2 ^ 32
    \<and> pnode_magic (heap_word s' p) = PNODE_MAGIC \<and> pnode_exponent (heap_word s' p) = e
    \<and> same_but_heap s s' \<and> (\<forall>a. occurrences B a = occurrences B' a + of_bool (in_block e p a))"
proof -
  have "(2 :: nat) ^ j \<le> 2 ^ 31" using j by (intro power_increasing) auto
  then have u: "unat (sz + 4) = unat sz + 4" using sz by (simp add: unat_word_ariths)
  then obtain e where e: "pnode_exp (sz + 4) = Some e" "3 \<le> e" "e \<le> j" "unat sz + 4 \<le> 2 ^ e"
    using pnode_exp_fits [of "sz + 4" j] sz(2) j by auto
  obtain p s1 B1 where g: "pnode_get_with (kmalloc d ke) ke (Suc (32 - e)) e s = Some (p, s1)" "heap_ok s1 B1" "p \<noteq> 0"
    "unat p + 2 ^ e \<le> 2 ^ 32" "same_but_heap s s1"
    and occ: "\<And>a. occurrences B a = occurrences B1 a + of_bool (in_block e p a)"
    using pnode_get_splits [OF ok, of e "Suc (32 - e)" j "kmalloc d ke" ke] e j B by auto
  have "occurrences B (unat p) \<le> 1" using ok by (simp add: heap_ok_def)
  then have "occurrences B1 (unat p) = 0" using occ [of "unat p"] by (simp add: in_block_def)
  then have "heap_ok (set_word p (set_prefix e (heap_word s1 p)) s1) B1" using heap_ok_write g(2) by blast
  moreover have "same_but_heap s (set_word p (set_prefix e (heap_word s1 p)) s1)"
    using g(5) same_but_heap_sets same_but_heap_trans by blast
  moreover have "kmalloc (Suc d) ke sz s = Some (p + 4, set_word p (set_prefix e (heap_word s1 p)) s1)"
    using sz(1) e g(1,3) by (auto simp: kmalloc_with_def simp del: pnode_get_with.simps)
  ultimately show ?thesis using g(3,4) e j occ prefix_fields [of e "heap_word s1 p"]
    by (intro exI conjI) (auto simp: set_word_def simp del: kmalloc.simps)
qed

lemma kfree_gives:
  assumes ok: "heap_ok s B" and p: "p \<noteq> 0" "unat p + 2 ^ e \<le> 2 ^ 32" and e: "3 \<le> e" "e < 32"
    and prefix: "pnode_magic (heap_word s p) = PNODE_MAGIC" "pnode_exponent (heap_word s p) = e"
    and free: "\<forall>a. in_block e p a \<longrightarrow> occurrences B a = 0"
  shows "\<exists>s' B'. kfree (p + 4) s = Some s' \<and> heap_ok s' B' \<and> same_but_heap s s'
    \<and> (\<forall>a. occurrences B' a = occurrences B a + of_bool (in_block e p a))"
proof -
  have "(2 :: nat) ^ 3 \<le> 2 ^ e" using e by (intro power_increasing) auto
  then have "unat (p + 4) = unat p + 4" using p(2) by (simp add: unat_word_ariths)
  then have "p + 4 \<noteq> 0" by (metis add_is_0 unat_0 zero_neq_numeral)
  then have "kfree (p + 4) s = Some (set_list (e - 3) p (set_word p (pnode_lists s (e - 3)) s))"
    using prefix e by (simp add: kfree_def Let_def)
  moreover have "heap_ok (set_list (e - 3) p (set_word p (pnode_lists s (e - 3)) s)) (B(e - 3 := p # B (e - 3)))"
    using heap_ok_push [OF ok, of "e - 3" p] p e free by simp
  moreover have "same_but_heap s (set_list (e - 3) p (set_word p (pnode_lists s (e - 3)) s))"
    using same_but_heap_sets same_but_heap_trans by blast
  ultimately show ?thesis using occurrences_Cons [of "e - 3" B p] e
    by (intro exI conjI) auto
qed

text \<open>
  C3: \<^verbatim>\<open>kmalloc\<close> takes its block out of the free memory: whenever some free block is large enough
  for the request and its prefix, it returns the inside of a block of \<open>2 ^ e\<close> bytes that holds
  both; every address of the block was free before, is free no more, and nothing else changes
  its state; the lists stay consistent.
\<close>

theorem kmalloc_correct:
  assumes "heap_ok s B" and "0 < sz" and "unat sz + 4 \<le> 2 ^ j" and "3 \<le> j" and "j < 32" and "B (j - 3) \<noteq> []"
  shows "\<exists>p s' B' e. kmalloc (Suc d) ke sz s = Some (p + 4, s') \<and> heap_ok s' B' \<and> p \<noteq> 0
    \<and> unat sz + 4 \<le> 2 ^ e \<and> unat p + 2 ^ e \<le> 2 ^ 32 \<and> vma_at s' = vma_at s \<and> phys s' = phys s
    \<and> (\<forall>a. occurrences B a = occurrences B' a + of_bool (in_block e p a))"
proof -
  obtain p s' B' e where r: "kmalloc (Suc d) ke sz s = Some (p + 4, s')" "heap_ok s' B'" "p \<noteq> 0"
    "unat sz + 4 \<le> 2 ^ e" "unat p + 2 ^ e \<le> 2 ^ 32" "same_but_heap s s'"
    "\<forall>a. occurrences B a = occurrences B' a + of_bool (in_block e p a)"
    using kmalloc_takes [OF assms, of d ke] by auto
  have "vma_at s' = vma_at s" "phys s' = phys s" using r(6) by (simp_all add: same_but_heap_def kheap.defs)
  with r show ?thesis by blast
qed

text \<open>
  C4: Freeing what \<^verbatim>\<open>kmalloc\<close> returned restores the free memory: the same addresses are free
  as before, whatever blocks were split for the request, and the lists are consistent.
\<close>

theorem kmalloc_kfree_roundtrip:
  assumes "heap_ok s B" and "0 < sz" and "unat sz + 4 \<le> 2 ^ j" and "3 \<le> j" and "j < 32" and "B (j - 3) \<noteq> []"
  shows "\<exists>p s' s'' B''. kmalloc (Suc d) ke sz s = Some (p, s') \<and> kfree p s' = Some s''
    \<and> heap_ok s'' B'' \<and> occurrences B'' = occurrences B"
proof -
  obtain p s' B' e where r: "kmalloc (Suc d) ke sz s = Some (p + 4, s')" "heap_ok s' B'" "p \<noteq> 0"
    "3 \<le> e" "e < 32" "unat p + 2 ^ e \<le> 2 ^ 32" "pnode_magic (heap_word s' p) = PNODE_MAGIC"
    "pnode_exponent (heap_word s' p) = e" and occ: "\<forall>a. occurrences B a = occurrences B' a + of_bool (in_block e p a)"
    using kmalloc_takes [OF assms, of d ke] by blast
  have "occurrences B a \<le> 1" for a using assms(1) by (simp add: heap_ok_def)
  then have "\<forall>a. in_block e p a \<longrightarrow> occurrences B' a = 0"
    using occ by (metis (full_types) add_le_same_cancel2 le_zero_eq of_bool_eq(2) )
  from kfree_gives [OF r(2,3,6,4,5,7,8) this] obtain s'' B'' where
    "kfree (p + 4) s' = Some s''" "heap_ok s'' B''" "\<forall>a. occurrences B'' a = occurrences B' a + of_bool (in_block e p a)"
    by blast
  moreover from this(3) occ have "occurrences B'' = occurrences B" by (simp add: fun_eq_iff)
  ultimately show ?thesis using r(1) by blast
qed

section \<open>The heap behind the areas\<close>

text \<open>
  A node of 20 bytes and its prefix come out of a block of 32 bytes: the first block of the first
  non-empty list from the exponent 5 on, split down where it is larger.
\<close>

definition next_node :: "'a kheap_scheme \<Rightarrow> addr" where
  "next_node s = (case find (\<lambda>i. pnode_lists s i \<noteq> 0) [2..<29] of None \<Rightarrow> 0 | Some i \<Rightarrow> pnode_lists s i + 4)"

definition node_ready :: "'a kheap_scheme \<Rightarrow> bool" where
  "node_ready s \<longleftrightarrow> next_node s \<noteq> 0"

definition freeable :: "'a kheap_scheme \<Rightarrow> addr \<Rightarrow> bool" where
  "freeable s p \<longleftrightarrow> pnode_magic (heap_word s (p - 4)) = PNODE_MAGIC \<longrightarrow>
     pnode_exponent (heap_word s (p - 4)) \<in> {3..32}"

lemma pnode_get_first:
  "exp + n = 33 \<Longrightarrow> 3 \<le> exp \<Longrightarrow> exp \<le> j \<Longrightarrow> j < 32 \<Longrightarrow> pnode_lists s (j - 3) \<noteq> 0 \<Longrightarrow>
   \<forall>i\<in>{exp - 3..<j - 3}. pnode_lists s i = 0 \<Longrightarrow>
   \<exists>s'. pnode_get_with km ke n exp s = Some (pnode_lists s (j - 3), s') \<and> same_but_heap s s'"
proof (induction n arbitrary: exp)
  case (Suc n)
  show ?case
  proof (cases "exp = j")
    case True
    then show ?thesis using Suc.prems same_but_heap_sets by (auto simp: Let_def)
  next
    case False
    have "pnode_lists s (exp - 3) = 0" using False Suc.prems by auto
    moreover have "\<forall>i\<in>{exp + 1 - 3..<j - 3}. pnode_lists s i = 0" using Suc.prems(6) by auto
    moreover from this obtain s1 where s1: "pnode_get_with km ke n (exp + 1) s = Some (pnode_lists s (j - 3), s1)"
      "same_but_heap s s1"
      using Suc.IH [of "exp + 1"] Suc.prems(1-5) False by (auto simp del: One_nat_def)
    moreover have "same_but_heap s (set_list i a (set_word b w s1))" for i a b w
      using s1(2) same_but_heap_sets same_but_heap_trans by blast
    ultimately show ?thesis using large_avail [of exp j s] Suc.prems by (simp add: Let_def)
  qed
qed simp

lemma kmalloc_node:
  assumes "node_ready s"
  shows "\<exists>s'. kmalloc (Suc d) ke SIZEOF_VMA s = Some (next_node s, s') \<and> same_vmas s s'"
proof -
  obtain e where "pnode_exp (SIZEOF_VMA + 4) = Some e" "3 \<le> e" "e \<le> 5" "(24 :: nat) \<le> 2 ^ e"
    using pnode_exp_fits [of "SIZEOF_VMA + 4" 5] by auto
  moreover from this have "e = 3 \<or> e = 4 \<or> e = 5" by auto
  ultimately have e: "pnode_exp (SIZEOF_VMA + 4) = Some 5" by auto
  obtain k where k: "find (\<lambda>i. pnode_lists s i \<noteq> 0) [2..<29] = Some k" "next_node s = pnode_lists s k + 4"
    using assms by (auto simp: node_ready_def next_node_def simp del: upt_rec_numeral split: option.splits)
  then obtain m where m: "m < 27" "k = 2 + m" "pnode_lists s k \<noteq> 0" "\<forall>i<m. pnode_lists s (2 + i) = 0"
    by (auto simp: find_Some_iff simp del: upt_rec_numeral)
  have "\<forall>i\<in>{5 - 3..<k + 3 - 3}. pnode_lists s i = 0"
  proof
    fix i assume "i \<in> {5 - 3..<k + 3 - 3}"
    then have "i = 2 + (i - 2)" "i - 2 < m" using m(2) by auto
    then show "pnode_lists s i = 0" using m(4) by metis
  qed
  then obtain s' where s': "pnode_get_with (kmalloc d ke) ke 28 5 s = Some (pnode_lists s k, s')" "same_but_heap s s'"
    using pnode_get_first [of 5 28 "k + 3" s "kmalloc d ke" ke] m by auto
  let ?p = "pnode_lists s k"
  have "kmalloc (Suc d) ke SIZEOF_VMA s = Some (next_node s, set_word ?p (set_prefix 5 (heap_word s' ?p)) s')"
    using e s'(1) m(3) k(2) by (simp add: kmalloc_with_def)
  then show ?thesis
    using same_but_heap_vmas [OF same_but_heap_trans [OF s'(2) same_but_heap_sets(2)]] by (intro exI conjI)
qed

lemma kfree_node: "freeable s p \<Longrightarrow> \<exists>s'. kfree p s = Some s' \<and> same_vmas s s'"
  using same_but_heap_vmas [OF same_but_heap_refl]
    same_but_heap_vmas [OF same_but_heap_trans [OF same_but_heap_sets(2) same_but_heap_sets(1)]]
  unfolding kfree_def freeable_def Let_def by (auto simp: split: if_splits)

interpretation kernel_heap: vma_heap "kmalloc (Suc d) ke" kfree node_ready next_node freeable for d ke
proof
  fix s :: "'a kheap_scheme" and p q f l
  show "node_ready s \<Longrightarrow> \<exists>s'. kmalloc (Suc d) ke SIZEOF_VMA s = Some (next_node s, s') \<and> same_vmas s s'"
    by (rule kmalloc_node)
  show "node_ready s \<Longrightarrow> next_node s \<noteq> 0" by (simp add: node_ready_def)
  show "freeable s p \<Longrightarrow> \<exists>s'. kfree p s = Some s' \<and> same_vmas s s'" by (rule kfree_node)
  show "freeable (upd_vma q f s) p = freeable s p" by (simp add: freeable_def upd_vma_def)
  show "freeable (set_head l q s) p = freeable s p" by (simp add: freeable_def set_head_def)
qed


text \<open>
  C6: While the heap has a free block for the node (of 32 bytes or larger), \<^verbatim>\<open>vma_add\<close> with a
  valid range inserts it exactly when no area overlaps it, and otherwise returns \<open>-EINVAL\<close> and
  changes nothing.
\<close>

theorem vma_add_correct:
  assumes "vmas s l xs" and "node_ready s" and "next_node s \<notin> set xs"
    and "l = (if has_flag flags VMA_USER then Task_List (current_id s) else Kernel_List)"
    and "start < stop" and "if has_flag flags VMA_USER then VMA_KERN_MAX \<le> start else stop < VMA_KERN_MAX"
  shows "\<exists>r s'. vma_add (kmalloc (Suc d) ke) start stop flags s = Some (r, s') \<and>
    (if \<forall>x\<in>set xs. ends s x \<le> start \<or> stop \<le> starts s x
     then r = 0 \<and> (\<exists>xs'. vmas s' l xs' \<and> set xs' = insert (next_node s) (set xs)
        \<and> covered s' xs' = covered s xs \<union> {unat start ..< unat stop}
        \<and> covered s xs \<inter> {unat start ..< unat stop} = {})
     else r = - EINVAL \<and> s' = s)"
  by (rule kernel_heap.vma_add_result [OF assms])

text \<open>
  C7: \<^verbatim>\<open>vma_free\<close> of a range at the edge of an area (or of a whole area) uncovers exactly that
  range; a range inside no area is rejected with \<open>-EINVAL\<close>.
\<close>

theorem vma_free_correct:
  assumes "vmas s l xs" and "\<forall>x\<in>set xs. freeable s x" and "start < stop"
    and "if stop < VMA_KERN_MAX then l = Kernel_List else VMA_KERN_MAX \<le> start \<and> l = Task_List (current_id s)"
    and "\<forall>x\<in>set xs. starts s x \<le> start \<and> stop \<le> ends s x \<longrightarrow> starts s x = start \<or> ends s x = stop"
  shows "\<exists>r s'. vma_free (kmalloc (Suc d) ke) kfree start stop s = Some (r, s') \<and>
    (if \<exists>x\<in>set xs. starts s x \<le> start \<and> stop \<le> ends s x
     then r = 0 \<and> (\<exists>xs'. vmas s' l xs' \<and> set xs' \<subseteq> set xs
        \<and> covered s' xs' = covered s xs - {unat start ..< unat stop})
     else r = - EINVAL \<and> s' = s)"
  by (rule kernel_heap.vma_free_result [OF assms])

text \<open>
  Freeing a hole in the middle of an area that has a successor succeeds and links the new
  node forwards, but the successor still points back to the old node: the list is no longer
  doubly linked.
\<close>

theorem vma_free_hole_stale:
  assumes "vmas s l (us @ p # q # vs)" and "node_ready s" and "next_node s \<notin> set (us @ p # q # vs)"
    and "starts s p < start" and "start < stop" and "stop < ends s p"
    and "if stop < VMA_KERN_MAX then l = Kernel_List else VMA_KERN_MAX \<le> start \<and> l = Task_List (current_id s)"
  shows "\<exists>s'. vma_free (kmalloc (Suc d) ke) kfree start stop s = Some (0, s')
    \<and> nchain (vnexts s') (us @ p # next_node s # q # vs) None
    \<and> vprevs s' q = Some p \<and> \<not> vmas s' l (us @ p # next_node s # q # vs)"
  by (rule kernel_heap.vma_free_hole [OF assms])

text \<open>
  \<^verbatim>\<open>realloc\<close> takes the prefix word of the block for its size: a block that \<^verbatim>\<open>kmalloc\<close> returned
  is never moved, however much larger (below 3 GiB) the requested size is.
\<close>

theorem realloc_never_grows:
  assumes "p \<noteq> 0" and "heap_word s (p - 4) = set_prefix e w" and "e < 256" and "n \<le> 0xBABE0000"
  shows "realloc d copy ke p n s = Some (p, s)"
proof -
  define x where "x = set_prefix e w"
  have "drop_bit 16 x = 0xBABE" using prefix_fields(1) [OF assms(3), of w] by (simp add: pnode_magic_def x_def)
  then have "unat (drop_bit 16 x) = 0xBABE" by simp
  then have "drop_bit 16 (unat x) = 0xBABE" by (simp only: unat_drop_bit_eq)
  then have "unat x div 2 ^ 16 = 0xBABE" by (simp only: drop_bit_eq_div)
  then have "0xBABE0000 \<le> unat x" by simp
  moreover have "unat n \<le> 0xBABE0000" using assms(4) by (simp add: word_le_nat_alt)
  ultimately have "n \<le> x" by (simp add: word_le_nat_alt)
  then show ?thesis using assms(1,2) unfolding x_def by (simp add: realloc_def getsize_def)
qed

section \<open>A small heap\<close>

text \<open>Two areas in the kernel's list, a free block of 64 KiB and one of 32 bytes.\<close>

definition no_heap :: kheap where
  "no_heap = \<lparr>pm_bitmap = \<lambda>_. 0, alloc_start = 256, total_pages = 32768, total_allocated = 0,
     total_available = 32768,
     vma_at = (\<lambda>p. if p = 0x500 then \<lparr>v_start = 0xC0000, v_end = 0xD0000, v_flags = 11, v_next = 0x600, v_prev = 0\<rparr>
       else \<lparr>v_start = 0xE0000, v_end = 0xF0000, v_flags = 11, v_next = 0, v_prev = 0x500\<rparr>),
     vma_heads = (\<lambda>l. case l of Kernel_List \<Rightarrow> 0x500 | _ \<Rightarrow> 0), current_id = 0,
     phys = \<lambda>_ _. 0, cr3 = 0, user_usage = \<lambda>_. 0, task_heap = \<lambda>_. 0,
     heap_word = \<lambda>_. 0, pnode_lists = \<lambda>_. 0, copy_viraddr = 0\<rparr>"

definition small_heap :: kheap where
  "small_heap = set_list 2 0x300000 (set_word 0x300000 0 (set_list 13 0x200000 (set_word 0x200000 0 no_heap)))"

definition small_blocks :: "nat \<Rightarrow> addr list" where
  "small_blocks = (\<lambda>_. [])(13 := [0x200000], 2 := [0x300000])"

lemma small_heap_fields [simp]:
  "heap_word small_heap = (\<lambda>_. 0)" "pnode_lists small_heap = (\<lambda>_. 0)(13 := 0x200000, 2 := 0x300000)"
  "vma_at small_heap = vma_at no_heap" "vma_heads small_heap = vma_heads no_heap" "current_id small_heap = 0"
  by (auto simp: small_heap_def set_list_def set_word_def no_heap_def)

lemma small_heap_ok: "heap_ok small_heap small_blocks"
proof -
  have 0: "heap_ok no_heap (\<lambda>_. [])" by (simp add: heap_ok_def no_heap_def occurrences_def)
  have 1: "heap_ok (set_list 13 0x200000 (set_word 0x200000 0 no_heap)) ((\<lambda>_. [])(13 := [0x200000]))"
    using heap_ok_push [where i = 13 and x = "0x200000", OF 0] by (simp add: no_heap_def occurrences_def)
  have "occurrences ((\<lambda>_. [])(13 := [0x200000])) a = of_bool (in_block 16 0x200000 a)" for a
    using occurrences_Cons [of 13 "\<lambda>_. []" "0x200000" a] by (simp add: occurrences_def)
  then show ?thesis using heap_ok_push [where i = 2 and x = "0x300000", OF 1]
    by (simp add: no_heap_def in_block_def small_heap_def small_blocks_def set_list_def set_word_def)
qed

lemma small_vmas: "vmas small_heap Kernel_List [0x500, 0x600]"
  by (simp add: vmas_def vnexts_def vprevs_def starts_def ends_def no_heap_def ptr_opt_def chain_simps)

lemma small_ready: "node_ready small_heap" "next_node small_heap = 0x300004"
  by (simp_all add: node_ready_def next_node_def upt_rec [of _ 29])

theorem kmalloc_correct_witness:
  "\<exists>p s' B' e. kmalloc 1 0x100000 100 small_heap = Some (p + 4, s') \<and> heap_ok s' B' \<and> unat (100 :: u32) + 4 \<le> 2 ^ e"
  using kmalloc_correct [where sz = 100 and j = 16 and d = 0 and ke = "0x100000", OF small_heap_ok] by (auto simp: small_blocks_def simp del: kmalloc.simps)

theorem kmalloc_kfree_roundtrip_witness:
  "\<exists>p s' s'' B''. kmalloc 1 0x100000 100 small_heap = Some (p, s') \<and> kfree p s' = Some s''
    \<and> heap_ok s'' B'' \<and> occurrences B'' = occurrences small_blocks"
  using kmalloc_kfree_roundtrip [where sz = 100 and j = 16 and d = 0 and ke = "0x100000", OF small_heap_ok] by (auto simp: small_blocks_def simp del: kmalloc.simps)


theorem vma_add_correct_witness:
  "\<exists>s'. vma_add (kmalloc 1 0x100000) 0x200000 0x210000 3 small_heap = Some (0, s')
     \<and> vma_add (kmalloc 1 0x100000) 0xCF000 0xD8000 3 small_heap = Some (- EINVAL, small_heap)"
  using vma_add_correct [where flags = 3 and start = "0x200000" and stop = "0x210000" and d = 0 and ke = "0x100000", OF small_vmas small_ready(1)]
    vma_add_correct [where flags = 3 and start = "0xCF000" and stop = "0xD8000" and d = 0 and ke = "0x100000", OF small_vmas small_ready(1)]
  by (auto simp: small_ready ends_def starts_def no_heap_def has_flag_def simp del: kmalloc.simps)

theorem vma_free_correct_witness:
  "\<exists>s'. vma_free (kmalloc 1 0x100000) kfree 0xC0000 0xC8000 small_heap = Some (0, s')
     \<and> vma_free (kmalloc 1 0x100000) kfree 0xD4000 0xD8000 small_heap = Some (- EINVAL, small_heap)"
  using vma_free_correct [where start = "0xC0000" and stop = "0xC8000" and d = 0 and ke = "0x100000", OF small_vmas]
    vma_free_correct [where start = "0xD4000" and stop = "0xD8000" and d = 0 and ke = "0x100000", OF small_vmas]
  by (auto simp: freeable_def pnode_magic_def ends_def starts_def no_heap_def simp del: kmalloc.simps)

theorem vma_free_hole_stale_witness:
  "\<exists>s'. vma_free (kmalloc 1 0x100000) kfree 0xC4000 0xC8000 small_heap = Some (0, s') \<and> vprevs s' 0x600 = Some 0x500"
  using vma_free_hole_stale [where us = "[]" and vs = "[]" and p = "0x500" and q = "0x600" and start = "0xC4000" and stop = "0xC8000" and d = 0 and ke = "0x100000", of small_heap Kernel_List] small_vmas
  by (auto simp: small_ready ends_def starts_def no_heap_def simp del: kmalloc.simps)

theorem realloc_never_grows_witness:
  "realloc 1 (\<lambda>_ _ _. Some) 0x100000 0x200004 0x10000000 (set_word 0x200000 (set_prefix 5 0) small_heap)
     = Some (0x200004, set_word 0x200000 (set_prefix 5 0) small_heap)"
  by (rule realloc_never_grows [where e = 5 and w = 0]) (simp_all add: set_word_def)

end
