(* ===== verification/Terminal.thy ===== *)
theory Terminal
  imports C_Printf
begin

text \<open>
  The text console and the keyboard: \<^verbatim>\<open>video/terminal.c\<close>, \<^verbatim>\<open>devices/kb.c\<close>,
  \<^verbatim>\<open>include/terminal.h\<close> and the functions of \<^verbatim>\<open>libc/stdio\<close> that write to it. The screen is
  the video memory, cell \<open>80 * row + column\<close>; cells from 2000 on lie behind the screen. Keyboard
  interrupts are a list of scan codes.
\<close>

section \<open>State\<close>

datatype vga_color =
    Black | Blue | Green | Cyan | Red | Magenta | Brown | Light_Grey | Dark_Grey | Light_Blue
  | Light_Green | Light_Cyan | Light_Red | Light_Magenta | Light_Brown | White

fun vga_code :: "vga_color \<Rightarrow> u8" where
  "vga_code Black = 0" | "vga_code Blue = 1" | "vga_code Green = 2" | "vga_code Cyan = 3"
| "vga_code Red = 4" | "vga_code Magenta = 5" | "vga_code Brown = 6" | "vga_code Light_Grey = 7"
| "vga_code Dark_Grey = 8" | "vga_code Light_Blue = 9" | "vga_code Light_Green = 10"
| "vga_code Light_Cyan = 11" | "vga_code Light_Red = 12" | "vga_code Light_Magenta = 13"
| "vga_code Light_Brown = 14" | "vga_code White = 15"

definition VGA_WIDTH :: u32 where [simp]: "VGA_WIDTH = 80"
definition VGA_HEIGHT :: u32 where [simp]: "VGA_HEIGHT = 25"

text \<open>\<open>crtc\<close> holds the registers of the VGA controller behind the ports 0x3D4 and 0x3D5.\<close>

record console =
  cursorX :: u8
  cursorY :: u8
  TRow :: u32
  TColumn :: u32
  TColor :: u8
  TBuffer :: "nat \<Rightarrow> u16"
  crtc :: "u8 \<Rightarrow> u8"
  shiftKey :: int
  capsLock :: int
  scancode :: u8
  isNextCharReady :: int
  isButtonPressed :: int

definition vgaEntryColor :: "vga_color \<Rightarrow> vga_color \<Rightarrow> u8" where
  "vgaEntryColor fg bg = vga_code fg OR push_bit 4 (vga_code bg)"

definition vgaEntry :: "u8 \<Rightarrow> u8 \<Rightarrow> u16" where
  "vgaEntry uc color = ucast uc OR push_bit 8 (ucast color)"

section \<open>Cursor and scrolling\<close>

definition move_cursor :: "console \<Rightarrow> console" where
  "move_cursor t =
     (let cursorLocation = ucast (cursorY t) * 80 + ucast (cursorX t) :: u16
      in t\<lparr>crtc := (crtc t)(14 := ucast (drop_bit 8 cursorLocation), 15 := ucast cursorLocation)\<rparr>)"

definition setCursorToSpecificLocation :: "int \<times> int \<Rightarrow> console \<Rightarrow> console" where
  "setCursorToSpecificLocation = (\<lambda>(x, y) t. t\<lparr>cursorY := of_int y, cursorX := of_int x\<rparr>)"

definition scroll :: "console \<Rightarrow> console" where
  "scroll t =
     (if cursorY t \<ge> 25 then
        let b = fold (\<lambda>i b. b(i := b (i + 80))) [0..<24*80] (TBuffer t);
            b = fold (\<lambda>i b. b(i := vgaEntry 32 (TColor t))) [24*80..<25*80] b
        in t\<lparr>TBuffer := b, cursorY := 24\<rparr>
      else t)"

definition monInit :: "console \<Rightarrow> console" where
  "monInit t =
     (let color = vgaEntryColor Light_Grey Black;
          b = fold (\<lambda>y b. fold (\<lambda>x b. b(y * 80 + x := vgaEntry 32 color)) [0..<80] b) [0..<25] (TBuffer t)
      in move_cursor (t\<lparr>TRow := 0, TColumn := 0, TColor := color, TBuffer := b, cursorX := 0, cursorY := 0\<rparr>))"

definition monSetColor :: "u8 \<Rightarrow> console \<Rightarrow> console" where
  "monSetColor color t = t\<lparr>TColor := color\<rparr>"

section \<open>Writing\<close>

definition monPutEntryAt :: "u8 \<Rightarrow> u8 \<Rightarrow> u32 \<Rightarrow> u32 \<Rightarrow> console \<Rightarrow> console" where
  "monPutEntryAt c color x y t =
     (let index = y * VGA_WIDTH + x in
      if c = 10
      then (if TRow t = VGA_HEIGHT - 1 then scroll t else t\<lparr>TRow := TRow t + 1\<rparr>)\<lparr>TColumn := 0\<rparr>
      else t\<lparr>TBuffer := (TBuffer t)(unat index := vgaEntry c color)\<rparr>)"

definition monPutchar :: "u8 \<Rightarrow> console \<Rightarrow> console" where
  "monPutchar c t =
     (let t = monPutEntryAt c (TColor t) (TColumn t) (TRow t) t;
          t = t\<lparr>TColumn := TColumn t + 1\<rparr>
      in if TColumn t = VGA_WIDTH
         then let t = t\<lparr>TColumn := 0, TRow := TRow t + 1\<rparr>
              in if TRow t = VGA_HEIGHT then (scroll t)\<lparr>TRow := 24\<rparr> else t
         else t)"

text \<open>\<^verbatim>\<open>char\<close> is signed: \<open>c >= ' '\<close> holds for the codes 32 to 127.\<close>

definition put_at_cursor :: "u8 \<Rightarrow> console \<Rightarrow> console" where
  "put_at_cursor c t =
     (let t = monPutchar c (t\<lparr>TColumn := ucast (cursorX t), TRow := ucast (cursorY t)\<rparr>)
      in t\<lparr>cursorX := cursorX t + 1\<rparr>)"

definition put_backspace :: "console \<Rightarrow> console" where
  "put_backspace t =
     (let t = (if cursorX t = 0 then t\<lparr>cursorX := 80, cursorY := cursorY t - 1\<rparr> else t);
          t = monPutchar 32 (t\<lparr>TColumn := ucast (cursorX t) - 1, TRow := ucast (cursorY t)\<rparr>)
      in t\<lparr>cursorX := cursorX t - 1\<rparr>)"

definition handle_char :: "u8 \<Rightarrow> console \<Rightarrow> console" where
  "handle_char c t =
     (if c = 8 then put_backspace t
      else if c = 9 then t\<lparr>cursorX := (cursorX t + 8) AND NOT 7\<rparr>
      else if c = 13 then t\<lparr>cursorX := 0\<rparr>
      else if c = 10 then t\<lparr>cursorX := 0, cursorY := cursorY t + 1\<rparr>
      else if 32 \<le> c \<and> c < 128
      then (if capsLock t = 1 \<and> 0x61 \<le> c \<and> c \<le> 0x7A then put_at_cursor (c - 32) t else put_at_cursor c t)
      else t)"

definition monPut :: "u8 \<Rightarrow> console \<Rightarrow> console" where
  "monPut c t =
     (let t = handle_char c t;
          t = (if cursorX t \<ge> 80 then t\<lparr>cursorX := 0, cursorY := cursorY t + 1\<rparr> else t)
      in move_cursor (scroll t))"

definition monWrite :: "u8 list \<Rightarrow> console \<Rightarrow> console" where
  "monWrite data t = fold monPut data t"

definition monWString :: "mem \<Rightarrow> addr \<Rightarrow> console \<Rightarrow> console option" where
  "monWString m data t =
     (case strlen m data of None \<Rightarrow> None | Some n \<Rightarrow> Some (monWrite (bytes m data (unat n)) t))"

text \<open>The digits of a positive \<^verbatim>\<open>int32_t\<close>, the last one first, and their reversal.\<close>

function dec_chars :: "int \<Rightarrow> u8 list" where
  "dec_chars acc = (if acc > 0 then (48 + of_int (acc mod 10)) # dec_chars (acc div 10) else [])"
  by pat_completeness auto
termination by (relation "measure nat") auto

definition monWDec :: "u32 \<Rightarrow> console \<Rightarrow> console" where
  "monWDec n t = (if n = 0 then monPut 48 t else monWrite (rev (dec_chars (sint n))) t)"

definition monWHex :: "u32 \<Rightarrow> console \<Rightarrow> console" where
  "monWHex n t =
     (let t = monWrite [48, 120] t;
          digit = (\<lambda>tmp. if tmp \<ge> 10 then ucast (tmp - 10 + 97) else ucast (tmp + 48) :: u8);
          (t, noZeroes) = fold (\<lambda>i (t, noZeroes).
             let tmp = (drop_bit i n) AND 0xF
             in if tmp = 0 \<and> noZeroes then (t, noZeroes) else (monPut (digit tmp) t, False))
            [28, 24, 20, 16, 12, 8, 4] (t, True)
      in monPut (digit (n AND 0xF)) t)"

text \<open>\<^verbatim>\<open>kprintf\<close> formats into a buffer of 256 bytes at \<open>buf\<close>, without looking at its size.\<close>

definition kprintf :: "mem \<Rightarrow> addr \<Rightarrow> addr \<Rightarrow> u32 list \<Rightarrow> console \<Rightarrow> (u32 \<times> mem \<times> console) option" where
  "kprintf m buf fmt args t =
     (case vasprintf m buf fmt args of None \<Rightarrow> None
      | Some (m, out) \<Rightarrow> map_option (\<lambda>t. (out, m, t)) (monWString m buf t))"

text \<open>\<open>fmt\<close> is the address of the string literal \<^verbatim>\<open>"%s\n"\<close>.\<close>

definition kputs :: "mem \<Rightarrow> addr \<Rightarrow> addr \<Rightarrow> addr \<Rightarrow> console \<Rightarrow> (u32 \<times> mem \<times> console) option" where
  "kputs m buf fmt string t = kprintf m buf fmt [string] t"

section \<open>Keys\<close>

definition upKeyn :: "console \<Rightarrow> console" where
  "upKeyn t = (if cursorY t = 0 then t\<lparr>cursorY := 24\<rparr> else t\<lparr>cursorY := cursorY t - 1\<rparr>)"

definition downKeyn :: "console \<Rightarrow> console" where
  "downKeyn t = (if cursorY t = 24 then t\<lparr>cursorY := 0\<rparr> else t\<lparr>cursorY := cursorY t + 1\<rparr>)"

definition rightKeyn :: "console \<Rightarrow> console" where
  "rightKeyn t =
     (let t = (if cursorX t = 79 then t\<lparr>cursorX := 0\<rparr> else t)
      in if shiftKey t = 1 then t\<lparr>cursorX := (cursorX t + 8) AND NOT 7\<rparr> else t\<lparr>cursorX := cursorX t + 1\<rparr>)"

definition leftKeyn :: "console \<Rightarrow> console" where
  "leftKeyn t =
     (let t = (if cursorX t = 0 then t\<lparr>cursorX := 79\<rparr> else t)
      in if shiftKey t = 1 then t\<lparr>cursorX := (cursorX t - 8) AND NOT 7\<rparr> else t\<lparr>cursorX := cursorX t - 1\<rparr>)"

text \<open>The function pointers of the arrow keys; the games install others.\<close>

datatype arrow = Up | Down | Left | Right

fun cursor_keys :: "arrow \<Rightarrow> console \<Rightarrow> console" where
  "cursor_keys Up = upKeyn" | "cursor_keys Down = downKeyn"
| "cursor_keys Left = leftKeyn" | "cursor_keys Right = rightKeyn"

definition getKbCode :: "(arrow \<Rightarrow> console \<Rightarrow> console) \<Rightarrow> console \<Rightarrow> console" where
  "getKbCode keys t =
     (if scancode t AND 0x80 \<noteq> 0
      then (if scancode t \<in> {0xaa, 0xb6} then t\<lparr>shiftKey := 0\<rparr> else t)
      else let t =
        (if scancode t \<in> {0x2a, 0x36} then t\<lparr>shiftKey := 1\<rparr>
         else if scancode t = 0x3a
         then (if capsLock t = 0 then t\<lparr>capsLock := 1\<rparr>
               else if capsLock t = 1 then t\<lparr>capsLock := 0\<rparr> else t)
         else if scancode t = 0x48 then keys Up t
         else if scancode t = 0x50 then keys Down t
         else if scancode t = 0x4b then keys Left t
         else if scancode t = 0x4d then keys Right t
         else if scancode t \<in> {0x38, 0x1d, 0x5b, 0x5c} then t
         else t\<lparr>isNextCharReady := 1\<rparr>)
      in move_cursor (scroll t))"

definition keyboard_handler :: "u8 \<Rightarrow> console \<Rightarrow> console" where
  "keyboard_handler port t = t\<lparr>scancode := port, isButtonPressed := 1\<rparr>"

definition kbdus :: "u8 list" where
  "kbdus =
    [0, 27, 49, 50, 51, 52, 53, 54, 55, 56, 57, 48, 45, 61, 8, 9,
     113, 119, 101, 114, 116, 121, 117, 105, 111, 112, 91, 93, 10, 0,
     97, 115, 100, 102, 103, 104, 106, 107, 108, 59, 39, 96, 0,
     92, 122, 120, 99, 118, 98, 110, 109, 44, 46, 47, 0, 42, 0, 32, 0] @ replicate 15 0 @ [45, 0, 0, 0, 43] @ replicate 49 0"

definition kbdusS :: "u8 list" where
  "kbdusS =
    [0, 27, 33, 64, 35, 36, 37, 94, 38, 42, 40, 41, 95, 43, 8, 9,
     81, 87, 69, 82, 84, 89, 85, 73, 79, 80, 123, 125, 10, 0,
     65, 83, 68, 70, 71, 72, 74, 75, 76, 58, 34, 126, 0,
     124, 90, 88, 67, 86, 66, 78, 77, 60, 62, 63, 0, 42, 0, 32, 0] @ replicate 15 0 @ [45, 0, 0, 0, 43] @ replicate 49 0"

text \<open>
  \<^verbatim>\<open>getChar\<close> polls until a key with a character is pressed; each element of the list is a
  keyboard interrupt that arrives while it polls, and without one it polls for ever.
\<close>

fun poll_key :: "(arrow \<Rightarrow> console \<Rightarrow> console) \<Rightarrow> u8 list \<Rightarrow> console \<Rightarrow> (u8 \<times> u8 list \<times> console) option" where
  "poll_key keys [] t = None"
| "poll_key keys (port # ports) t =
     (let t = (getKbCode keys (keyboard_handler port t))\<lparr>isButtonPressed := 0\<rparr>
      in if isNextCharReady t = 0 then poll_key keys ports t
         else Some ((if shiftKey t = 1 then kbdusS else kbdus) ! unat (scancode t), ports, t))"

definition getChar :: "(arrow \<Rightarrow> console \<Rightarrow> console) \<Rightarrow> u8 list \<Rightarrow> console \<Rightarrow> (u8 \<times> u8 list \<times> console) option" where
  "getChar keys ports t = poll_key keys ports (t\<lparr>isButtonPressed := 0, isNextCharReady := 0\<rparr>)"

section \<open>Buffers\<close>

definition clearBuffer :: "mem \<Rightarrow> addr \<Rightarrow> mem option" where
  "clearBuffer m buffer =
     (case strlen m buffer of None \<Rightarrow> None | Some n \<Rightarrow> Some (fst (memset m buffer 0 n)))"

definition printBuffer :: "mem \<Rightarrow> addr \<Rightarrow> int \<Rightarrow> console \<Rightarrow> console" where
  "printBuffer m buffer sz t =
     fold (\<lambda>i t. if m (buffer + of_nat i) \<noteq> 0 then monPut (m (buffer + of_nat i)) t else t) [0..<nat sz] t"

definition bufferCount :: "mem \<Rightarrow> addr \<Rightarrow> int \<Rightarrow> int" where
  "bufferCount m buffer sz =
     fold (\<lambda>i counter. if m (buffer + of_nat i) \<noteq> 0 then counter + 1 else counter) [0..<nat sz] 0"

definition isString :: "mem \<Rightarrow> addr \<Rightarrow> int \<Rightarrow> int" where
  "isString m buffer sz =
     fold (\<lambda>i flag. if m (buffer + of_nat i) = 0 then 1 else flag) [0..<nat sz] 0"

text \<open>These two return the memory, the global \<^verbatim>\<open>bufferNum\<close> and the result.\<close>

definition addToBuffer :: "mem \<Rightarrow> int \<Rightarrow> addr \<Rightarrow> int \<Rightarrow> u8 \<Rightarrow> mem \<times> int \<times> int" where
  "addToBuffer m bufferNum buffer sz c =
     (if bufferNum < sz
      then let m = m(buffer + of_int bufferNum := c)
           in (m(buffer + of_int (sz - 1) := 0), bufferNum + 1, 1)
      else (m, bufferNum, 0))"

definition removeFromBuffer :: "mem \<Rightarrow> int \<Rightarrow> addr \<Rightarrow> int \<Rightarrow> mem \<times> int \<times> int" where
  "removeFromBuffer m bufferNum buffer sz =
     (if bufferNum < sz then (m(buffer + of_int bufferNum := 0), bufferNum - 1, 1)
      else (m, bufferNum, 0))"

definition stringCompare :: "mem \<Rightarrow> addr \<Rightarrow> addr \<Rightarrow> int \<Rightarrow> int" where
  "stringCompare m one two oneSize =
     fold (\<lambda>i flag. if m (one + of_nat i) \<noteq> m (two + of_nat i) then 0 else flag) [0..<nat oneSize] 1"

definition bufferCopy :: "mem \<Rightarrow> addr \<Rightarrow> addr \<Rightarrow> int \<Rightarrow> int \<Rightarrow> mem \<times> int" where
  "bufferCopy m dest src destSize srcSize =
     (if destSize < srcSize then (m, 0)
      else (fold (\<lambda>i m. m(dest + of_nat i := m (src + of_nat i))) [0..<nat destSize] m, 1))"

section \<open>The screen\<close>

definition on_screen :: "console \<Rightarrow> bool" where
  "on_screen t \<longleftrightarrow> cursorX t < 80 \<and> cursorY t < 25"

lemma fold_shift_up:
  "fold (\<lambda>i b. b(i := b (i + 80))) [0..<n] b = (\<lambda>i. if i < n then b (i + 80) else b i)" for b :: "nat \<Rightarrow> 'a"
  by (induction n) (auto simp: fun_eq_iff less_Suc_eq)

lemma fold_fill:
  "fold (\<lambda>i b. b(i := v)) [m..<n] b = (\<lambda>i. if m \<le> i \<and> i < n then v else b i)" for b :: "nat \<Rightarrow> 'a"
  by (induction n) (auto simp: fun_eq_iff less_Suc_eq)

lemma scroll_eq:
  "scroll t = (if cursorY t \<ge> 25
     then t\<lparr>TBuffer := (\<lambda>i. if i < 1920 then TBuffer t (i + 80) else if i < 2000 then vgaEntry 32 (TColor t) else TBuffer t i),
            cursorY := 24\<rparr> else t)"
  unfolding scroll_def fold_shift_up fold_fill Let_def by (auto simp: fun_eq_iff)

lemma scroll_fields [simp]:
  "cursorX (scroll t) = cursorX t" "cursorY (scroll t) = (if cursorY t \<ge> 25 then 24 else cursorY t)"
  "TColor (scroll t) = TColor t" "TRow (scroll t) = TRow t" "TColumn (scroll t) = TColumn t"
  "capsLock (scroll t) = capsLock t" "shiftKey (scroll t) = shiftKey t" "scancode (scroll t) = scancode t"
  "isNextCharReady (scroll t) = isNextCharReady t"
  by (auto simp: scroll_eq)

lemma scroll_behind: "2000 \<le> i \<Longrightarrow> TBuffer (scroll t) i = TBuffer t i"
  by (auto simp: scroll_eq)

lemma scroll_on: "cursorY t < 25 \<Longrightarrow> scroll t = t"
  by (auto simp: scroll_eq)

lemma move_cursor_fields [simp]:
  "cursorX (move_cursor t) = cursorX t" "cursorY (move_cursor t) = cursorY t"
  "TColor (move_cursor t) = TColor t" "TBuffer (move_cursor t) = TBuffer t"
  "capsLock (move_cursor t) = capsLock t" "shiftKey (move_cursor t) = shiftKey t"
  "scancode (move_cursor t) = scancode t" "isNextCharReady (move_cursor t) = isNextCharReady t"
  by (simp_all add: move_cursor_def Let_def)

declare dec_chars.simps [simp del]

text \<open>One character at a cell of the screen; the cursor does not move.\<close>

definition cell :: "u8 \<Rightarrow> u8 \<Rightarrow> nat" where
  "cell x y = 80 * unat y + unat x"

lemma unat_cell:
  assumes "unat x < 80" "unat y < 25" shows "unat ((ucast (y :: u8) :: u32) * VGA_WIDTH + ucast (x :: u8)) = cell x y"
  using assms by (simp add: cell_def unat_word_ariths unsigned_ucast_eq take_bit_nat_eq_self)

lemma monPutchar_at:
  assumes "unat x < 80" "unat y < 25" "TColumn t = ucast x" "TRow t = ucast y" "c \<noteq> 10" "cursorY t < 25"
  shows "TBuffer (monPutchar c t) = (TBuffer t)(cell x y := vgaEntry c (TColor t))"
    "cursorX (monPutchar c t) = cursorX t" "cursorY (monPutchar c t) = cursorY t"
    "TColor (monPutchar c t) = TColor t" "capsLock (monPutchar c t) = capsLock t"
proof -
  define b where "b = (TBuffer t)(cell x y := vgaEntry c (TColor t))"
  have put: "monPutEntryAt c (TColor t) (TColumn t) (TRow t) t = t\<lparr>TBuffer := b\<rparr>"
    using assms(5) unat_cell [OF assms(1,2)] unfolding monPutEntryAt_def b_def assms(3,4) by (simp add: Let_def)
  have "cursorY (t\<lparr>TBuffer := b, TColumn := q, TRow := r\<rparr>) < 25" for q r using assms(6) by simp
  note sc = scroll_on [OF this]
  show "TBuffer (monPutchar c t) = (TBuffer t)(cell x y := vgaEntry c (TColor t))"
    unfolding monPutchar_def put Let_def b_def [symmetric] by (simp add: sc)
  show "cursorX (monPutchar c t) = cursorX t" "cursorY (monPutchar c t) = cursorY t"
    "TColor (monPutchar c t) = TColor t" "capsLock (monPutchar c t) = capsLock t"
    unfolding monPutchar_def put Let_def by (simp_all add: sc)
qed

lemma put_at_cursor_at:
  assumes "on_screen t" "c \<noteq> 10"
  shows "TBuffer (put_at_cursor c t) = (TBuffer t)(cell (cursorX t) (cursorY t) := vgaEntry c (TColor t))"
    "cursorX (put_at_cursor c t) = cursorX t + 1" "cursorY (put_at_cursor c t) = cursorY t"
    "TColor (put_at_cursor c t) = TColor t" "capsLock (put_at_cursor c t) = capsLock t"
proof -
  have u: "unat (cursorX t) < 80" "unat (cursorY t) < 25" using assms(1) by (simp_all add: on_screen_def word_less_nat_alt)
  let ?t = "t\<lparr>TColumn := ucast (cursorX t), TRow := ucast (cursorY t)\<rparr>"
  have "cursorY ?t < 25" using assms(1) by (simp add: on_screen_def)
  note f = monPutchar_at [OF u, of ?t c, OF _ _ assms(2) this]
  show "TBuffer (put_at_cursor c t) = (TBuffer t)(cell (cursorX t) (cursorY t) := vgaEntry c (TColor t))"
    "cursorX (put_at_cursor c t) = cursorX t + 1" "cursorY (put_at_cursor c t) = cursorY t"
    "TColor (put_at_cursor c t) = TColor t" "capsLock (put_at_cursor c t) = capsLock t"
    by (simp_all add: put_at_cursor_def Let_def f)
qed

text \<open>Writing a character whose cell is not the last one of its row.\<close>

lemma monPut_char:
  assumes "on_screen t" "cursorX t < 79" "32 \<le> c" "c < 128" "capsLock t \<noteq> 1"
  shows "TBuffer (monPut c t) = (TBuffer t)(cell (cursorX t) (cursorY t) := vgaEntry c (TColor t))
    \<and> cursorX (monPut c t) = cursorX t + 1 \<and> cursorY (monPut c t) = cursorY t
    \<and> TColor (monPut c t) = TColor t \<and> capsLock (monPut c t) = capsLock t"
proof -
  have c: "c \<noteq> 8" "c \<noteq> 9" "c \<noteq> 13" "c \<noteq> 10" using assms(3) by auto
  note f = put_at_cursor_at [OF assms(1) c(4)]
  have "cursorX t + 1 < 80" using assms(2) by unat_arith
  then have "\<not> 80 \<le> cursorX t + 1" by simp
  moreover have "cursorY t < 25" using assms(1) by (simp add: on_screen_def)
  ultimately show ?thesis using c assms(3-5) unfolding monPut_def handle_char_def Let_def by (simp add: scroll_on f)
qed

text \<open>
  Printable text that fits in the rest of the row appears in the video memory from the
  cursor on, in the current colour; no other cell changes and the cursor stands behind it.
\<close>

theorem monWrite_row:
  assumes "on_screen t" and "\<forall>c\<in>set cs. 32 \<le> c \<and> c < 128" and "unat (cursorX t) + length cs < 80" and "capsLock t \<noteq> 1"
  shows "unat (cursorX (monWrite cs t)) = unat (cursorX t) + length cs \<and> cursorY (monWrite cs t) = cursorY t
    \<and> (\<forall>i. TBuffer (monWrite cs t) i =
         (let k = cell (cursorX t) (cursorY t) in
          if k \<le> i \<and> i < k + length cs then vgaEntry (cs ! (i - k)) (TColor t) else TBuffer t i))"
  using assms
proof (induction cs arbitrary: t)
  case (Cons c cs)
  have x: "cursorX t < 79" using Cons.prems(3) by (simp add: word_less_nat_alt)
  note p = monPut_char [OF Cons.prems(1) x _ _ Cons.prems(4), of c]
  have x1: "unat (cursorX t + 1) = unat (cursorX t) + 1" using x by (simp add: unat_word_ariths word_less_nat_alt)
  have on: "on_screen (monPut c t)" using p Cons.prems(1,2) x by (auto simp: on_screen_def) unat_arith
  have "cell (cursorX t + 1) (cursorY t) = Suc (cell (cursorX t) (cursorY t))" using x1 by (simp add: cell_def)
  then show ?case using Cons.IH [OF on] p Cons.prems x1
    by (auto simp: monWrite_def Let_def nth_Cons')
qed (auto simp: monWrite_def Let_def)

lemma put_backspace_at:
  assumes on: "on_screen t" and nz: "\<not> (cursorX t = 0 \<and> cursorY t = 0)"
  shows "on_screen (put_backspace t)" "2000 \<le> i \<Longrightarrow> TBuffer (put_backspace t) i = TBuffer t i"
proof -
  define t1 where "t1 = (if cursorX t = 0 then t\<lparr>cursorX := 80, cursorY := cursorY t - 1\<rparr> else t)"
  define x where "x = cursorX t1 - 1"
  let ?t = "t1\<lparr>TColumn := ucast (cursorX t1) - 1, TRow := ucast (cursorY t1)\<rparr>"
  have u: "unat (cursorX t1) \<noteq> 0" "unat (cursorX t1) \<le> 80" "cursorY t1 < 25"
    using on nz unfolding t1_def on_screen_def by (auto simp: word_le_nat_alt word_less_nat_alt unat_eq_0) unat_arith+
  have x: "unat x = unat (cursorX t1) - 1" using u(1,2) by (simp add: x_def unat_minus_one unat_eq_0)
  have col: "ucast (cursorX t1) - 1 = (ucast x :: u32)"
  proof -
    have e: "unat (ucast (cursorX t1) :: u32) = unat (cursorX t1)" "unat (ucast x :: u32) = unat x"
      using u(2) x by (simp_all add: unsigned_ucast_eq take_bit_nat_eq_self)
    have "ucast (cursorX t1) \<noteq> (0 :: u32)"
    proof
      assume "ucast (cursorX t1) = (0 :: u32)"
      with e(1) u(1) show False by simp
    qed
    then show ?thesis using e x by (simp add: word_unat_eq_iff unat_minus_one)
  qed
  have lt: "unat x < 80" "unat (cursorY t1) < 25" using x u by (simp_all add: word_less_nat_alt)
  note f = monPutchar_at [OF lt, of ?t 32]
  have p: "put_backspace t = (monPutchar 32 ?t)\<lparr>cursorX := cursorX (monPutchar 32 ?t) - 1\<rparr>"
    by (simp add: put_backspace_def t1_def Let_def)
  have g: "cursorX (put_backspace t) = x" "cursorY (put_backspace t) = cursorY t1"
    "TBuffer (put_backspace t) = (TBuffer t)(cell x (cursorY t1) := vgaEntry 32 (TColor t))"
    unfolding p using f col u(3) by (simp_all add: x_def t1_def)
  show "on_screen (put_backspace t)" using g lt u(3) by (simp add: on_screen_def word_less_nat_alt)
  have "cell x (cursorY t1) < 2000" using lt by (simp add: cell_def)
  then show "2000 \<le> i \<Longrightarrow> TBuffer (put_backspace t) i = TBuffer t i" by (simp add: g)
qed

lemma monPut_on_screen: "on_screen (monPut c t)"
  unfolding monPut_def Let_def on_screen_def by (simp add: not_le)

lemma monPut_behind:
  assumes on: "on_screen t" and nc: "\<not> (c = 8 \<and> cursorX t = 0 \<and> cursorY t = 0)" and i: "2000 \<le> i"
  shows "TBuffer (monPut c t) i = TBuffer t i"
proof -
  have "cell (cursorX t) (cursorY t) < 2000"
    using on by (simp add: cell_def on_screen_def word_less_nat_alt)
  then have char: "TBuffer (put_at_cursor k t) i = TBuffer t i" if "k \<noteq> 10" for k
    using put_at_cursor_at(1) [OF on that] i by simp
  have bs: "c = 8 \<Longrightarrow> TBuffer (put_backspace t) i = TBuffer t i"
    using put_backspace_at(2) [OF on _ i] nc by blast
  have "c - 32 \<noteq> 10" if "0x61 \<le> c" using that by unat_arith
  then have "TBuffer (handle_char c t) i = TBuffer t i"
    using char bs by (simp add: handle_char_def)
  then show ?thesis unfolding monPut_def Let_def by (simp add: scroll_behind [OF i])
qed

lemma backspace_corner:
  assumes "cursorX t = 0" "cursorY t = 0"
  shows "TBuffer (monPut 8 t) 20479 = vgaEntry 32 (TColor t)"
proof -
  have m: "(- 1 :: u8) = 255" "(- 1 :: u8) - 1 = 254" by simp_all
  have "TBuffer (put_backspace t) 20479 = vgaEntry 32 (TColor t)"
    using assms unfolding put_backspace_def monPutchar_def monPutEntryAt_def Let_def
    by (simp add: m)
  then show ?thesis unfolding monPut_def handle_char_def Let_def by (simp add: scroll_behind)
qed

text \<open>
  C23: \<^verbatim>\<open>monPut\<close> leaves the cursor on the screen whatever it was before and sets the hardware
  cursor to it. From a cursor on the screen it writes no cell behind the screen, except for a
  backspace in the upper left corner: that one wraps the row around and writes cell 20479.
\<close>

theorem monPut_bounds:
  "on_screen (monPut c t)
   \<and> ucast (crtc (monPut c t) 14) * 256 + ucast (crtc (monPut c t) 15)
       = (ucast (cursorY (monPut c t)) * 80 + ucast (cursorX (monPut c t)) :: u16)
   \<and> (on_screen t \<longrightarrow>
        (if c = 8 \<and> cursorX t = 0 \<and> cursorY t = 0 then TBuffer (monPut c t) 20479 = vgaEntry 32 (TColor t)
         else \<forall>i\<ge>2000. TBuffer (monPut c t) i = TBuffer t i))"
proof -
  have "ucast (crtc (move_cursor t') 14) * 256 + ucast (crtc (move_cursor t') 15)
       = (ucast (cursorY (move_cursor t')) * 80 + ucast (cursorX (move_cursor t')) :: u16)" for t'
    by (simp add: move_cursor_def Let_def u16_bytes)
  then have "ucast (crtc (monPut c t) 14) * 256 + ucast (crtc (monPut c t) 15)
       = (ucast (cursorY (monPut c t)) * 80 + ucast (cursorX (monPut c t)) :: u16)"
    unfolding monPut_def Let_def .
  then show ?thesis using monPut_on_screen monPut_behind backspace_corner by simp
qed

definition blank_screen :: console where
  "blank_screen = monInit \<lparr>cursorX = 0, cursorY = 0, TRow = 0, TColumn = 0, TColor = 0, TBuffer = \<lambda>_. 0,
     crtc = \<lambda>_. 0, shiftKey = 0, capsLock = 0, scancode = 0, isNextCharReady = 0, isButtonPressed = 0\<rparr>"

lemma blank_screen_fields [simp]:
  "cursorX blank_screen = 0" "cursorY blank_screen = 0" "capsLock blank_screen = 0" "TColor blank_screen = 7"
  "shiftKey blank_screen = 0"
  by (simp_all add: blank_screen_def monInit_def Let_def vgaEntryColor_def)

theorem monPut_bounds_witness:
  "on_screen blank_screen \<and> TBuffer (monPut 8 blank_screen) 20479 = vgaEntry 32 7"
  using monPut_bounds [of 8 blank_screen] by (simp add: on_screen_def)

theorem monWrite_row_witness:
  "cursorX (monWrite [65, 66] blank_screen) = 2 \<and> TBuffer (monWrite [65, 66] blank_screen) 1 = vgaEntry 66 7"
  using monWrite_row [of blank_screen "[65, 66]"]
  by (auto simp: on_screen_def cell_def word_unat_eq_iff)

section \<open>Keys\<close>

lemma getKbCode_character:
  assumes "port < 128" "port \<notin> {0x2a, 0x36, 0x3a, 0x48, 0x50, 0x4b, 0x4d, 0x38, 0x1d, 0x5b, 0x5c}"
  shows "isNextCharReady (getKbCode keys (keyboard_handler port t)) = 1"
    "shiftKey (getKbCode keys (keyboard_handler port t)) = shiftKey t"
    "scancode (getKbCode keys (keyboard_handler port t)) = port"
proof -
  have "port AND 0x80 = 0" using u8_high_bit [OF assms(1)] .
  then show "isNextCharReady (getKbCode keys (keyboard_handler port t)) = 1"
    "shiftKey (getKbCode keys (keyboard_handler port t)) = shiftKey t"
    "scancode (getKbCode keys (keyboard_handler port t)) = port"
    using assms(2) by (simp_all add: getKbCode_def keyboard_handler_def)
qed

text \<open>
  The two keyboard tables agree: a key gives a lower-case letter without shift exactly when
  it gives the matching upper-case letter with shift, and the characters that end or edit a
  line (newline, backspace, tab, space) are the same in both.
\<close>

theorem keyboard_tables_agree:
  "length kbdus = 128 \<and> length kbdusS = 128
   \<and> list_all2 (\<lambda>a b. (if islower (ucast a) then toupper a = b \<and> tolower b = a else isupper (ucast b) = False)
       \<and> (if a \<in> {8, 9, 10, 32} \<or> b \<in> {8, 9, 10, 32} then a = b else True)) kbdus kbdusS"
  by code_simp

text \<open>The shift state after a sequence of pressed (0x2a, 0x36) and released (0xaa, 0xb6) shift keys.\<close>

definition shift_after :: "u8 list \<Rightarrow> int \<Rightarrow> int" where
  "shift_after ports sh = fold (\<lambda>port _. if port \<in> {0x2a, 0x36} then 1 else 0) ports sh"

lemma getKbCode_shift:
  assumes "port \<in> {0x2a, 0x36, 0xaa, 0xb6}"
  shows "isNextCharReady (getKbCode keys (keyboard_handler port t)) = isNextCharReady t"
    "shiftKey (getKbCode keys (keyboard_handler port t)) = (if port \<in> {0x2a, 0x36} then 1 else 0)"
  using assms by (auto simp: getKbCode_def keyboard_handler_def)

lemma poll_key_shift:
  assumes "set mods \<subseteq> {0x2a, 0x36, 0xaa, 0xb6}" "port < 128"
    "port \<notin> {0x2a, 0x36, 0x3a, 0x48, 0x50, 0x4b, 0x4d, 0x38, 0x1d, 0x5b, 0x5c}" "isNextCharReady t = 0"
  shows "\<exists>t'. poll_key keys (mods @ port # ports) t =
    Some ((if shift_after mods (shiftKey t) = 1 then kbdusS else kbdus) ! unat port, ports, t')"
  using assms(1,4)
proof (induction mods arbitrary: t)
  case Nil
  then show ?case using getKbCode_character [OF assms(2,3)] by (simp add: shift_after_def)
next
  case (Cons q mods)
  then have "q \<in> {0x2a, 0x36, 0xaa, 0xb6}" by simp
  note f = getKbCode_shift [OF this]
  show ?case
    using Cons.IH [of "(getKbCode keys (keyboard_handler q t))\<lparr>isButtonPressed := 0\<rparr>"] Cons.prems f
    by (simp add: shift_after_def)
qed

text \<open>
  \<^verbatim>\<open>getChar\<close> returns at the first key that has a character, and translates it with the
  upper or the lower table as the shift keys pressed and released before say.
\<close>

theorem getChar_shift:
  assumes "set mods \<subseteq> {0x2a, 0x36, 0xaa, 0xb6}" and "port < 128"
    and "port \<notin> {0x2a, 0x36, 0x3a, 0x48, 0x50, 0x4b, 0x4d, 0x38, 0x1d, 0x5b, 0x5c}"
  shows "\<exists>t'. getChar keys (mods @ port # ports) t =
    Some ((if shift_after mods (shiftKey t) = 1 then kbdusS else kbdus) ! unat port, ports, t')"
  using poll_key_shift [OF assms, of "t\<lparr>isButtonPressed := 0, isNextCharReady := 0\<rparr>" keys ports]
  by (simp add: getChar_def)

theorem getChar_shift_witness:
  "\<exists>t'. getChar cursor_keys [0x2a, 0x1e, 0x1f] blank_screen = Some (65, [0x1f], t')"
  using getChar_shift [of "[0x2a]" "0x1e" cursor_keys "[0x1f]" blank_screen]
  by (simp add: shift_after_def kbdusS_def)

end
