(* ===== verification/Locks.thy ===== *)
theory Locks
  imports Kernel_Prelude
begin

text \<open>
  Atomic counters and ticket locks, \<^verbatim>\<open>include/lowlevel/atomic.h\<close>, \<^verbatim>\<open>include/spinlock.h\<close> and
  \<^verbatim>\<open>include/spinlock_types.h\<close>. Taking a lock is modelled twice: as a function for code that runs
  alone (a loop that would spin for ever is \<open>None\<close>), and as a step relation for tasks that
  interleave between the single accesses to the lock; the steps of a task alone add up to the functions.
\<close>

section \<open>Atomic operations\<close>

definition atomic_int32_test_and_set :: "u32 \<Rightarrow> u32 \<Rightarrow> u32 \<times> u32" where
  "atomic_int32_test_and_set d ret = (d, ret)"

text \<open>The result and the new value of the counter.\<close>

definition atomic_int32_add :: "u32 \<Rightarrow> u32 \<Rightarrow> u32 \<times> u32" where
  "atomic_int32_add d i = (let res = i; (i, d) = (d, d + i) in (res + i, d))"

definition atomic_int32_sub :: "u32 \<Rightarrow> u32 \<Rightarrow> u32 \<times> u32" where
  "atomic_int32_sub d i = atomic_int32_add d (- i)"

definition atomic_int32_inc :: "u32 \<Rightarrow> u32 \<times> u32" where
  "atomic_int32_inc d = atomic_int32_add d 1"

definition atomic_int32_dec :: "u32 \<Rightarrow> u32 \<times> u32" where
  "atomic_int32_dec d = atomic_int32_add d (- 1)"

definition atomic_int32_read :: "u32 \<Rightarrow> u32" where
  "atomic_int32_read d = d"

definition atomic_int32_set :: "u32 \<Rightarrow> u32 \<Rightarrow> u32" where
  "atomic_int32_set d v = snd (atomic_int32_test_and_set d v)"

lemmas atomic_defs = atomic_int32_add_def atomic_int32_sub_def atomic_int32_inc_def
  atomic_int32_dec_def atomic_int32_read_def atomic_int32_set_def atomic_int32_test_and_set_def

section \<open>Spinlocks\<close>

record slock =
  queue :: u32
  dequeue :: u32
  owner :: u32
  counter :: u32

definition NO_TASK :: u32 where [simp]: "NO_TASK = 16"

definition LOCK_INIT :: slock where
  "LOCK_INIT = \<lparr>queue = 0, dequeue = 1, owner = NO_TASK, counter = 0\<rparr>"

text \<open>The pointer argument is \<open>None\<close> for null.\<close>

definition lock_init :: "slock option \<Rightarrow> int \<times> slock option" where
  "lock_init s =
     (case s of None \<Rightarrow> (- EINVAL, None)
      | Some s \<Rightarrow> (0, Some (s\<lparr>queue := atomic_int32_set (queue s) 0, dequeue := atomic_int32_set (dequeue s) 1,
                               owner := NO_TASK, counter := 0\<rparr>)))"

definition lock_destroy :: "slock option \<Rightarrow> int \<times> slock option" where
  "lock_destroy s =
     (case s of None \<Rightarrow> (- EINVAL, None) | Some s \<Rightarrow> (0, Some (s\<lparr>owner := NO_TASK, counter := 0\<rparr>)))"

text \<open>
  The three parts of \<^verbatim>\<open>s_lock\<close>: the entry, which takes a ticket unless the task owns the lock;
  one look at \<open>dequeue\<close>; and the entry into the critical section.
\<close>

definition lock_enter :: "u32 \<Rightarrow> slock \<Rightarrow> u32 option \<times> slock" where
  "lock_enter me s =
     (if owner s = me then (None, s\<lparr>counter := counter s + 1\<rparr>)
      else let (ticket, q) = atomic_int32_add (queue s) 1 in (Some ticket, s\<lparr>queue := q\<rparr>))"

definition lock_may_enter :: "u32 \<Rightarrow> slock \<Rightarrow> bool" where
  "lock_may_enter ticket s \<longleftrightarrow> atomic_int32_read (dequeue s) = ticket"

definition lock_own :: "u32 \<Rightarrow> slock \<Rightarrow> slock" where
  "lock_own me s = s\<lparr>owner := me, counter := 1\<rparr>"

definition s_lock :: "u32 \<Rightarrow> slock option \<Rightarrow> (int \<times> slock option) option" where
  "s_lock me s =
     (case s of None \<Rightarrow> Some (- EINVAL, None)
      | Some s \<Rightarrow>
          (case lock_enter me s of
             (None, s) \<Rightarrow> Some (0, Some s)
           | (Some ticket, s) \<Rightarrow> if lock_may_enter ticket s then Some (0, Some (lock_own me s)) else None))"

definition s_unlock :: "slock option \<Rightarrow> int \<times> slock option" where
  "s_unlock s =
     (case s of None \<Rightarrow> (- EINVAL, None)
      | Some s \<Rightarrow>
          let s = s\<lparr>counter := counter s - 1\<rparr> in
          (0, Some (if counter s = 0
                    then s\<lparr>owner := NO_TASK, dequeue := snd (atomic_int32_inc (dequeue s))\<rparr> else s)))"

text \<open>A lock that nobody holds; taking and releasing it leaves it free.\<close>

definition slock_free :: "slock \<Rightarrow> bool" where
  "slock_free l \<longleftrightarrow> owner l = NO_TASK \<and> dequeue l = queue l + 1"

lemma s_lock_free:
  assumes "slock_free l" and "me < 16"
  shows "\<exists>l1. s_lock me (Some l) = Some (0, Some l1) \<and> slock_free (the (snd (s_unlock (Some l1))))"
  using assms by (auto simp: slock_free_def s_lock_def s_unlock_def lock_enter_def lock_may_enter_def lock_own_def
      atomic_defs Let_def add.commute)

section \<open>Locks that disable interrupts\<close>

record irqlock =
  iqueue :: u32
  idequeue :: u32
  icounter :: u32
  iflags :: u8

definition LOCK_IRQ_INIT :: irqlock where
  "LOCK_IRQ_INIT = \<lparr>iqueue = 0, idequeue = 1, icounter = 0, iflags = 0\<rparr>"

definition lock_irq_init :: "irqlock option \<Rightarrow> int \<times> irqlock option" where
  "lock_irq_init s =
     (case s of None \<Rightarrow> (- EINVAL, None)
      | Some s \<Rightarrow> (0, Some (s\<lparr>iqueue := 0, idequeue := 1, iflags := 0, icounter := 0\<rparr>)))"

definition lock_irq_destroy :: "irqlock option \<Rightarrow> int \<times> irqlock option" where
  "lock_irq_destroy s =
     (case s of None \<Rightarrow> (- EINVAL, None) | Some s \<Rightarrow> (0, Some (s\<lparr>iflags := 0, icounter := 0\<rparr>)))"

text \<open>The interrupt flag of the processor is a boolean that the functions pass on.\<close>

definition irq_nested_disable :: "bool \<Rightarrow> u8 \<times> bool" where
  "irq_nested_disable intr = (if intr then (1, False) else (0, False))"

definition irq_nested_enable :: "u8 \<Rightarrow> bool \<Rightarrow> bool" where
  "irq_nested_enable flags intr = (if flags \<noteq> 0 then True else intr)"

definition lock_irq :: "irqlock \<Rightarrow> bool \<Rightarrow> (irqlock \<times> bool) option" where
  "lock_irq s intr =
     (let (flags, intr) = irq_nested_disable intr in
      if icounter s = 1 then Some (s\<lparr>icounter := icounter s + 1\<rparr>, intr)
      else let (ticket, q) = atomic_int32_add (iqueue s) 1; s = s\<lparr>iqueue := q\<rparr> in
        if atomic_int32_read (idequeue s) = ticket then Some (s\<lparr>iflags := flags, icounter := 1\<rparr>, intr)
        else None)"

definition unlock_irq :: "irqlock \<Rightarrow> bool \<Rightarrow> irqlock \<times> bool" where
  "unlock_irq s intr =
     (let s = s\<lparr>icounter := icounter s - 1\<rparr> in
      if icounter s = 0
      then let flags = iflags s
           in (s\<lparr>iflags := 0, idequeue := snd (atomic_int32_inc (idequeue s))\<rparr>, irq_nested_enable flags intr)
      else (s, intr))"

text \<open>
  \<^verbatim>\<open>lock_irq\<close> and \<^verbatim>\<open>unlock_irq\<close> nest two deep and then restore the interrupt flag and a free
  lock; a third \<^verbatim>\<open>lock_irq\<close> of the same task takes a new ticket and spins for ever.
\<close>

theorem lock_irq_nesting:
  assumes "icounter s = 0" and "iqueue s + 1 = idequeue s"
  shows "\<exists>s1 s2. lock_irq s intr = Some (s1, False) \<and> lock_irq s1 False = Some (s2, False)
    \<and> lock_irq s2 False = None
    \<and> (let (s3, i3) = unlock_irq s2 False; (s4, i4) = unlock_irq s3 i3
       in \<not> i3 \<and> i4 = intr \<and> icounter s4 = 0 \<and> iqueue s4 + 1 = idequeue s4)"
proof -
  have q: "idequeue s = 1 + iqueue s" "iqueue s + 1 = 1 + iqueue s" using assms(2) by (simp_all add: add.commute)
  show ?thesis using assms(1)
    by (simp add: lock_irq_def unlock_irq_def irq_nested_disable_def irq_nested_enable_def atomic_defs q)
qed

theorem lock_irq_nesting_witness:
  "\<exists>s1 s2. lock_irq LOCK_IRQ_INIT True = Some (s1, False) \<and> lock_irq s1 False = Some (s2, False)
    \<and> lock_irq s2 False = None"
  using lock_irq_nesting [of LOCK_IRQ_INIT True] by (auto simp: LOCK_IRQ_INIT_def)

section \<open>Mutual exclusion\<close>

text \<open>
  Tasks at a spinlock, with one step for each access to the lock: the read of a field, a store, or an atomic addition. A
  task is at a depth, how often it has locked, and in a phase:
  \<^item> \<open>Idle\<close>: outside of \<^verbatim>\<open>s_lock\<close> and \<^verbatim>\<open>s_unlock\<close>, at a depth above 0 in the critical section.
  \<^item> \<open>Bump\<close>, \<open>Bumped\<close>: in \<^verbatim>\<open>s_lock\<close> of the owner, before the read of the counter and before its store.
  \<^item> \<open>Draw\<close>, \<open>Wait\<close>, \<open>Own\<close>, \<open>Count\<close>: in \<^verbatim>\<open>s_lock\<close>, before the ticket is drawn, in the loop, before the store of the owner and
    before that of the counter.
  \<^item> \<open>Dropped\<close>, \<open>Test\<close>, \<open>Clear\<close>, \<open>Serve\<close>: in \<^verbatim>\<open>s_unlock\<close>, before the store of the counter, before its test, before the store
    of the owner and before the increment of \<^verbatim>\<open>dequeue\<close>.

  All tasks see the accesses in one order. A task locks as deep as its stack lets it, and unlocks only what it has locked.
\<close>

definition MAX_NESTING :: nat where [simp]: "MAX_NESTING = 65536"

datatype phase = Idle | Bump | Bumped u32 | Draw | Wait u32 | Own | Count | Dropped u32 | Test | Clear | Serve

type_synonym tasks_at = "slock \<times> (u32 \<Rightarrow> nat \<times> phase)"

inductive lock_step :: "u32 set \<Rightarrow> tasks_at \<Rightarrow> tasks_at \<Rightarrow> bool" for T where
  test_owner: "\<lbrakk>t \<in> T; pc t = (n, Idle); n < MAX_NESTING\<rbrakk> \<Longrightarrow>
     lock_step T (s, pc) (s, pc(t := (n, if owner s = t then Bump else Draw)))"
| bump: "\<lbrakk>t \<in> T; pc t = (n, Bump)\<rbrakk> \<Longrightarrow> lock_step T (s, pc) (s, pc(t := (n, Bumped (counter s))))"
| bumped: "\<lbrakk>t \<in> T; pc t = (n, Bumped c)\<rbrakk> \<Longrightarrow> lock_step T (s, pc) (s\<lparr>counter := c + 1\<rparr>, pc(t := (Suc n, Idle)))"
| draw: "\<lbrakk>t \<in> T; pc t = (n, Draw); atomic_int32_add (queue s) 1 = (k, q)\<rbrakk> \<Longrightarrow>
     lock_step T (s, pc) (s\<lparr>queue := q\<rparr>, pc(t := (n, Wait k)))"
| spin: "\<lbrakk>t \<in> T; pc t = (n, Wait k); \<not> lock_may_enter k s\<rbrakk> \<Longrightarrow> lock_step T (s, pc) (s, pc)"
| grant: "\<lbrakk>t \<in> T; pc t = (n, Wait k); lock_may_enter k s\<rbrakk> \<Longrightarrow> lock_step T (s, pc) (s, pc(t := (n, Own)))"
| own: "\<lbrakk>t \<in> T; pc t = (n, Own)\<rbrakk> \<Longrightarrow> lock_step T (s, pc) (s\<lparr>owner := t\<rparr>, pc(t := (n, Count)))"
| count: "\<lbrakk>t \<in> T; pc t = (n, Count)\<rbrakk> \<Longrightarrow> lock_step T (s, pc) (s\<lparr>counter := 1\<rparr>, pc(t := (Suc n, Idle)))"
| drop: "\<lbrakk>t \<in> T; pc t = (Suc n, Idle)\<rbrakk> \<Longrightarrow> lock_step T (s, pc) (s, pc(t := (Suc n, Dropped (counter s))))"
| dropped: "\<lbrakk>t \<in> T; pc t = (n, Dropped c)\<rbrakk> \<Longrightarrow> lock_step T (s, pc) (s\<lparr>counter := c - 1\<rparr>, pc(t := (n, Test)))"
| still: "\<lbrakk>t \<in> T; pc t = (Suc n, Test); counter s \<noteq> 0\<rbrakk> \<Longrightarrow> lock_step T (s, pc) (s, pc(t := (n, Idle)))"
| last: "\<lbrakk>t \<in> T; pc t = (n, Test); counter s = 0\<rbrakk> \<Longrightarrow> lock_step T (s, pc) (s, pc(t := (n, Clear)))"
| clear: "\<lbrakk>t \<in> T; pc t = (n, Clear)\<rbrakk> \<Longrightarrow> lock_step T (s, pc) (s\<lparr>owner := NO_TASK\<rparr>, pc(t := (n, Serve)))"
| serve: "\<lbrakk>t \<in> T; pc t = (Suc n, Serve)\<rbrakk> \<Longrightarrow>
     lock_step T (s, pc) (s\<lparr>dequeue := snd (atomic_int32_inc (dequeue s))\<rparr>, pc(t := (n, Idle)))"

text \<open>When no other task intervenes, the steps of a task add up to the functions.\<close>

lemma s_lock_steps:
  assumes "s_lock t (Some s) = Some (0, Some s')" and "t \<in> T" and "pc t = (n, Idle)" and "n < MAX_NESTING"
  shows "(lock_step T)\<^sup>*\<^sup>* (s, pc) (s', pc(t := (Suc n, Idle)))"
proof (cases "owner s = t")
  case True
  have 1: "lock_step T (s, pc) (s, pc(t := (n, Bump)))"
    using lock_step.test_owner [of t T pc n s] assms(2,3,4) True by simp
  have 2: "lock_step T (s, pc(t := (n, Bump))) (s, pc(t := (n, Bumped (counter s))))"
    using lock_step.bump [of t T "pc(t := (n, Bump))" n s] assms(2) by simp
  have "s' = s\<lparr>counter := counter s + 1\<rparr>" using assms(1) True by (simp add: s_lock_def lock_enter_def)
  then have 3: "lock_step T (s, pc(t := (n, Bumped (counter s)))) (s', pc(t := (Suc n, Idle)))"
    using lock_step.bumped [of t T "pc(t := (n, Bumped (counter s)))" n "counter s" s] assms(2) by simp
  show ?thesis using 1 2 3 by (meson converse_rtranclp_into_rtranclp rtranclp.rtrancl_refl)
next
  case False
  obtain k q where kq: "atomic_int32_add (queue s) 1 = (k, q)" by (cases "atomic_int32_add (queue s) 1")
  let ?s = "s\<lparr>queue := q\<rparr>"
  have may: "lock_may_enter k ?s" and s': "s' = lock_own t ?s"
    using assms(1) False kq by (auto simp: s_lock_def lock_enter_def Let_def split: if_splits)
  have 1: "lock_step T (s, pc) (s, pc(t := (n, Draw)))"
    using lock_step.test_owner [of t T pc n s] assms(2,3,4) False by simp
  have 2: "lock_step T (s, pc(t := (n, Draw))) (?s, pc(t := (n, Wait k)))"
    using lock_step.draw [of t T "pc(t := (n, Draw))" n s k q] assms(2) kq by simp
  have 3: "lock_step T (?s, pc(t := (n, Wait k))) (?s, pc(t := (n, Own)))"
    using lock_step.grant [of t T "pc(t := (n, Wait k))" n k ?s] assms(2) may by simp
  have 4: "lock_step T (?s, pc(t := (n, Own))) (?s\<lparr>owner := t\<rparr>, pc(t := (n, Count)))"
    using lock_step.own [of t T "pc(t := (n, Own))" n ?s] assms(2) by simp
  have 5: "lock_step T (?s\<lparr>owner := t\<rparr>, pc(t := (n, Count))) (s', pc(t := (Suc n, Idle)))"
    using lock_step.count [of t T "pc(t := (n, Count))" n "?s\<lparr>owner := t\<rparr>"] assms(2) s' by (simp add: lock_own_def)
  show ?thesis using 1 2 3 4 5 by (meson converse_rtranclp_into_rtranclp rtranclp.rtrancl_refl)
qed

lemma s_unlock_steps:
  assumes "s_unlock (Some s) = (0, Some s')" and "t \<in> T" and "pc t = (Suc n, Idle)"
  shows "(lock_step T)\<^sup>*\<^sup>* (s, pc) (s', pc(t := (n, Idle)))"
proof -
  let ?s = "s\<lparr>counter := counter s - 1\<rparr>"
  have 1: "lock_step T (s, pc) (s, pc(t := (Suc n, Dropped (counter s))))"
    using lock_step.drop [of t T pc n s] assms(2,3) by simp
  have 2: "lock_step T (s, pc(t := (Suc n, Dropped (counter s)))) (?s, pc(t := (Suc n, Test)))"
    using lock_step.dropped [of t T "pc(t := (Suc n, Dropped (counter s)))" "Suc n" "counter s" s] assms(2) by simp
  show ?thesis
  proof (cases "counter ?s = 0")
    case True
    have 3: "lock_step T (?s, pc(t := (Suc n, Test))) (?s, pc(t := (Suc n, Clear)))"
      using lock_step.last [of t T "pc(t := (Suc n, Test))" "Suc n" ?s] assms(2) True by simp
    have 4: "lock_step T (?s, pc(t := (Suc n, Clear))) (?s\<lparr>owner := NO_TASK\<rparr>, pc(t := (Suc n, Serve)))"
      using lock_step.clear [of t T "pc(t := (Suc n, Clear))" "Suc n" ?s] assms(2) by simp
    have 5: "lock_step T (?s\<lparr>owner := NO_TASK\<rparr>, pc(t := (Suc n, Serve))) (s', pc(t := (n, Idle)))"
      using lock_step.serve [of t T "pc(t := (Suc n, Serve))" n "?s\<lparr>owner := NO_TASK\<rparr>"] assms(1,2) True
      by (simp add: s_unlock_def Let_def)
    show ?thesis using 1 2 3 4 5 by (meson converse_rtranclp_into_rtranclp rtranclp.rtrancl_refl)
  next
    case False
    have 3: "lock_step T (?s, pc(t := (Suc n, Test))) (s', pc(t := (n, Idle)))"
      using lock_step.still [of t T "pc(t := (Suc n, Test))" n ?s] assms(1,2) False by (simp add: s_unlock_def Let_def)
    show ?thesis using 1 2 3 by (meson converse_rtranclp_into_rtranclp rtranclp.rtrancl_refl)
  qed
qed

text \<open>
  The tickets as numbers that do not wrap around: \<open>D\<close> is the ticket being served, \<open>Q\<close> the last
  one given out, \<open>f t\<close> the ticket of a task that has one.
\<close>

definition served_phase :: "nat \<times> phase \<Rightarrow> bool" where
  "served_phase p \<longleftrightarrow> 0 < fst p \<or> snd p = Own \<or> snd p = Count"

definition has_ticket :: "nat \<times> phase \<Rightarrow> bool" where
  "has_ticket p \<longleftrightarrow> served_phase p \<or> (\<exists>k. snd p = Wait k)"

definition active :: "u32 set \<Rightarrow> (u32 \<Rightarrow> nat \<times> phase) \<Rightarrow> u32 set" where
  "active T pc = {t\<in>T. has_ticket (pc t)}"

definition inside :: "slock \<Rightarrow> nat \<Rightarrow> u32 \<Rightarrow> nat \<Rightarrow> nat \<Rightarrow> bool" where
  "inside s D t k n \<longleftrightarrow> k = D \<and> owner s = t \<and> 0 < n \<and> n \<le> MAX_NESTING"

fun task_ok :: "slock \<Rightarrow> nat \<Rightarrow> u32 \<Rightarrow> nat \<Rightarrow> nat \<times> phase \<Rightarrow> bool" where
  "task_ok s D t k (n, Idle) \<longleftrightarrow> n = 0 \<or> inside s D t k n \<and> counter s = of_nat n"
| "task_ok s D t k (n, Bump) \<longleftrightarrow> inside s D t k n \<and> n < MAX_NESTING \<and> counter s = of_nat n"
| "task_ok s D t k (n, Bumped c) \<longleftrightarrow> inside s D t k n \<and> n < MAX_NESTING \<and> c = of_nat n"
| "task_ok s D t k (n, Draw) \<longleftrightarrow> n = 0"
| "task_ok s D t k (n, Wait w) \<longleftrightarrow> n = 0 \<and> w = of_nat k"
| "task_ok s D t k (n, Own) \<longleftrightarrow> n = 0 \<and> k = D"
| "task_ok s D t k (n, Count) \<longleftrightarrow> n = 0 \<and> k = D \<and> owner s = t"
| "task_ok s D t k (n, Dropped c) \<longleftrightarrow> inside s D t k n \<and> c = of_nat n"
| "task_ok s D t k (n, Test) \<longleftrightarrow> inside s D t k n \<and> counter s = of_nat (n - 1)"
| "task_ok s D t k (n, Clear) \<longleftrightarrow> inside s D t k n \<and> n = 1"
| "task_ok s D t k (n, Serve) \<longleftrightarrow> k = D \<and> n = 1 \<and> owner s = NO_TASK"

definition tickets_ok :: "u32 set \<Rightarrow> slock \<Rightarrow> (u32 \<Rightarrow> nat \<times> phase) \<Rightarrow> nat \<Rightarrow> nat \<Rightarrow> (u32 \<Rightarrow> nat) \<Rightarrow> bool" where
  "tickets_ok T s pc D Q f \<longleftrightarrow>
     queue s = of_nat Q \<and> dequeue s = of_nat D \<and> D \<le> Suc Q
     \<and> inj_on f (active T pc) \<and> f ` active T pc = {D..Q} \<and> (\<forall>t\<in>T. task_ok s D t (f t) (pc t))
     \<and> (\<forall>t\<in>T. owner s = t \<longrightarrow> 0 < fst (pc t) \<or> snd (pc t) = Count)"

definition lock_inv :: "u32 set \<Rightarrow> tasks_at \<Rightarrow> bool" where
  "lock_inv T = (\<lambda>(s, pc). \<exists>D Q f. tickets_ok T s pc D Q f)"

lemma ticket_range:
  assumes "tickets_ok T s pc D Q f" "T \<subseteq> {..<16}"
  shows "Q < D + 16"
proof -
  have "T \<subseteq> of_nat ` {..<16::nat}"
  proof
    fix t assume "t \<in> T"
    then have "unat t < 16" using assms(2) by (auto simp: word_less_nat_alt)
    moreover have "t = of_nat (unat t)" by simp
    ultimately show "t \<in> of_nat ` {..<16::nat}" by blast
  qed
  then have T: "finite T" "card T \<le> 16"
    using card_mono [of "of_nat ` {..<16::nat}" T] card_image_le [of "{..<16::nat}" "of_nat :: nat \<Rightarrow> u32"]
    by (auto intro: finite_subset)
  have "card {D..Q} \<le> card T"
    using assms(1) T(1) by (metis (no_types, lifting) active_def card_image_le card_mono finite_subset le_trans mem_Collect_eq subsetI tickets_ok_def)
  then show ?thesis using T(2) by simp
qed

lemma served:
  assumes ok: "tickets_ok T s pc D Q f" and T: "T \<subseteq> {..<16}" and t: "t \<in> T" "pc t = (n, Wait k)" "lock_may_enter k s"
  shows "f t = D"
proof -
  have "f t \<in> {D..Q}" using ok t by (auto simp: tickets_ok_def active_def has_ticket_def)
  then have r: "D \<le> f t" "f t < D + 16" using ticket_range [OF ok T] by auto
  have "task_ok s D t (f t) (n, Wait k)" using ok t(1,2) unfolding tickets_ok_def by metis
  then have "of_nat (f t) = (of_nat D :: u32)" using ok t(3) by (auto simp: tickets_ok_def lock_may_enter_def atomic_defs)
  then have "(of_nat (f t - D) :: u32) = 0" using r(1) by (simp add: of_nat_diff)
  then show ?thesis using r unat_of_nat_32 [of "f t - D"] by simp
qed

lemma served_ticket: "task_ok s D t k p \<Longrightarrow> served_phase p \<Longrightarrow> k = D"
  by (induction s D t k p rule: task_ok.induct) (auto simp: served_phase_def inside_def)

lemma only_one_served:
  assumes "tickets_ok T s pc D Q f" "t \<in> T" "f t = D" "has_ticket (pc t)" "t' \<in> T" "served_phase (pc t')"
  shows "t' = t"
proof -
  have "f t' = D" using assms(1,5,6) served_ticket unfolding tickets_ok_def by blast
  then show ?thesis using assms unfolding tickets_ok_def inj_on_def active_def has_ticket_def by force
qed

text \<open>Of a task that is not served, the owner and the counter of the lock say nothing.\<close>

lemma task_ok_other: "task_ok s D t k p \<Longrightarrow> \<not> served_phase p \<Longrightarrow> task_ok s' D' t k p"
  by (induction s D t k p rule: task_ok.induct) (auto simp: served_phase_def inside_def)

text \<open>The task that is served changes the lock and stays active; the others are not served.\<close>

lemma served_step:
  assumes ok: "tickets_ok T s pc D Q f" and T: "T \<subseteq> {..<16}" and t: "t \<in> T" "f t = D" "has_ticket (pc t)"
    and new: "has_ticket p" "task_ok s' D t D p" "queue s' = queue s" "dequeue s' = dequeue s"
    and own: "owner s' \<in> {owner s, t, NO_TASK}" "owner s' = t \<longrightarrow> 0 < fst p \<or> snd p = Count"
  shows "lock_inv T (s', pc(t := p))"
proof -
  have a: "active T (pc(t := p)) = active T pc" using t new(1) by (auto simp: active_def)
  have other: "\<not> served_phase (pc t')" if "t' \<in> T" "t' \<noteq> t" for t'
    using only_one_served [OF ok t that(1)] that(2) by blast
  have "task_ok s' D t' (f t') ((pc(t := p)) t')" if "t' \<in> T" for t'
  proof (cases "t' = t")
    case False
    have "task_ok s D t' (f t') (pc t')" using ok that by (simp add: tickets_ok_def)
    then show ?thesis using False task_ok_other [OF _ other [OF that False]] by simp
  qed (use t(2) new(2) in simp)
  moreover have "0 < fst ((pc(t := p)) t') \<or> snd ((pc(t := p)) t') = Count" if "t' \<in> T" "owner s' = t'" for t'
  proof (cases "t' = t")
    case False
    then have "owner s = t'" using that T own(1) by auto
    then have "served_phase (pc t')" using ok that(1) by (auto simp: tickets_ok_def served_phase_def)
    then show ?thesis using other [OF that(1) False] by simp
  qed (use own(2) that(2) in simp)
  ultimately have "tickets_ok T s' (pc(t := p)) D Q f" using ok new(3,4) by (simp add: tickets_ok_def a)
  then show ?thesis by (auto simp: lock_inv_def)
qed


lemma at_task: "lock_inv T (s, pc) \<Longrightarrow> t \<in> T \<Longrightarrow> pc t = p \<Longrightarrow> \<exists>D Q f. tickets_ok T s pc D Q f \<and> task_ok s D t (f t) p"
  unfolding lock_inv_def by (simp, metis tickets_ok_def)

lemma unat_nesting: "n \<le> MAX_NESTING \<Longrightarrow> unat (of_nat n :: u32) = n"
  by (intro unat_of_nat_32) simp

text \<open>A step of the task that is served: its ticket is the one of \<open>dequeue\<close>, and it has the lock afterwards as it should.\<close>

lemma served_inv:
  assumes inv: "lock_inv T (s, pc)" and T: "T \<subseteq> {..<16}" and t: "t \<in> T" "served_phase (pc t)"
    and new: "\<And>D. task_ok s D t D (pc t) \<Longrightarrow> has_ticket p \<and> task_ok s' D t D p
        \<and> owner s' \<in> {owner s, t, NO_TASK} \<and> (owner s' = t \<longrightarrow> 0 < fst p \<or> snd p = Count)"
    and same: "queue s' = queue s" "dequeue s' = dequeue s"
  shows "lock_inv T (s', pc(t := p))"
proof -
  obtain D Q f where ok: "tickets_ok T s pc D Q f" "task_ok s D t (f t) (pc t)" using at_task [OF inv t(1) refl] by blast
  then have f: "f t = D" using served_ticket t(2) by blast
  then show ?thesis
    using served_step [OF ok(1) T t(1) f _ _ _ same, of p] new ok(2) t(2) by (auto simp: has_ticket_def)
qed

text \<open>A ticket is drawn.\<close>

lemma draw_inv:
  assumes inv: "lock_inv T (s, pc)" and t: "t \<in> T" "pc t = (n, Draw)"
  shows "lock_inv T (s\<lparr>queue := queue s + 1\<rparr>, pc(t := (n, Wait (queue s + 1))))"
proof -
  let ?s = "s\<lparr>queue := queue s + 1\<rparr>" and ?pc = "pc(t := (n, Wait (queue s + 1)))"
  obtain D Q f where ok: "tickets_ok T s pc D Q f" and n: "n = 0" using at_task [OF inv t] by auto
  have a: "active T ?pc = insert t (active T pc)" "t \<notin> active T pc"
    using t n by (auto simp: active_def has_ticket_def served_phase_def)
  have img: "f ` active T pc = {D..Q}" "inj_on f (active T pc)" and D: "D \<le> Suc Q" using ok by (simp_all add: tickets_ok_def)
  define g where "g = f(t := Suc Q)"
  have g: "g ` active T pc = {D..Q}" "inj_on g (active T pc)" "g t = Suc Q"
    using a(2) img by (auto simp: g_def inj_on_def)
  have "g ` insert t (active T pc) = {D..Suc Q}" using g D by (simp add: atLeastAtMostSuc_conv)
  moreover have "inj_on g (insert t (active T pc))" using g a(2) by (auto simp: inj_on_insert)
  moreover have "task_ok ?s D t' (g t') (?pc t')" if "t' \<in> T" for t'
  proof (cases "t' = t")
    case True
    then show ?thesis using ok n g(3) by (simp add: tickets_ok_def add.commute)
  next
    case False
    have "task_ok ?s D t' k p = task_ok s D t' k p" for k p
      by (induction s D t' k p rule: task_ok.induct) (simp_all add: inside_def)
    then show ?thesis using ok that False by (simp add: tickets_ok_def g_def)
  qed
  ultimately have "tickets_ok T ?s ?pc D (Suc Q) g"
    using ok t n unfolding tickets_ok_def a(1) by (auto simp: add.commute)
  then show ?thesis by (auto simp: lock_inv_def)
qed

text \<open>The lock is passed on.\<close>

lemma serve_inv:
  assumes inv: "lock_inv T (s, pc)" and T: "T \<subseteq> {..<16}" and t: "t \<in> T" "pc t = (n, Serve)"
  shows "n = 1 \<and> lock_inv T (s\<lparr>dequeue := dequeue s + 1\<rparr>, pc(t := (0, Idle)))"
proof -
  let ?s = "s\<lparr>dequeue := dequeue s + 1\<rparr>" and ?pc = "pc(t := (0, Idle))"
  obtain D Q f where ok: "tickets_ok T s pc D Q f" and i: "f t = D" "n = 1" "owner s = NO_TASK" using at_task [OF inv t] by auto
  have a: "active T pc = insert t (active T ?pc)" "t \<notin> active T ?pc"
    using t i(2) by (auto simp: active_def has_ticket_def served_phase_def)
  have img: "f ` active T pc = {D..Q}" "inj_on f (active T pc)" using ok by (simp_all add: tickets_ok_def)
  then have "D \<le> Q" "f ` active T ?pc = {D..Q} - {D}" "inj_on f (active T ?pc)"
    using i(1) unfolding a(1) using a(2) by (auto simp: inj_on_def)
  moreover have "{D..Q} - {D} = {Suc D..Q}" by auto
  moreover have "task_ok ?s (Suc D) t' (f t') (?pc t')" if "t' \<in> T" for t'
  proof (cases "t' = t")
    case False
    have "has_ticket (pc t)" using t(2) i(2) by (simp add: has_ticket_def served_phase_def)
    then have "\<not> served_phase (pc t')" using only_one_served [OF ok t(1) i(1) _ that] False by blast
    then show ?thesis using False ok that task_ok_other [of s D t' "f t'" "pc t'"] by (simp add: tickets_ok_def)
  qed simp
  moreover have "owner s \<notin> T" using i(3) T by auto
  ultimately have "tickets_ok T ?s ?pc (Suc D) Q f" using ok by (auto simp: tickets_ok_def add.commute)
  then show ?thesis using i(2) by (auto simp: lock_inv_def)
qed

lemma test_owner_inv:
  assumes inv: "lock_inv T (s, pc)" and T: "T \<subseteq> {..<16}" and t: "t \<in> T" "pc t = (n, Idle)" "n < MAX_NESTING"
  shows "lock_inv T (s, pc(t := (n, if owner s = t then Bump else Draw)))"
proof -
  obtain D Q f where ok: "tickets_ok T s pc D Q f" and i: "task_ok s D t (f t) (n, Idle)" using at_task [OF inv t(1,2)] by blast
  have o: "owner s = t \<longrightarrow> 0 < n" using ok t(1,2) by (auto simp: tickets_ok_def)
  show ?thesis
  proof (cases "n = 0")
    case True
    then have "owner s \<noteq> t" using o by blast
    moreover have "active T (pc(t := (0, Draw))) = active T pc"
      using t(1,2) True by (auto simp: active_def has_ticket_def served_phase_def)
    ultimately have "tickets_ok T s (pc(t := (0, Draw))) D Q f" using ok by (auto simp: tickets_ok_def)
    then show ?thesis using True \<open>owner s \<noteq> t\<close> by (auto simp: lock_inv_def)
  next
    case False
    then have "owner s = t" using i by (simp add: inside_def)
    then show ?thesis using served_inv [OF inv T t(1), of "(n, Bump)" s] t(2,3) False
      by (auto simp: served_phase_def has_ticket_def)
  qed
qed

lemma lock_step_inv:
  assumes "lock_step T st st'" "lock_inv T st" "T \<subseteq> {..<16}"
  shows "lock_inv T st'"
  using assms
proof (induction rule: lock_step.induct)
  case (test_owner t pc n s)
  then show ?case using test_owner_inv by blast
next
  case (bump t pc n s)
  then show ?case using at_task [OF bump(3) bump(1,2)]
    by (auto intro!: served_inv simp: served_phase_def has_ticket_def inside_def)
next
  case (bumped t pc n c s)
  then show ?case using at_task [OF bumped(3) bumped(1,2)]
    by (auto intro!: served_inv simp: served_phase_def has_ticket_def inside_def)
next
  case (draw t pc n s k q)
  then have "k = queue s + 1" "q = queue s + 1" by (auto simp: atomic_defs)
  then show ?case using draw_inv [OF draw(4,1,2)] by simp
next
  case (spin t pc n k s)
  then show ?case by simp
next
  case (grant t pc n k s)
  obtain D Q f where ok: "tickets_ok T s pc D Q f" "task_ok s D t (f t) (n, Wait k)" using at_task [OF grant(4) grant(1,2)] by blast
  have "f t = D" using served [OF ok(1) grant(5) grant(1-3)] .
  moreover have "owner s \<noteq> t" using ok grant(1,2) by (auto simp: tickets_ok_def)
  ultimately show ?case using served_step [OF ok(1) grant(5) grant(1), of "(n, Own)" s] ok(2) grant(2)
    by (simp add: served_phase_def has_ticket_def)
next
  case (own t pc n s)
  then show ?case by (auto intro!: served_inv simp: served_phase_def has_ticket_def inside_def)
next
  case (count t pc n s)
  then show ?case by (auto intro!: served_inv simp: served_phase_def has_ticket_def inside_def)
next
  case (drop t pc n s)
  then show ?case by (auto intro!: served_inv simp: served_phase_def has_ticket_def inside_def)
next
  case (dropped t pc n c s)
  then show ?case using at_task [OF dropped(3) dropped(1,2)]
    by (auto intro!: served_inv simp: served_phase_def has_ticket_def inside_def of_nat_diff)
next
  case (still t pc n s)
  then have "0 < n" using at_task [OF still(4) still(1,2)] by (cases n) auto
  with still show ?case by (auto intro!: served_inv simp: served_phase_def has_ticket_def inside_def)
next
  case (last t pc n s)
  then have "of_nat (n - 1) = (0 :: u32)" "0 < n" "n \<le> MAX_NESTING" using at_task [OF last(4) last(1,2)] by (auto simp: inside_def)
  moreover from this have "n - 1 \<le> MAX_NESTING" by simp
  ultimately have "n = 1" using unat_nesting [of "n - 1"] by (cases "n - 1") auto
  with last show ?case using at_task [OF last(4) last(1,2)]
    by (auto intro!: served_inv simp: served_phase_def has_ticket_def inside_def)
next
  case (clear t pc n s)
  then show ?case using at_task [OF clear(3) clear(1,2)]
    by (auto intro!: served_inv simp: served_phase_def has_ticket_def inside_def)
next
  case (serve t pc n s)
  then show ?case using serve_inv [OF serve(3,4,1,2)] by (simp add: atomic_defs)
qed


lemma lock_inv_start: "lock_inv T (LOCK_INIT, \<lambda>_. (0, Idle))" if "T \<subseteq> {..<16}"
proof -
  have "tickets_ok T LOCK_INIT (\<lambda>_. (0, Idle)) 1 0 (\<lambda>_. 0)"
    using that by (auto simp: tickets_ok_def LOCK_INIT_def active_def has_ticket_def served_phase_def)
  then show ?thesis by (auto simp: lock_inv_def)
qed

lemma lock_reachable_inv:
  assumes "(lock_step T)\<^sup>*\<^sup>* (LOCK_INIT, \<lambda>_. (0, Idle)) st" "T \<subseteq> {..<16}"
  shows "lock_inv T st"
  using assms(1)
  by (induction rule: rtranclp_induct) (auto intro: lock_inv_start [OF assms(2)] lock_step_inv [OF _ _ assms(2)])

text \<open>
  C8: Mutual exclusion: however the tasks interleave between the single accesses to a spinlock, at most one task is between
  its return from \<^verbatim>\<open>s_lock\<close> and the last access of the \<^verbatim>\<open>s_unlock\<close> that gives the lock up, even after the ticket counters
  have wrapped around; and while that task runs in the critical section the lock names it as its owner and counts how often
  it must unlock.
\<close>

theorem spinlock_mutual_exclusion:
  assumes "(lock_step T)\<^sup>*\<^sup>* (LOCK_INIT, \<lambda>_. (0, Idle)) (s, pc)" and "T \<subseteq> {..<16}"
    and "t \<in> T" and "pc t = (n, ph)" and "0 < n"
  shows "(\<forall>t'\<in>T. 0 < fst (pc t') \<longrightarrow> t' = t) \<and> (ph = Idle \<longrightarrow> owner s = t \<and> counter s = of_nat n)"
proof -
  obtain D Q f where ok: "tickets_ok T s pc D Q f" and i: "task_ok s D t (f t) (n, ph)"
    using at_task [OF lock_reachable_inv [OF assms(1,2)] assms(3,4)] by blast
  have served: "served_phase (pc t)" using assms(4,5) by (simp add: served_phase_def)
  then have "f t = D" using i assms(4) served_ticket by metis
  then have "t' = t" if "t' \<in> T" "0 < fst (pc t')" for t'
    using only_one_served [OF ok assms(3) \<open>f t = D\<close> _ that(1)] served that(2) by (auto simp: has_ticket_def served_phase_def)
  moreover have "owner s = t \<and> counter s = of_nat n" if "ph = Idle" using i that assms(5) by (simp add: inside_def)
  ultimately show ?thesis by blast
qed

text \<open>Task 2 takes the lock while task 1 is about to draw its ticket.\<close>

theorem spinlock_mutual_exclusion_witness:
  "\<exists>s pc. (lock_step {1, 2})\<^sup>*\<^sup>* (LOCK_INIT, \<lambda>_. (0, Idle)) (s, pc) \<and> pc 1 = (0, Draw) \<and> pc 2 = (1, Idle) \<and> owner s = 2"
proof -
  let ?p1 = "(\<lambda>_ :: u32. (0 :: nat, Idle))(1 := (0, Draw))"
  let ?p2 = "?p1(2 := (Suc 0, Idle))" and ?s = "lock_own 2 (LOCK_INIT\<lparr>queue := 1\<rparr>)"
  have 1: "lock_step {1, 2} (LOCK_INIT, \<lambda>_. (0, Idle)) (LOCK_INIT, ?p1)"
    using lock_step.test_owner [of 1 "{1, 2}" "\<lambda>_. (0, Idle)" 0 LOCK_INIT] by (simp add: LOCK_INIT_def)
  have "s_lock 2 (Some LOCK_INIT) = Some (0, Some ?s)"
    by (simp add: s_lock_def lock_enter_def lock_may_enter_def LOCK_INIT_def atomic_defs)
  then have "(lock_step {1, 2})\<^sup>*\<^sup>* (LOCK_INIT, ?p1) (?s, ?p2)" by (rule s_lock_steps) simp_all
  with 1 have r: "(lock_step {1, 2})\<^sup>*\<^sup>* (LOCK_INIT, \<lambda>_. (0, Idle)) (?s, ?p2)" by (rule converse_rtranclp_into_rtranclp)
  have p: "{1, 2} \<subseteq> {..<16 :: u32}" "(2 :: u32) \<in> {1, 2}" "?p2 2 = (Suc 0, Idle)" "0 < Suc 0" by simp_all
  have o: "owner ?s = 2" using spinlock_mutual_exclusion [OF r p] by blast
  show ?thesis by (intro exI conjI, rule r) (simp_all add: o)
qed

end
