(* ===== verification/Sched.thy ===== *)
theory Sched
  imports Kmalloc Interfaces
begin

text \<open>
  Tasks and the scheduler: \<^verbatim>\<open>sys/tasks.c\<close>, \<^verbatim>\<open>sys/scheduler.c\<close>, \<^verbatim>\<open>create_default_frame\<close> and
  \<^verbatim>\<open>get_current_stack\<close> of \<^verbatim>\<open>sys/tasksp.c\<close>, \<^verbatim>\<open>include/tasks_types.h\<close>. A task is named by its index
  in \<^verbatim>\<open>task_table\<close>; \<open>current_id\<close> of the memory state is the current task. The ready queue of
  priority \<open>p\<close>, \<^verbatim>\<open>readyqueues.queue[p-1]\<close>, is \<open>rq_first p\<close> and \<open>rq_last p\<close>. The locks around
  the operations are left out: nothing else runs while one of them does.
\<close>

section \<open>State\<close>

datatype task_status =
  TASK_INVALID | TASK_READY | TASK_RUNNING | TASK_BLOCKED | TASK_FINISHED | TASK_IDLE

definition MAX_PRIO :: u8 where [simp]: "MAX_PRIO = 31"
definition NORMAL_PRIO :: u8 where [simp]: "NORMAL_PRIO = 8"
definition IDLE_PRIO :: u8 where [simp]: "IDLE_PRIO = 0"
definition TASK_FPU_INIT :: u8 where [simp]: "TASK_FPU_INIT = 1"
definition TASK_FPU_USED :: u8 where [simp]: "TASK_FPU_USED = 2"

record task =
  t_id :: u32
  status :: task_status
  last_stack_pointer :: addr
  stack :: addr
  t_flags :: u8
  prio :: u8
  page_map_frame :: u32
  t_next :: "u32 option"
  t_prev :: "u32 option"

record sys = kheap +
  task_table :: "u32 \<Rightarrow> task"
  rq_idle :: u32
  rq_old :: "u32 option"
  rq_nr_tasks :: u32
  rq_bitmap :: u32
  rq_first :: "u8 \<Rightarrow> u32 option"
  rq_last :: "u8 \<Rightarrow> u32 option"
  stack_word :: "addr \<Rightarrow> u32"

definition upd_task :: "u32 \<Rightarrow> (task \<Rightarrow> task) \<Rightarrow> 'a sys_scheme \<Rightarrow> 'a sys_scheme" where
  "upd_task t f s = s\<lparr>task_table := (task_table s)(t := f (task_table s t))\<rparr>"

definition set_first :: "u8 \<Rightarrow> u32 option \<Rightarrow> 'a sys_scheme \<Rightarrow> 'a sys_scheme" where
  "set_first p t s = s\<lparr>rq_first := (rq_first s)(p := t)\<rparr>"

definition set_last :: "u8 \<Rightarrow> u32 option \<Rightarrow> 'a sys_scheme \<Rightarrow> 'a sys_scheme" where
  "set_last p t s = s\<lparr>rq_last := (rq_last s)(p := t)\<rparr>"

definition set_bit_of :: "u8 \<Rightarrow> 'a sys_scheme \<Rightarrow> 'a sys_scheme" where
  "set_bit_of p s = s\<lparr>rq_bitmap := rq_bitmap s OR push_bit (unat p) 1\<rparr>"

definition clear_bit_of :: "u8 \<Rightarrow> 'a sys_scheme \<Rightarrow> 'a sys_scheme" where
  "clear_bit_of p s = s\<lparr>rq_bitmap := rq_bitmap s AND NOT (push_bit (unat p) 1)\<rparr>"

section \<open>Priorities\<close>

text \<open>\<^verbatim>\<open>msb\<close>: the index of the most significant bit, 32 when none is set.\<close>

fun top_bit :: "nat \<Rightarrow> u32 \<Rightarrow> nat" where
  "top_bit 0 i = 0"
| "top_bit (Suc n) i = (if bit i (Suc n) then Suc n else top_bit n i)"

definition msb :: "u32 \<Rightarrow> nat" where
  "msb i = (if i = 0 then 32 else top_bit 31 i)"

definition get_highest_priority :: "'a sys_scheme \<Rightarrow> nat" where
  "get_highest_priority s = msb (rq_bitmap s)"

definition get_current_task :: "'a sys_scheme \<Rightarrow> u32" where
  "get_current_task s = current_id s"

definition multitasking_init :: "addr \<Rightarrow> u32 \<Rightarrow> 'a sys_scheme \<Rightarrow> int \<times> 'a sys_scheme" where
  "multitasking_init boot_stack cr3_value s =
     (if status (task_table s 0) \<noteq> TASK_IDLE then (- ENOMEM, s)
      else (0, upd_task 0 (\<lambda>t. t\<lparr>prio := IDLE_PRIO, stack := boot_stack, page_map_frame := cr3_value\<rparr>) s))"

section \<open>The ready queues\<close>

text \<open>
  Appending a task to the queue of its priority, as \<^verbatim>\<open>finish_task_switch\<close> and \<^verbatim>\<open>create_task\<close>
  do. A queue with a first but no last task, which the invariant below excludes, would be a
  write through a null pointer.
\<close>

definition upd_task_opt :: "u32 option \<Rightarrow> (task \<Rightarrow> task) \<Rightarrow> 'a sys_scheme \<Rightarrow> 'a sys_scheme" where
  "upd_task_opt t f s = (case t of None \<Rightarrow> s | Some t \<Rightarrow> upd_task t f s)"

definition append_task :: "u8 \<Rightarrow> u32 \<Rightarrow> 'a sys_scheme \<Rightarrow> 'a sys_scheme" where
  "append_task p t s =
     (if rq_first s p = None
      then set_last p (Some t) (set_first p (Some t) (upd_task t (\<lambda>x. x\<lparr>t_next := None, t_prev := None\<rparr>) s))
      else let s1 = upd_task t (\<lambda>x. x\<lparr>t_next := None, t_prev := rq_last s p\<rparr>) s;
               s2 = upd_task_opt (rq_last s1 p) (\<lambda>x. x\<lparr>t_next := Some t\<rparr>) s1
           in set_last p (Some t) s2)"

text \<open>The same in \<^verbatim>\<open>wakeup_task\<close>, which looks at \<open>last\<close> and sets the bit only for an empty queue.\<close>

definition wake_append :: "u8 \<Rightarrow> u32 \<Rightarrow> 'a sys_scheme \<Rightarrow> 'a sys_scheme" where
  "wake_append p t s =
     (case rq_last s p of
        None \<Rightarrow>
          set_bit_of p (upd_task t (\<lambda>x. x\<lparr>t_next := None, t_prev := None\<rparr>) (set_last p (Some t) (set_first p (Some t) s)))
      | Some l \<Rightarrow>
          let s1 = upd_task t (\<lambda>x. x\<lparr>t_prev := rq_last s p, t_next := None\<rparr>) s;
              s2 = upd_task l (\<lambda>x. x\<lparr>t_next := Some t\<rparr>) s1
          in set_last p (Some t) s2)"

text \<open>Lines 42 to 55 of \<^verbatim>\<open>scheduler\<close>; an empty queue would be a null dereference.\<close>

definition take_first :: "u8 \<Rightarrow> 'a sys_scheme \<Rightarrow> (u32 \<times> 'a sys_scheme) option" where
  "take_first p s =
     (case rq_first s p of
        None \<Rightarrow> None
      | Some t \<Rightarrow>
          let s1 = upd_task t (\<lambda>x. x\<lparr>status := TASK_RUNNING\<rparr>) (s\<lparr>current_id := t\<rparr>);
              s2 = set_first p (t_next (task_table s1 t)) s1;
              s3 = (if t_next (task_table s2 t) = None then clear_bit_of p (set_last p None s2) else s2)
          in Some (t, upd_task t (\<lambda>x. x\<lparr>t_next := None, t_prev := None\<rparr>) s3))"

section \<open>Scheduling\<close>

text \<open>The result names the task whose stack pointer the caller must save, if it has to switch.\<close>

definition scheduler :: "'a sys_scheme \<Rightarrow> (u32 option \<times> 'a sys_scheme) option" where
  "scheduler s =
     (let orig = current_id s;
          s = (if status (task_table s orig) = TASK_FINISHED
               then (upd_task orig (\<lambda>x. x\<lparr>status := TASK_INVALID\<rparr>) s)\<lparr>rq_old := Some orig\<rparr>
               else s\<lparr>rq_old := None\<rparr>);
          p = msb (rq_bitmap s);
          cur = task_table s orig
      in case (if p > unat MAX_PRIO
               then (if status cur = TASK_RUNNING \<or> status cur = TASK_IDLE then Some s
                     else Some (s\<lparr>current_id := rq_idle s\<rparr>))
               else if unat (prio cur) > p \<and> status cur = TASK_RUNNING then Some s
               else let s = (if status cur = TASK_RUNNING
                             then (upd_task orig (\<lambda>x. x\<lparr>status := TASK_READY\<rparr>) s)\<lparr>rq_old := Some orig\<rparr>
                             else s)
                    in map_option snd (take_first (of_nat p) s)) of
           None \<Rightarrow> None
         | Some s \<Rightarrow>
             if current_id s \<noteq> orig
             then let o' = task_table s orig in
               Some (Some orig,
                 if t_flags o' AND TASK_FPU_USED \<noteq> 0 \<and> status o' = TASK_READY
                 then upd_task orig (\<lambda>x. x\<lparr>t_flags := t_flags x AND NOT TASK_FPU_USED\<rparr>) s else s)
             else Some (None, s))"

definition finish_task_switch :: "'a sys_scheme \<Rightarrow> 'a sys_scheme option" where
  "finish_task_switch s =
     (let s = (case rq_old s of
           None \<Rightarrow> s
         | Some old \<Rightarrow>
             if status (task_table s old) = TASK_INVALID
             then (upd_task old (\<lambda>x. x\<lparr>stack := 0, last_stack_pointer := 0\<rparr>) s)\<lparr>rq_old := None\<rparr>
             else let p = prio (task_table s old)
                  in set_bit_of p ((append_task p old s)\<lparr>rq_old := None\<rparr>))
      in if task_heap s (current_id s) \<noteq> 0 then kfree (task_heap s (current_id s)) s else Some s)"

text \<open>
  \<^verbatim>\<open>reschedule\<close>; \<^verbatim>\<open>switch_context\<close> of \<^verbatim>\<open>asm/usermodetask.s\<close> stores the stack pointer \<open>esp\<close> of the
  old task, loads the page tables of the new one and calls \<^verbatim>\<open>finish_task_switch\<close>.
\<close>

definition get_current_stack :: "'a sys_scheme \<Rightarrow> addr \<times> 'a sys_scheme" where
  "get_current_stack s =
     (let t = task_table s (current_id s)
      in (last_stack_pointer t, s\<lparr>cr3 := unat (drop_bit PAGE_BITS (page_map_frame t))\<rparr>))"

definition switch_context :: "addr \<Rightarrow> u32 \<Rightarrow> 'a sys_scheme \<Rightarrow> 'a sys_scheme option" where
  "switch_context esp old s =
     finish_task_switch (snd (get_current_stack (upd_task old (\<lambda>x. x\<lparr>last_stack_pointer := esp\<rparr>) s)))"

definition reschedule :: "addr \<Rightarrow> 'a sys_scheme \<Rightarrow> 'a sys_scheme option" where
  "reschedule esp s =
     (case scheduler s of
        None \<Rightarrow> None
      | Some (None, s) \<Rightarrow> Some s
      | Some (Some old, s) \<Rightarrow> switch_context esp old s)"

text \<open>The end of a task; it never returns from \<^verbatim>\<open>reschedule\<close>.\<close>

definition do_exit :: "addr \<Rightarrow> 'a sys_scheme \<Rightarrow> 'a sys_scheme option" where
  "do_exit esp s =
     (case page_map_drop s of
        None \<Rightarrow> None
      | Some (_, s) \<Rightarrow>
          reschedule esp (upd_task (current_id s) (\<lambda>x. x\<lparr>status := TASK_FINISHED\<rparr>)
            (s\<lparr>rq_nr_tasks := rq_nr_tasks s - 1\<rparr>)))"

definition leave_kernel_task :: "addr \<Rightarrow> 'a sys_scheme \<Rightarrow> 'a sys_scheme option" where
  "leave_kernel_task = do_exit"

definition sys_exit :: "addr \<Rightarrow> int \<Rightarrow> 'a sys_scheme \<Rightarrow> 'a sys_scheme option" where
  "sys_exit esp arg = do_exit esp"

definition wakeup_task :: "u32 \<Rightarrow> 'a sys_scheme \<Rightarrow> int \<times> 'a sys_scheme" where
  "wakeup_task tid s =
     (let p = prio (task_table s tid) in
      if status (task_table s tid) = TASK_BLOCKED
      then (0, wake_append p tid (upd_task tid (\<lambda>x. x\<lparr>status := TASK_READY\<rparr>) s\<lparr>rq_nr_tasks := rq_nr_tasks s + 1\<rparr>))
      else (- EINVAL, s))"

definition block_current_task :: "'a sys_scheme \<Rightarrow> int \<times> 'a sys_scheme" where
  "block_current_task s =
     (let t = current_id s; p = prio (task_table s t) in
      if status (task_table s t) = TASK_RUNNING
      then let s = upd_task t (\<lambda>x. x\<lparr>status := TASK_BLOCKED\<rparr>) s\<lparr>rq_nr_tasks := rq_nr_tasks s - 1\<rparr>;
               s = upd_task_opt (t_prev (task_table s t)) (\<lambda>x. x\<lparr>t_next := t_next (task_table s t)\<rparr>) s;
               s = upd_task_opt (t_next (task_table s t)) (\<lambda>x. x\<lparr>t_prev := t_prev (task_table s t)\<rparr>) s;
               s = (if rq_first s p = Some t then set_first p (t_next (task_table s t)) s else s);
               s = (if rq_last s p = Some t
                    then let s = set_last p (t_prev (task_table s t)) s
                         in if rq_last s p = None then set_last p (rq_first s p) s else s
                    else s);
               s = (if rq_first s p = None then clear_bit_of p s else s)
           in (0, s)
      else (- EINVAL, s))"

section \<open>Creating tasks\<close>

text \<open>The size of \<^verbatim>\<open>struct registers\<close> without the last two words: 15 words.\<close>

definition write_stack :: "(addr \<times> u32) list \<Rightarrow> 'a sys_scheme \<Rightarrow> 'a sys_scheme" where
  "write_stack ws s = s\<lparr>stack_word := fold (\<lambda>(a, v) m. m(a := v)) ws (stack_word s)\<rparr>"

definition create_default_frame :: "addr \<Rightarrow> u32 option \<Rightarrow> addr \<Rightarrow> addr \<Rightarrow> 'a sys_scheme \<Rightarrow> int \<times> 'a sys_scheme" where
  "create_default_frame leave task ep arg s =
     (case task of
        None \<Rightarrow> (- EINVAL, s)
      | Some t \<Rightarrow>
          let base = stack (task_table s t) in
          if base = 0 then (- EINVAL, s)
          else let s = write_stack (map (\<lambda>i. (base + 4 * of_nat i, 0xCDCDCDCD)) [0..<unat KERNEL_STACK_SIZE div 4]) s;
                   st = base + KERNEL_STACK_SIZE - 16;
                   s = write_stack [(st, 0xDEADBEEF), (st - 4, arg), (st - 8, leave)] s;
                   st = st - 8;
                   state_size = 60;
                   st = st - state_size;
                   s = write_stack (map (\<lambda>i. (st + 4 * of_nat i, 0)) [0..<15]) s;
                   s = write_stack [(st + 20, st + state_size), (st + 40, 0xB16B00B5), (st + 44, 0xC03DB4B3),
                                    (st + 48, ep), (st + 52, 0x08), (st + 0, 0x10), (st + 4, 0x10), (st + 56, 0x1202)] s
               in (0, upd_task t (\<lambda>x. x\<lparr>last_stack_pointer := st\<rparr>) s))"

fun find_invalid :: "'a sys_scheme \<Rightarrow> nat list \<Rightarrow> u32 option" where
  "find_invalid s [] = None"
| "find_invalid s (i # is) =
     (if status (task_table s (of_nat i)) = TASK_INVALID then Some (of_nat i) else find_invalid s is)"

text \<open>The result is the error code and the new id. \<open>ks\<close>, \<open>ke\<close>, \<open>stacks\<close>, \<open>leave\<close> are addresses of the linker.\<close>

definition create_task ::
  "addr \<Rightarrow> addr \<Rightarrow> addr \<Rightarrow> addr \<Rightarrow> addr \<Rightarrow> addr \<Rightarrow> u8 \<Rightarrow> 'a sys_scheme
     \<Rightarrow> (int \<times> u32 option \<times> 'a sys_scheme) option" where
  "create_task ks ke stacks leave ep arg p s =
     (if ep = 0 \<or> p = IDLE_PRIO \<or> p > MAX_PRIO then Some (- EINVAL, None, s)
      else case find_invalid s [0..<MAX_TASKS] of
        None \<Rightarrow> Some (- ENOMEM, None, s)
      | Some i \<Rightarrow>
          let s = upd_task i (\<lambda>x. x\<lparr>t_id := i, status := TASK_READY, last_stack_pointer := 0,
                                     stack := create_stack stacks i, prio := p\<rparr>) s;
              s = set_head (Task_List i) 0 s;
              s = s\<lparr>task_heap := (task_heap s)(i := 0), user_usage := (user_usage s)(i := 0)\<rparr>
          in case get_pages ke 1 s of
               None \<Rightarrow> None
             | Some (pm, s) \<Rightarrow>
                 let s = upd_task i (\<lambda>x. x\<lparr>page_map_frame := pm\<rparr>) s in
                 if pm = 0 then Some (- ENOMEM, None, s)
                 else (case page_map_copy ks ke i pm s of
                     None \<Rightarrow> None
                   | Some (_, s) \<Rightarrow>
                       let (ret, s) = create_default_frame leave (Some i) ep arg s;
                           s = (set_bit_of p s)\<lparr>rq_nr_tasks := rq_nr_tasks s + 1\<rparr>
                       in Some (ret, Some i, append_task p i s)))"

definition create_kernel_task ::
  "addr \<Rightarrow> addr \<Rightarrow> addr \<Rightarrow> addr \<Rightarrow> addr \<Rightarrow> addr \<Rightarrow> u8 \<Rightarrow> 'a sys_scheme
     \<Rightarrow> (int \<times> u32 option \<times> 'a sys_scheme) option" where
  "create_kernel_task ks ke stacks leave ep args p s =
     create_task ks ke stacks leave ep args (if p > MAX_PRIO then NORMAL_PRIO else p) s"

section \<open>The invariant of the ready queues\<close>

definition nx :: "'a sys_scheme \<Rightarrow> u32 \<Rightarrow> u32 option" where
  "nx s t = t_next (task_table s t)"

definition pv :: "'a sys_scheme \<Rightarrow> u32 \<Rightarrow> u32 option" where
  "pv s t = t_prev (task_table s t)"

definition st :: "'a sys_scheme \<Rightarrow> u32 \<Rightarrow> task_status" where
  "st s t = status (task_table s t)"

definition pri :: "'a sys_scheme \<Rightarrow> u32 \<Rightarrow> u8" where
  "pri s t = prio (task_table s t)"

named_theorems sched_simps \<open>reading an updated scheduler state\<close>

lemma fields_upd_task [sched_simps]:
  "nx (upd_task t f s) = (nx s)(t := t_next (f (task_table s t)))"
  "pv (upd_task t f s) = (pv s)(t := t_prev (f (task_table s t)))"
  "st (upd_task t f s) = (st s)(t := status (f (task_table s t)))"
  "pri (upd_task t f s) = (pri s)(t := prio (f (task_table s t)))"
  "rq_first (upd_task t f s) = rq_first s" "rq_last (upd_task t f s) = rq_last s"
  "rq_bitmap (upd_task t f s) = rq_bitmap s" "rq_old (upd_task t f s) = rq_old s"
  "current_id (upd_task t f s) = current_id s" "rq_idle (upd_task t f s) = rq_idle s"
  by (auto simp: upd_task_def nx_def pv_def st_def pri_def fun_eq_iff)

lemma fields_setters [sched_simps]:
  "nx (set_first p v s) = nx s" "pv (set_first p v s) = pv s" "st (set_first p v s) = st s" "pri (set_first p v s) = pri s"
  "rq_first (set_first p v s) = (rq_first s)(p := v)" "rq_last (set_first p v s) = rq_last s"
  "rq_bitmap (set_first p v s) = rq_bitmap s" "rq_old (set_first p v s) = rq_old s"
  "current_id (set_first p v s) = current_id s" "task_table (set_first p v s) = task_table s" "rq_idle (set_first p v s) = rq_idle s"
  "nx (set_last p v s) = nx s" "pv (set_last p v s) = pv s" "st (set_last p v s) = st s" "pri (set_last p v s) = pri s"
  "rq_last (set_last p v s) = (rq_last s)(p := v)" "rq_first (set_last p v s) = rq_first s"
  "rq_bitmap (set_last p v s) = rq_bitmap s" "rq_old (set_last p v s) = rq_old s"
  "current_id (set_last p v s) = current_id s" "task_table (set_last p v s) = task_table s" "rq_idle (set_last p v s) = rq_idle s"
  "nx (set_bit_of p s) = nx s" "pv (set_bit_of p s) = pv s" "st (set_bit_of p s) = st s" "pri (set_bit_of p s) = pri s"
  "rq_last (set_bit_of p s) = rq_last s" "rq_first (set_bit_of p s) = rq_first s"
  "rq_bitmap (set_bit_of p s) = rq_bitmap s OR push_bit (unat p) 1" "rq_old (set_bit_of p s) = rq_old s"
  "current_id (set_bit_of p s) = current_id s" "task_table (set_bit_of p s) = task_table s" "rq_idle (set_bit_of p s) = rq_idle s"
  "nx (clear_bit_of p s) = nx s" "pv (clear_bit_of p s) = pv s" "st (clear_bit_of p s) = st s" "pri (clear_bit_of p s) = pri s"
  "rq_last (clear_bit_of p s) = rq_last s" "rq_first (clear_bit_of p s) = rq_first s"
  "rq_bitmap (clear_bit_of p s) = rq_bitmap s AND NOT (push_bit (unat p) 1)" "rq_old (clear_bit_of p s) = rq_old s"
  "current_id (clear_bit_of p s) = current_id s" "task_table (clear_bit_of p s) = task_table s" "rq_idle (clear_bit_of p s) = rq_idle s"
  by (auto simp: set_first_def set_last_def set_bit_of_def clear_bit_of_def nx_def pv_def st_def pri_def fun_eq_iff)

lemma fields_plain [sched_simps]:
  "nx (s\<lparr>current_id := v\<rparr>) = nx s" "pv (s\<lparr>current_id := v\<rparr>) = pv s" "st (s\<lparr>current_id := v\<rparr>) = st s" "pri (s\<lparr>current_id := v\<rparr>) = pri s"
  "nx (s\<lparr>rq_old := w\<rparr>) = nx s" "pv (s\<lparr>rq_old := w\<rparr>) = pv s" "st (s\<lparr>rq_old := w\<rparr>) = st s" "pri (s\<lparr>rq_old := w\<rparr>) = pri s"
  "nx (s\<lparr>rq_nr_tasks := n\<rparr>) = nx s" "pv (s\<lparr>rq_nr_tasks := n\<rparr>) = pv s" "st (s\<lparr>rq_nr_tasks := n\<rparr>) = st s" "pri (s\<lparr>rq_nr_tasks := n\<rparr>) = pri s"
  "nx (s\<lparr>cr3 := c\<rparr>) = nx s" "pv (s\<lparr>cr3 := c\<rparr>) = pv s" "st (s\<lparr>cr3 := c\<rparr>) = st s" "pri (s\<lparr>cr3 := c\<rparr>) = pri s"
  by (auto simp: nx_def pv_def st_def pri_def fun_eq_iff)

lemma fields_fold_tasks [sched_simps]:
  "t_next (task_table s t) = nx s t" "t_prev (task_table s t) = pv s t" "status (task_table s t) = st s t" "prio (task_table s t) = pri s t"
  by (simp_all add: nx_def pv_def st_def pri_def)

definition valid_prio :: "u8 \<Rightarrow> bool" where
  "valid_prio p \<longleftrightarrow> 1 \<le> p \<and> p \<le> MAX_PRIO"

definition queue_ok :: "'a sys_scheme \<Rightarrow> u8 \<Rightarrow> u32 list \<Rightarrow> bool" where
  "queue_ok s p xs \<longleftrightarrow> distinct xs \<and> nchain (nx s) xs None
     \<and> rq_first s p = first_or xs None \<and> rq_last s p = last_or None xs
     \<and> (\<forall>t\<in>set xs. st s t = TASK_READY \<and> pri s t = p)"

definition sched_ok :: "'a sys_scheme \<Rightarrow> (u8 \<Rightarrow> u32 list) \<Rightarrow> bool" where
  "sched_ok s Q \<longleftrightarrow> (\<forall>p. valid_prio p \<longrightarrow> queue_ok s p (Q p))
     \<and> (\<forall>i. bit (rq_bitmap s) i \<longleftrightarrow> (\<exists>p. valid_prio p \<and> unat p = i \<and> Q p \<noteq> []))"

lemma bit_one_shift: "bit (push_bit n 1 :: u32) i \<longleftrightarrow> i = n \<and> n < 32" "bit (2 ^ n :: u32) i \<longleftrightarrow> i = n \<and> n < 32"
  by (auto simp: bit_simps)

lemma valid_less: "valid_prio p \<Longrightarrow> unat p < 32"
  by (simp add: valid_prio_def word_le_nat_alt)

lemma sched_queue: "sched_ok s Q \<Longrightarrow> valid_prio p \<Longrightarrow> queue_ok s p (Q p)"
  by (simp add: sched_ok_def)

lemma sched_bit: "sched_ok s Q \<Longrightarrow> valid_prio p \<Longrightarrow> bit (rq_bitmap s) (unat p) \<longleftrightarrow> Q p \<noteq> []"
  unfolding sched_ok_def by (metis word_unat_eq_iff)

lemma queue_other:
  assumes "queue_ok s p xs" "t \<notin> set xs"
    and "\<forall>x. x \<noteq> t \<longrightarrow> nx s' x = nx s x \<and> st s' x = st s x \<and> pri s' x = pri s x"
    and "rq_first s' p = rq_first s p" "rq_last s' p = rq_last s p"
  shows "queue_ok s' p xs"
proof -
  have eq: "\<forall>x\<in>set xs. nx s' x = nx s x \<and> st s' x = st s x \<and> pri s' x = pri s x" using assms(2,3) by metis
  then have "nchain (nx s') xs None" using assms(1) nchain_cong [of xs "nx s" "nx s'"] by (simp add: queue_ok_def)
  then show ?thesis using assms eq by (simp add: queue_ok_def)
qed

text \<open>A task in no queue may change.\<close>

lemma sched_ok_other:
  assumes "sched_ok s Q" "\<forall>p. valid_prio p \<longrightarrow> t \<notin> set (Q p)"
    and "\<forall>x. x \<noteq> t \<longrightarrow> nx s' x = nx s x \<and> st s' x = st s x \<and> pri s' x = pri s x"
    and "rq_first s' = rq_first s" "rq_last s' = rq_last s" "rq_bitmap s' = rq_bitmap s"
  shows "sched_ok s' Q"
  using assms queue_other [of s _ "Q _" t s'] by (simp add: sched_ok_def)

text \<open>Changing one queue: its own part of the invariant and the bit of its priority suffice.\<close>

lemma sched_ok_change:
  assumes ok: "sched_ok s Q" and p: "valid_prio p" and q: "queue_ok s' p xs"
    and t: "\<forall>q. valid_prio q \<longrightarrow> q \<noteq> p \<longrightarrow> (\<forall>x\<in>set (Q q). nx s' x = nx s x \<and> st s' x = st s x \<and> pri s' x = pri s x)"
    and other: "\<forall>q. q \<noteq> p \<longrightarrow> rq_first s' q = rq_first s q \<and> rq_last s' q = rq_last s q"
    and bits: "\<forall>i. bit (rq_bitmap s') i = (if i = unat p then xs \<noteq> [] else bit (rq_bitmap s) i)"
  shows "sched_ok s' (Q(p := xs))"
proof -
  have "queue_ok s' q ((Q(p := xs)) q)" if v: "valid_prio q" for q
  proof (cases "q = p")
    case False
    then have eq: "\<forall>x\<in>set (Q q). nx s' x = nx s x \<and> st s' x = st s x \<and> pri s' x = pri s x" using t v by blast
    have qk: "queue_ok s q (Q q)" by (rule sched_queue [OF ok v])
    then have "nchain (nx s') (Q q) None" using eq nchain_cong [of "Q q" "nx s" "nx s'"] by (simp add: queue_ok_def)
    then show ?thesis using False eq qk other by (simp add: queue_ok_def)
  qed (use q in simp)
  moreover have "bit (rq_bitmap s') i \<longleftrightarrow> (\<exists>q. valid_prio q \<and> unat q = i \<and> (Q(p := xs)) q \<noteq> [])" for i
  proof (cases "i = unat p")
    case True
    then show ?thesis using bits p by (auto simp: word_unat_eq_iff)
  next
    case False
    then show ?thesis using bits ok unfolding sched_ok_def by auto
  qed
  ultimately show ?thesis by (simp add: sched_ok_def)
qed

lemma other_queues:
  assumes "sched_ok s Q" "valid_prio q" "x \<in> set (Q q)"
  shows "pri s x = q" "st s x = TASK_READY"
  using sched_queue [OF assms(1,2)] assms(3) by (auto simp: queue_ok_def)

lemma take_first_ok:
  assumes ok: "sched_ok s Q" and p: "valid_prio p" and Q: "Q p = t # ts"
  shows "\<exists>s'. take_first p s = Some (t, s') \<and> sched_ok s' (Q(p := ts)) \<and> st s' = (st s)(t := TASK_RUNNING)
    \<and> pri s' = pri s \<and> current_id s' = t \<and> rq_old s' = rq_old s \<and> rq_idle s' = rq_idle s
    \<and> nx s' = (nx s)(t := None) \<and> pv s' = (pv s)(t := None) \<and> stack_word s' = stack_word s"
proof -
  have q: "queue_ok s p (t # ts)" using sched_queue [OF ok p] Q by simp
  then have f: "rq_first s p = Some t" "nx s t = first_or ts None" "t \<notin> set ts" by (auto simp: queue_ok_def)
  define s1 where "s1 = upd_task t (\<lambda>x. x\<lparr>status := TASK_RUNNING\<rparr>) (s\<lparr>current_id := t\<rparr>)"
  define s2 where "s2 = set_first p (t_next (task_table s1 t)) s1"
  define s3 where "s3 = (if t_next (task_table s2 t) = None then clear_bit_of p (set_last p None s2) else s2)"
  define s4 where "s4 = upd_task t (\<lambda>x. x\<lparr>t_next := None, t_prev := None\<rparr>) s3"
  have r: "take_first p s = Some (t, s4)"
    unfolding take_first_def s4_def s3_def s2_def s1_def by (simp add: f Let_def)
  have s1: "nx s1 = nx s" "pv s1 = pv s" "st s1 = (st s)(t := TASK_RUNNING)" "pri s1 = pri s" "current_id s1 = t"
    "rq_old s1 = rq_old s" "rq_idle s1 = rq_idle s" "rq_first s1 = rq_first s" "rq_last s1 = rq_last s"
    "rq_bitmap s1 = rq_bitmap s" "stack_word s1 = stack_word s"
    by (simp_all add: s1_def sched_simps) (simp add: upd_task_def)
  have s2: "nx s2 = nx s" "pv s2 = pv s" "st s2 = (st s)(t := TASK_RUNNING)" "pri s2 = pri s" "current_id s2 = t"
    "rq_old s2 = rq_old s" "rq_idle s2 = rq_idle s" "rq_first s2 = (rq_first s)(p := first_or ts None)" "rq_last s2 = rq_last s"
    "rq_bitmap s2 = rq_bitmap s" "stack_word s2 = stack_word s"
    by (simp_all add: s2_def sched_simps s1 f(2)) (simp add: set_first_def s1)
  have s3: "nx s3 = nx s" "pv s3 = pv s" "st s3 = (st s)(t := TASK_RUNNING)" "pri s3 = pri s" "current_id s3 = t"
    "rq_old s3 = rq_old s" "rq_idle s3 = rq_idle s" "rq_first s3 = (rq_first s)(p := first_or ts None)"
    "rq_last s3 = (if ts = [] then (rq_last s)(p := None) else rq_last s)"
    "rq_bitmap s3 = (if ts = [] then rq_bitmap s AND NOT (push_bit (unat p) 1) else rq_bitmap s)" "stack_word s3 = stack_word s"
    by (simp_all add: s3_def sched_simps s2 f(2)) (simp add: set_last_def clear_bit_of_def s2)
  have g: "nx s4 = (nx s)(t := None)" "pv s4 = (pv s)(t := None)" "stack_word s4 = stack_word s" "st s4 = (st s)(t := TASK_RUNNING)" "pri s4 = pri s" "current_id s4 = t"
    "rq_old s4 = rq_old s" "rq_idle s4 = rq_idle s" "rq_first s4 = (rq_first s)(p := first_or ts None)"
    "rq_last s4 = (if ts = [] then (rq_last s)(p := None) else rq_last s)"
    "rq_bitmap s4 = (if ts = [] then rq_bitmap s AND NOT (push_bit (unat p) 1) else rq_bitmap s)"
    by (simp_all add: s4_def sched_simps s3) (simp add: upd_task_def s3)
  have "queue_ok s4 p ts" using q f(3) by (cases ts) (auto simp: queue_ok_def g chain_simps)
  moreover have "\<forall>i. bit (rq_bitmap s4) i = (if i = unat p then ts \<noteq> [] else bit (rq_bitmap s) i)"
    using sched_bit [OF ok p] Q valid_less [OF p] by (auto simp: g bit_and_iff bit_not_iff bit_one_shift dest: bit_imp_le_length)
  moreover have "\<forall>q. valid_prio q \<longrightarrow> q \<noteq> p \<longrightarrow> (\<forall>x\<in>set (Q q). nx s4 x = nx s x \<and> st s4 x = st s x \<and> pri s4 x = pri s x)"
    using other_queues(1) [OF ok p, of t] Q by (auto simp: g dest: other_queues(1) [OF ok])
  ultimately have "sched_ok s4 (Q(p := ts))" by (intro sched_ok_change [OF ok p]) (auto simp: g)
  then show ?thesis using r g by blast
qed

lemma append_fields:
  assumes "queue_ok s p xs" "t \<notin> set xs"
  shows "st (append_task p t s) = st s" "pri (append_task p t s) = pri s" "rq_bitmap (append_task p t s) = rq_bitmap s"
    "nx (append_task p t s) = (if xs = [] then (nx s)(t := None) else (nx s)(t := None, last xs := Some t))"
    "rq_first (append_task p t s) = (if xs = [] then (rq_first s)(p := Some t) else rq_first s)"
    "rq_last (append_task p t s) = (rq_last s)(p := Some t)" "current_id (append_task p t s) = current_id s"
    "rq_old (append_task p t s) = rq_old s" "rq_idle (append_task p t s) = rq_idle s"
    "pv (append_task p t s) = (pv s)(t := if xs = [] then None else rq_last s p)"
proof -
  have f: "rq_first s p = first_or xs None" "rq_last s p = last_or None xs" using assms(1) by (simp_all add: queue_ok_def)
  have l: "xs \<noteq> [] \<Longrightarrow> rq_last s p = Some (last xs)" "xs \<noteq> [] \<Longrightarrow> last xs \<noteq> t"
    using f(2) assms(2) by (auto simp: last_or_eq)
  show "st (append_task p t s) = st s" "pri (append_task p t s) = pri s" "rq_bitmap (append_task p t s) = rq_bitmap s"
    "nx (append_task p t s) = (if xs = [] then (nx s)(t := None) else (nx s)(t := None, last xs := Some t))"
    "rq_first (append_task p t s) = (if xs = [] then (rq_first s)(p := Some t) else rq_first s)"
    "rq_last (append_task p t s) = (rq_last s)(p := Some t)" "current_id (append_task p t s) = current_id s"
    "rq_old (append_task p t s) = rq_old s" "rq_idle (append_task p t s) = rq_idle s"
    "pv (append_task p t s) = (pv s)(t := if xs = [] then None else rq_last s p)"
    using l by (cases "xs = []"; auto simp: append_task_def upd_task_opt_def Let_def f(1) sched_simps fun_eq_iff)+
qed

text \<open>What both ways of appending a task to its queue leave behind.\<close>

lemma sched_ok_append:
  assumes ok: "sched_ok s Q" and p: "valid_prio p" and t: "st s t = TASK_READY" "pri s t = p" "t \<notin> set (Q p)"
    and s': "st s' = st s" "pri s' = pri s"
      "nx s' = (if Q p = [] then (nx s)(t := None) else (nx s)(t := None, last (Q p) := Some t))"
      "rq_first s' = (if Q p = [] then (rq_first s)(p := Some t) else rq_first s)"
      "rq_last s' = (rq_last s)(p := Some t)" "rq_bitmap s' = rq_bitmap s OR push_bit (unat p) 1"
  shows "sched_ok s' (Q(p := Q p @ [t]))"
proof -
  have q: "queue_ok s p (Q p)" by (rule sched_queue [OF ok p])
  have "nchain (nx s') (Q p @ [t]) None"
  proof (cases "Q p" rule: rev_cases)
    case (snoc ys y)
    then show ?thesis using q t(3) by (auto simp: s' queue_ok_def chain_simps)
  qed (simp add: s')
  then have "queue_ok s' p (Q p @ [t])" using q t by (auto simp: queue_ok_def s' first_or_append first_or_eq)
  moreover have "\<forall>i. bit (rq_bitmap s') i = (if i = unat p then Q p @ [t] \<noteq> [] else bit (rq_bitmap s) i)"
    using valid_less [OF p] by (auto simp: s' bit_or_iff bit_one_shift)
  moreover have "\<forall>q. valid_prio q \<longrightarrow> q \<noteq> p \<longrightarrow> (\<forall>x\<in>set (Q q). nx s' x = nx s x \<and> st s' x = st s x \<and> pri s' x = pri s x)"
  proof (intro allI impI ballI)
    fix q x assume v: "valid_prio q" "q \<noteq> p" "x \<in> set (Q q)"
    then have "pri s x = q" using other_queues(1) [OF ok] by blast
    moreover have "Q p \<noteq> [] \<Longrightarrow> pri s (last (Q p)) = p" using other_queues(1) [OF ok p] by simp
    ultimately have "x \<noteq> t" "Q p \<noteq> [] \<Longrightarrow> x \<noteq> last (Q p)" using v t by auto
    then show "nx s' x = nx s x \<and> st s' x = st s x \<and> pri s' x = pri s x" by (auto simp: s')
  qed
  ultimately show ?thesis by (intro sched_ok_change [OF ok p]) (auto simp: s')
qed

lemma append_task_ok:
  assumes "sched_ok s Q" "valid_prio p" "st s t = TASK_READY" "pri s t = p" "t \<notin> set (Q p)"
  shows "sched_ok (set_bit_of p ((append_task p t s)\<lparr>rq_old := v\<rparr>)) (Q(p := Q p @ [t]))"
  using append_fields [OF sched_queue [OF assms(1,2)] assms(5)]
  by (intro sched_ok_append [OF assms]) (simp_all add: sched_simps)

lemma wake_append_ok:
  assumes ok: "sched_ok s Q" and p: "valid_prio p" and t: "st s t = TASK_READY" "pri s t = p" "t \<notin> set (Q p)"
  shows "sched_ok (wake_append p t s) (Q(p := Q p @ [t]))" "st (wake_append p t s) = st s" "pri (wake_append p t s) = pri s"
    "current_id (wake_append p t s) = current_id s" "rq_old (wake_append p t s) = rq_old s"
    "rq_idle (wake_append p t s) = rq_idle s" "\<forall>x. x \<noteq> t \<longrightarrow> pv (wake_append p t s) x = pv s x"
    "\<forall>x. x \<noteq> t \<longrightarrow> x \<notin> set (Q p) \<longrightarrow> nx (wake_append p t s) x = nx s x"
proof -
  have f: "rq_last s p = last_or None (Q p)" "rq_first s p = first_or (Q p) None"
    using sched_queue [OF ok p] by (simp_all add: queue_ok_def)
  have l: "Q p \<noteq> [] \<Longrightarrow> rq_last s p = Some (last (Q p))" "Q p \<noteq> [] \<Longrightarrow> last (Q p) \<noteq> t"
    using f(1) t(3) by (auto simp: last_or_eq)
  have b: "Q p \<noteq> [] \<Longrightarrow> rq_bitmap s OR push_bit (unat p) 1 = rq_bitmap s"
    using sched_bit [OF ok p] by (intro bit_word_eqI) (auto simp: bit_or_iff bit_one_shift)
  have g: "st (wake_append p t s) = st s" "pri (wake_append p t s) = pri s"
      "nx (wake_append p t s) = (if Q p = [] then (nx s)(t := None) else (nx s)(t := None, last (Q p) := Some t))"
      "rq_first (wake_append p t s) = (if Q p = [] then (rq_first s)(p := Some t) else rq_first s)"
      "rq_last (wake_append p t s) = (rq_last s)(p := Some t)" "rq_bitmap (wake_append p t s) = rq_bitmap s OR push_bit (unat p) 1"
      "current_id (wake_append p t s) = current_id s" "rq_old (wake_append p t s) = rq_old s"
      "rq_idle (wake_append p t s) = rq_idle s"
      "pv (wake_append p t s) = (pv s)(t := if Q p = [] then None else rq_last s p)"
    using l b f by (cases "Q p = []"; auto simp: wake_append_def Let_def sched_simps fun_eq_iff)+
  show "sched_ok (wake_append p t s) (Q(p := Q p @ [t]))" by (intro sched_ok_append [OF ok p t]) (simp_all add: g)
  show "st (wake_append p t s) = st s" "pri (wake_append p t s) = pri s"
    "current_id (wake_append p t s) = current_id s" "rq_old (wake_append p t s) = rq_old s"
    "rq_idle (wake_append p t s) = rq_idle s" "\<forall>x. x \<noteq> t \<longrightarrow> pv (wake_append p t s) x = pv s x"
    "\<forall>x. x \<noteq> t \<longrightarrow> x \<notin> set (Q p) \<longrightarrow> nx (wake_append p t s) x = nx s x" by (auto simp: g)
qed

section \<open>No ready task is lost\<close>

text \<open>
  Between \<^verbatim>\<open>scheduler\<close> and \<^verbatim>\<open>finish_task_switch\<close> the preempted task waits in \<open>rq_old\<close>; otherwise
  every ready task is in the queue of its priority.
\<close>

definition mid :: "'a sys_scheme \<Rightarrow> (u8 \<Rightarrow> u32 list) \<Rightarrow> bool" where
  "mid s Q \<longleftrightarrow> sched_ok s Q
    \<and> (\<forall>t. st s t = TASK_READY \<longrightarrow> valid_prio (pri s t) \<and> (t \<in> set (Q (pri s t)) \<or> rq_old s = Some t))
    \<and> (\<forall>t. rq_old s = Some t \<longrightarrow> st s t = TASK_INVALID \<or> st s t = TASK_READY \<and> t \<notin> set (Q (pri s t)))
    \<and> (\<forall>t. st s t = TASK_RUNNING \<longrightarrow> t = current_id s \<and> valid_prio (pri s t) \<and> nx s t = None \<and> pv s t = None)
    \<and> (\<forall>t. st s t = TASK_BLOCKED \<longrightarrow> valid_prio (pri s t))
    \<and> st s (rq_idle s) = TASK_IDLE"

definition sched_inv :: "'a sys_scheme \<Rightarrow> bool" where
  "sched_inv s \<longleftrightarrow> rq_old s = None \<and> (\<exists>Q. mid s Q)"

lemma mid_cong:
  assumes "nx s' = nx s" "pv s' = pv s" "st s' = st s" "pri s' = pri s" "rq_first s' = rq_first s" "rq_last s' = rq_last s"
    "rq_bitmap s' = rq_bitmap s" "rq_old s' = rq_old s" "current_id s' = current_id s" "rq_idle s' = rq_idle s"
  shows "mid s' Q = mid s Q"
  using assms by (simp add: mid_def sched_ok_def queue_ok_def)

lemma msb_bit: "w \<noteq> 0 \<Longrightarrow> bit w (msb w) \<and> msb w < 32 \<and> (\<forall>j. msb w < j \<longrightarrow> \<not> bit w j)" for w :: u32
proof -
  assume "w \<noteq> 0"
  then have "\<exists>i. bit w i" using bit_word_eqI [of w 0] by auto
  then obtain i where "bit w i" by blast
  then have "i < 32" using bit_imp_le_length [of w i] by simp
  note i = \<open>bit w i\<close> \<open>i < 32\<close>
  have *: "i \<le> n \<Longrightarrow> (\<forall>j>n. \<not> bit w j) \<Longrightarrow> bit w (top_bit n w) \<and> top_bit n w \<le> n \<and> (\<forall>j. top_bit n w < j \<longrightarrow> \<not> bit w j)" for n
  proof (induction n)
    case (Suc n)
    show ?case
    proof (cases "bit w (Suc n)")
      case False
      then have "i \<le> n" using Suc.prems(1) \<open>bit w i\<close> by (metis le_SucE)
      moreover have "\<forall>j>n. \<not> bit w j" using False Suc.prems(2) by (metis Suc_lessI)
      ultimately show ?thesis using Suc.IH False by auto
    qed (use Suc.prems in auto)
  qed (use i in auto)
  have "\<forall>j>31. \<not> bit w j" by (auto dest: bit_imp_le_length)
  with * [of 31] \<open>i < 32\<close> \<open>w \<noteq> 0\<close> show ?thesis by (auto simp: msb_def)
qed

text \<open>The bitmap names the highest non-empty queue.\<close>

lemma msb_highest:
  assumes ok: "sched_ok s Q"
  shows "if \<forall>p. valid_prio p \<longrightarrow> Q p = [] then msb (rq_bitmap s) = 32
    else valid_prio (of_nat (msb (rq_bitmap s))) \<and> Q (of_nat (msb (rq_bitmap s))) \<noteq> [] \<and> msb (rq_bitmap s) \<le> 31
      \<and> (\<forall>q. valid_prio q \<and> msb (rq_bitmap s) < unat q \<longrightarrow> Q q = [])"
proof (cases "\<forall>p. valid_prio p \<longrightarrow> Q p = []")
  case True
  then have "\<not> bit (rq_bitmap s) i" for i using ok by (auto simp: sched_ok_def)
  then have "rq_bitmap s = 0" by (intro bit_word_eqI) simp
  then show ?thesis using True by (simp add: msb_def)
next
  case False
  then obtain p where "valid_prio p" "Q p \<noteq> []" by blast
  then have "bit (rq_bitmap s) (unat p)" using sched_bit [OF ok] by blast
  then have "rq_bitmap s \<noteq> 0" by auto
  note m = msb_bit [OF this]
  then obtain q where q: "valid_prio q" "unat q = msb (rq_bitmap s)" "Q q \<noteq> []" using ok unfolding sched_ok_def by metis
  then have "of_nat (msb (rq_bitmap s)) = q" by (simp add: q(2) [symmetric])
  moreover have "\<forall>q. valid_prio q \<and> msb (rq_bitmap s) < unat q \<longrightarrow> Q q = []" using m sched_bit [OF ok] by blast
  ultimately show ?thesis using q m False by simp
qed

lemma not_queued: "sched_ok s Q \<Longrightarrow> st s t \<noteq> TASK_READY \<Longrightarrow> valid_prio q \<Longrightarrow> t \<notin> set (Q q)"
  using other_queues(2) by blast

text \<open>The first step of \<^verbatim>\<open>scheduler\<close>, which retires a finished task.\<close>

definition retire :: "'a sys_scheme \<Rightarrow> 'a sys_scheme" where
  "retire s = (if status (task_table s (current_id s)) = TASK_FINISHED
     then (upd_task (current_id s) (\<lambda>x. x\<lparr>status := TASK_INVALID\<rparr>) s)\<lparr>rq_old := Some (current_id s)\<rparr>
     else s\<lparr>rq_old := None\<rparr>)"

definition preempt :: "'a sys_scheme \<Rightarrow> 'a sys_scheme" where
  "preempt s = (if status (task_table s (current_id s)) = TASK_RUNNING
     then (upd_task (current_id s) (\<lambda>x. x\<lparr>status := TASK_READY\<rparr>) s)\<lparr>rq_old := Some (current_id s)\<rparr> else s)"

lemma retire_fields:
  "nx (retire s) = nx s" "pv (retire s) = pv s" "pri (retire s) = pri s" "rq_first (retire s) = rq_first s"
  "rq_last (retire s) = rq_last s" "rq_bitmap (retire s) = rq_bitmap s" "current_id (retire s) = current_id s"
  "rq_idle (retire s) = rq_idle s"
  "st (retire s) = (if st s (current_id s) = TASK_FINISHED then (st s)(current_id s := TASK_INVALID) else st s)"
  "rq_old (retire s) = (if st s (current_id s) = TASK_FINISHED then Some (current_id s) else None)"
  by (auto simp: retire_def sched_simps)

lemma preempt_fields:
  "nx (preempt s) = nx s" "pv (preempt s) = pv s" "pri (preempt s) = pri s" "rq_first (preempt s) = rq_first s"
  "rq_last (preempt s) = rq_last s" "rq_bitmap (preempt s) = rq_bitmap s" "current_id (preempt s) = current_id s"
  "rq_idle (preempt s) = rq_idle s"
  "st (preempt s) = (if st s (current_id s) = TASK_RUNNING then (st s)(current_id s := TASK_READY) else st s)"
  "rq_old (preempt s) = (if st s (current_id s) = TASK_RUNNING then Some (current_id s) else rq_old s)"
  by (auto simp: preempt_def sched_simps)

lemma retire_mid: "mid s Q \<Longrightarrow> rq_old s = None \<Longrightarrow> mid (retire s) Q"
proof -
  assume m: "mid s Q" "rq_old s = None"
  then have ok: "sched_ok s Q" by (simp add: mid_def)
  have "sched_ok (retire s) Q"
  proof (cases "st s (current_id s) = TASK_FINISHED")
    case True
    then have "\<forall>p. valid_prio p \<longrightarrow> current_id s \<notin> set (Q p)" using not_queued [OF ok] by auto
    then show ?thesis by (rule sched_ok_other [OF ok]) (auto simp: retire_fields)
  next
    case False
    then show ?thesis using ok by (simp add: sched_ok_def queue_ok_def retire_fields)
  qed
  then show ?thesis using m unfolding mid_def by (auto simp: retire_fields)
qed

definition clear_fpu :: "u32 \<Rightarrow> 'a sys_scheme \<Rightarrow> 'a sys_scheme" where
  "clear_fpu t s = (if t_flags (task_table s t) AND TASK_FPU_USED \<noteq> 0 \<and> status (task_table s t) = TASK_READY
     then upd_task t (\<lambda>x. x\<lparr>t_flags := t_flags x AND NOT TASK_FPU_USED\<rparr>) s else s)"

lemma clear_fpu_fields:
  "nx (clear_fpu t s) = nx s" "pv (clear_fpu t s) = pv s" "st (clear_fpu t s) = st s" "pri (clear_fpu t s) = pri s"
  "rq_first (clear_fpu t s) = rq_first s" "rq_last (clear_fpu t s) = rq_last s" "rq_bitmap (clear_fpu t s) = rq_bitmap s"
  "rq_old (clear_fpu t s) = rq_old s" "current_id (clear_fpu t s) = current_id s" "rq_idle (clear_fpu t s) = rq_idle s"
  by (auto simp: clear_fpu_def sched_simps)

text \<open>\<^verbatim>\<open>scheduler\<close> as the composition of these steps.\<close>

lemma scheduler_steps:
  "scheduler s =
     (let orig = current_id s; s1 = retire s; p = msb (rq_bitmap s1) in
      case (if p > 31
            then (if st s1 orig = TASK_RUNNING \<or> st s1 orig = TASK_IDLE then Some s1 else Some (s1\<lparr>current_id := rq_idle s1\<rparr>))
            else if unat (pri s1 orig) > p \<and> st s1 orig = TASK_RUNNING then Some s1
            else map_option snd (take_first (of_nat p) (preempt s1))) of
        None \<Rightarrow> None
      | Some s2 \<Rightarrow> if current_id s2 \<noteq> orig then Some (Some orig, clear_fpu orig s2) else Some (None, s2))"
proof -
  have 1: "current_id (retire s) = current_id s" by (simp add: retire_fields)
  show ?thesis
    unfolding scheduler_def Let_def preempt_def 1 clear_fpu_def fields_fold_tasks [symmetric]
    unfolding retire_def [symmetric]
    by (simp cong: option.case_cong if_cong)
qed

lemma take_preempt_mid:
  assumes m: "mid s Q" and old: "st s (current_id s) = TASK_RUNNING \<longrightarrow> rq_old s = None"
    and p: "valid_prio p" and Q: "Q p = t # ts"
  shows "\<exists>s'. take_first p (preempt s) = Some (t, s') \<and> mid s' (Q(p := ts)) \<and> current_id s' = t
    \<and> rq_old s' = (if st s (current_id s) = TASK_RUNNING then Some (current_id s) else rq_old s)"
proof -
  let ?c = "current_id s"
  have ok: "sched_ok s Q" using m by (simp add: mid_def)
  have ok2: "sched_ok (preempt s) Q"
  proof (cases "st s ?c = TASK_RUNNING")
    case True
    then have "\<forall>p. valid_prio p \<longrightarrow> ?c \<notin> set (Q p)" using not_queued [OF ok] by auto
    then show ?thesis by (rule sched_ok_other [OF ok]) (auto simp: preempt_fields)
  next
    case False
    then show ?thesis using ok by (simp add: sched_ok_def queue_ok_def preempt_fields)
  qed
  obtain s' where r: "take_first p (preempt s) = Some (t, s')" and ok': "sched_ok s' (Q(p := ts))"
    and f: "st s' = (st (preempt s))(t := TASK_RUNNING)" "pri s' = pri s" "current_id s' = t"
      "rq_old s' = rq_old (preempt s)" "rq_idle s' = rq_idle s" "nx s' = (nx s)(t := None)" "pv s' = (pv s)(t := None)"
    using take_first_ok [OF ok2 p Q] by (auto simp: preempt_fields)
  have t: "st s t = TASK_READY" "pri s t = p" "t \<notin> set ts" "st s ?c = TASK_RUNNING \<Longrightarrow> t \<noteq> ?c"
  proof -
    have tq: "t \<in> set (Q p)" using Q by simp
    show t: "st s t = TASK_READY" "pri s t = p" using other_queues [OF ok p tq] by simp_all
    show "t \<notin> set ts" using sched_queue [OF ok p] Q by (simp add: queue_ok_def)
    show "st s ?c = TASK_RUNNING \<Longrightarrow> t \<noteq> ?c" using t(1) by auto
  qed
  have run: "st s x = TASK_RUNNING \<Longrightarrow> x = ?c" for x using m unfolding mid_def by blast
  have ready: "st s x = TASK_READY \<Longrightarrow> valid_prio (pri s x) \<and> (x \<in> set (Q (pri s x)) \<or> rq_old s = Some x)" for x
    using m unfolding mid_def by blast
  have oldm: "rq_old s = Some x \<Longrightarrow> st s x = TASK_INVALID \<or> st s x = TASK_READY \<and> x \<notin> set (Q (pri s x))" for x
    using m unfolding mid_def by blast
  have vr: "st s ?c = TASK_RUNNING \<Longrightarrow> valid_prio (pri s ?c)" using m unfolding mid_def by blast
  have idle: "st s (rq_idle s) = TASK_IDLE" and blk: "st s x = TASK_BLOCKED \<Longrightarrow> valid_prio (pri s x)" for x
    using m unfolding mid_def by blast+
  have cq: "st s ?c = TASK_RUNNING \<Longrightarrow> ?c \<notin> set (Q (pri s ?c))" using not_queued [OF ok] vr by simp
  have "mid s' (Q(p := ts))" unfolding mid_def
  proof (intro conjI allI impI)
    show "sched_ok s' (Q(p := ts))" by (rule ok')
    show "st s' (rq_idle s') = TASK_IDLE" using idle t(1) by (auto simp: f preempt_fields)
    fix x
    show "valid_prio (pri s' x)" if "st s' x = TASK_BLOCKED"
      using that blk by (auto simp: f preempt_fields split: if_splits)
    have xt: "x = t" if "st s' x = TASK_RUNNING"
      using that by (auto simp: f preempt_fields split: if_splits dest: run)
    show "x = current_id s'" if "st s' x = TASK_RUNNING" using xt [OF that] f(3) by simp
    show "valid_prio (pri s' x)" "nx s' x = None" "pv s' x = None" if "st s' x = TASK_RUNNING"
      using xt [OF that] p t(2) by (simp_all add: f)
    show "valid_prio (pri s' x)" if "st s' x = TASK_READY"
      using that ready [of x] vr by (auto simp: f preempt_fields split: if_splits)
    show "x \<in> set ((Q(p := ts)) (pri s' x)) \<or> rq_old s' = Some x" if "st s' x = TASK_READY"
      using that ready [of x] Q old by (auto simp: f preempt_fields split: if_splits)
    show "st s' x = TASK_INVALID \<or> st s' x = TASK_READY \<and> x \<notin> set ((Q(p := ts)) (pri s' x))" if "rq_old s' = Some x"
      using that oldm [of x] cq t Q old by (auto simp: f preempt_fields split: if_splits)
  qed
  then show ?thesis using r f(3,4) by (auto simp: preempt_fields)
qed

lemma scheduler_mid:
  assumes m: "mid s Q" and old: "rq_old s = None"
  shows "\<exists>r s' Q'. scheduler s = Some (r, s') \<and> mid s' Q'
    \<and> r = (if current_id s' = current_id s then None else Some (current_id s)) \<and> (r = None \<longrightarrow> rq_old s' = None)
    \<and> current_id s' =
        (if \<forall>p. valid_prio p \<longrightarrow> Q p = []
         then (if st s (current_id s) \<in> {TASK_RUNNING, TASK_IDLE} then current_id s else rq_idle s)
         else if st s (current_id s) = TASK_RUNNING \<and> unat (pri s (current_id s)) > msb (rq_bitmap s) then current_id s
         else hd (Q (of_nat (msb (rq_bitmap s)))))"
proof -
  let ?c = "current_id s" and ?p = "msb (rq_bitmap s)"
  define s1 where "s1 = retire s"
  have m1: "mid s1 Q" unfolding s1_def by (rule retire_mid [OF m old])
  have f1: "rq_bitmap s1 = rq_bitmap s" "pri s1 = pri s" "current_id s1 = ?c" "rq_idle s1 = rq_idle s"
    "st s1 ?c = (if st s ?c = TASK_FINISHED then TASK_INVALID else st s ?c)"
    "rq_old s1 = (if st s ?c = TASK_FINISHED then Some ?c else None)"
    by (simp_all add: s1_def retire_fields)
  have ok1: "sched_ok s1 Q" using m1 by (simp add: mid_def)
  note hi = msb_highest [OF ok1, unfolded f1(1)]
  note steps = scheduler_steps [of s, folded s1_def, unfolded Let_def f1(1-4)]
  show ?thesis
  proof (cases "\<forall>p. valid_prio p \<longrightarrow> Q p = []")
    case none: True
    have p: "?p = 32" using hi unfolding if_P [OF none] .
    show ?thesis
    proof (cases "st s ?c \<in> {TASK_RUNNING, TASK_IDLE}")
      case True
      then have "scheduler s = Some (None, s1)" using steps p f1 by auto
      moreover have "rq_old s1 = None" using True f1(6) by auto
      ultimately show ?thesis using m1 none True f1(3) by auto
    next
      case False
      have idle: "st s (rq_idle s) = TASK_IDLE" using m by (simp add: mid_def)
      then have ne: "rq_idle s \<noteq> ?c" using False by auto
      then have "scheduler s = Some (Some ?c, clear_fpu ?c (s1\<lparr>current_id := rq_idle s\<rparr>))"
        using steps p f1 False by auto
      moreover have run: "\<forall>t. st s1 t \<noteq> TASK_RUNNING" using m1 False f1(3,5) by (auto simp: mid_def split: if_splits)
      moreover have "mid (clear_fpu ?c (s1\<lparr>current_id := rq_idle s\<rparr>)) Q = mid (s1\<lparr>current_id := rq_idle s\<rparr>) Q"
        by (rule mid_cong) (simp_all add: clear_fpu_fields)
      moreover have "mid (s1\<lparr>current_id := rq_idle s\<rparr>) Q"
        using m1 run unfolding mid_def sched_ok_def queue_ok_def by (simp add: sched_simps)
      ultimately show ?thesis using none False ne by (auto simp: clear_fpu_fields)
    qed
  next
    case some: False
    have hi: "valid_prio (of_nat ?p)" "Q (of_nat ?p) \<noteq> []" "?p \<le> 31" using hi unfolding if_not_P [OF some] by blast+
    show ?thesis
    proof (cases "st s ?c = TASK_RUNNING \<and> unat (pri s ?c) > ?p")
      case True
      then have "scheduler s = Some (None, s1)" using steps hi(3) f1 by auto
      moreover have "rq_old s1 = None" using True f1(6) by auto
      ultimately show ?thesis using m1 some True f1(3) by auto
    next
      case keep: False
      obtain t ts where Q: "Q (of_nat ?p) = t # ts" using hi(2) by (cases "Q (of_nat ?p)") auto
      have "st s1 (current_id s1) = TASK_RUNNING \<longrightarrow> rq_old s1 = None" using f1 by auto
      from take_preempt_mid [OF m1 this hi(1) Q] obtain s2 where
        s2: "take_first (of_nat ?p) (preempt s1) = Some (t, s2)" "mid s2 (Q(of_nat ?p := ts))" "current_id s2 = t"
        "rq_old s2 = (if st s1 ?c = TASK_RUNNING then Some ?c else rq_old s1)"
        unfolding f1(3) by blast
      have "scheduler s = (if t \<noteq> ?c then Some (Some ?c, clear_fpu ?c s2) else Some (None, s2))"
        using steps hi(3) keep f1 s2(1,3) by (auto split: if_splits)
      moreover have "mid (clear_fpu ?c s2) (Q(of_nat ?p := ts)) = mid s2 (Q(of_nat ?p := ts))"
        by (rule mid_cong) (simp_all add: clear_fpu_fields)
      moreover have "t = ?c \<Longrightarrow> rq_old s2 = None"
        using other_queues(2) [OF ok1 hi(1), of t] Q s2(4) f1(5,6) by (auto split: if_splits)
      ultimately show ?thesis using some keep Q s2(2,3) by (auto simp: clear_fpu_fields)
    qed
  qed
qed

section \<open>The switch, waking and blocking\<close>

lemma kfree_sched:
  assumes "kfree a s = Some s'"
  shows "nx s' = nx s" "pv s' = pv s" "st s' = st s" "pri s' = pri s" "rq_first s' = rq_first s" "rq_last s' = rq_last s"
    "rq_bitmap s' = rq_bitmap s" "rq_old s' = rq_old s" "current_id s' = current_id s" "rq_idle s' = rq_idle s"
  using assms by (auto simp: kfree_def Let_def set_list_def set_word_def nx_def pv_def st_def pri_def fun_eq_iff split: if_splits)

definition requeue :: "'a sys_scheme \<Rightarrow> 'a sys_scheme" where
  "requeue s = (case rq_old s of
      None \<Rightarrow> s
    | Some old \<Rightarrow>
        if status (task_table s old) = TASK_INVALID
        then (upd_task old (\<lambda>x. x\<lparr>stack := 0, last_stack_pointer := 0\<rparr>) s)\<lparr>rq_old := None\<rparr>
        else let p = prio (task_table s old) in set_bit_of p ((append_task p old s)\<lparr>rq_old := None\<rparr>))"

lemma finish_requeue:
  "finish_task_switch s = (let s = requeue s in
     if task_heap s (current_id s) \<noteq> 0 then kfree (task_heap s (current_id s)) s else Some s)"
  by (simp add: finish_task_switch_def requeue_def)

lemma midE:
  assumes "mid s Q"
  shows "sched_ok s Q" "st s t = TASK_READY \<Longrightarrow> valid_prio (pri s t) \<and> (t \<in> set (Q (pri s t)) \<or> rq_old s = Some t)"
    "rq_old s = Some t \<Longrightarrow> st s t = TASK_INVALID \<or> st s t = TASK_READY \<and> t \<notin> set (Q (pri s t))"
    "st s t = TASK_RUNNING \<Longrightarrow> t = current_id s \<and> valid_prio (pri s t) \<and> nx s t = None \<and> pv s t = None"
    "st s t = TASK_BLOCKED \<Longrightarrow> valid_prio (pri s t)" "st s (rq_idle s) = TASK_IDLE"
  using assms unfolding mid_def by blast+

lemma requeue_mid:
  assumes m: "mid s Q" shows "\<exists>Q'. mid (requeue s) Q' \<and> rq_old (requeue s) = None \<and> current_id (requeue s) = current_id s"
proof (cases "rq_old s")
  case None
  then show ?thesis using m by (auto simp: requeue_def)
next
  case (Some old)
  show ?thesis
  proof (cases "st s old = TASK_INVALID")
    case True
    then have r: "requeue s = (upd_task old (\<lambda>x. x\<lparr>stack := 0, last_stack_pointer := 0\<rparr>) s)\<lparr>rq_old := None\<rparr>"
      using Some by (simp add: requeue_def sched_simps)
    have "st s x = TASK_READY \<Longrightarrow> x \<in> set (Q (pri s x))" for x using midE(2) [OF m, of x] Some True by auto
    then have "mid (requeue s) Q" using m unfolding r mid_def sched_ok_def queue_ok_def
      by (simp add: sched_simps fun_upd_idem)
    then show ?thesis by (auto simp: r sched_simps)
  next
    case False
    let ?p = "pri s old"
    have o: "st s old = TASK_READY" "old \<notin> set (Q ?p)" using midE(3) [OF m Some] False by auto
    have v: "valid_prio ?p" using midE(2) [OF m o(1)] by simp
    have r: "requeue s = set_bit_of ?p ((append_task ?p old s)\<lparr>rq_old := None\<rparr>)"
      using Some False by (simp add: requeue_def sched_simps Let_def)
    have ok: "sched_ok (requeue s) (Q(?p := Q ?p @ [old]))"
      unfolding r by (rule append_task_ok [OF midE(1) [OF m] v o(1) refl o(2)])
    note f = append_fields [OF sched_queue [OF midE(1) [OF m] v] o(2)]
    have g: "st (requeue s) = st s" "pri (requeue s) = pri s" "rq_old (requeue s) = None" "current_id (requeue s) = current_id s"
      "rq_idle (requeue s) = rq_idle s" by (simp_all add: r sched_simps f)
    have run: "nx (requeue s) x = None" "pv (requeue s) x = None" if "st s x = TASK_RUNNING" for x
    proof -
      have "x \<noteq> old" using that o(1) by auto
      moreover have "Q ?p \<noteq> [] \<Longrightarrow> x \<noteq> last (Q ?p)"
        using that other_queues(2) [OF midE(1) [OF m] v, of x] by auto
      ultimately show "nx (requeue s) x = None" "pv (requeue s) x = None"
        using midE(4) [OF m that] by (auto simp: r sched_simps f)
    qed
    have "mid (requeue s) (Q(?p := Q ?p @ [old]))" unfolding mid_def g
    proof (intro conjI allI impI)
      fix x
      show "x \<in> set ((Q(?p := Q ?p @ [old])) (pri s x)) \<or> None = Some x" if "st s x = TASK_READY"
        using midE(2) [OF m that] Some by auto
      show "valid_prio (pri s x)" if "st s x = TASK_READY" using midE(2) [OF m that] by simp
      show "x = current_id s" "valid_prio (pri s x)" if "st s x = TASK_RUNNING" using midE(4) [OF m that] by blast+
      show "nx (requeue s) x = None" "pv (requeue s) x = None" if "st s x = TASK_RUNNING" using run [OF that] .
      show "valid_prio (pri s x)" if "st s x = TASK_BLOCKED" using midE(5) [OF m that] .
      show "sched_ok (requeue s) (Q(?p := Q ?p @ [old]))" by (rule ok)
      show "st s (rq_idle s) = TASK_IDLE" by (rule midE(6) [OF m])
    qed simp
    then show ?thesis using g by blast
  qed
qed

lemma finish_task_switch_inv:
  assumes m: "mid s Q" and r: "finish_task_switch s = Some s'"
  shows "sched_inv s' \<and> current_id s' = current_id s"
proof -
  obtain Q' where q: "mid (requeue s) Q'" "rq_old (requeue s) = None" "current_id (requeue s) = current_id s"
    using requeue_mid [OF m] by blast
  consider "s' = requeue s" | a where "kfree a (requeue s) = Some s'"
  proof (cases "task_heap (requeue s) (current_id (requeue s)) \<noteq> 0")
    case True
    then show ?thesis using r that(2) unfolding finish_requeue Let_def by simp
  next
    case False
    then show ?thesis using r that(1) unfolding finish_requeue Let_def by simp
  qed
  then show ?thesis
  proof cases
    case 2
    note k = kfree_sched [OF 2]
    have "mid s' Q' = mid (requeue s) Q'" by (rule mid_cong) (simp_all add: k)
    then show ?thesis using q k by (auto simp: sched_inv_def)
  qed (use q in \<open>auto simp: sched_inv_def\<close>)
qed

lemma switch_mid:
  assumes "mid s Q" shows "mid (snd (get_current_stack (upd_task old (\<lambda>x. x\<lparr>last_stack_pointer := esp\<rparr>) s))) Q"
  using assms by (subst mid_cong [of _ s]) (auto simp: get_current_stack_def Let_def sched_simps)

lemma reschedule_inv:
  assumes "mid s Q" "rq_old s = None" "reschedule esp s = Some s'"
  shows "sched_inv s'"
proof -
  obtain r s1 Q' where s1: "scheduler s = Some (r, s1)" "mid s1 Q'" "r = None \<longrightarrow> rq_old s1 = None"
    using scheduler_mid [OF assms(1,2)] by (elim exE conjE) (rule that)
  show ?thesis
  proof (cases r)
    case None
    then show ?thesis using s1 assms(3) by (auto simp: reschedule_def sched_inv_def)
  next
    case (Some old)
    then have "switch_context esp old s1 = Some s'" using s1(1) assms(3) by (simp add: reschedule_def)
    then show ?thesis using finish_task_switch_inv [OF switch_mid [OF s1(2)]] unfolding switch_context_def by blast
  qed
qed

lemma wakeup_inv:
  assumes m: "mid s Q" and old: "rq_old s = None" shows "sched_inv (snd (wakeup_task t s))"
proof (cases "st s t = TASK_BLOCKED")
  case True
  let ?p = "pri s t"
  define s1 where "s1 = upd_task t (\<lambda>x. x\<lparr>status := TASK_READY\<rparr>) s\<lparr>rq_nr_tasks := rq_nr_tasks s + 1\<rparr>"
  have v: "valid_prio ?p" using midE(5) [OF m True] .
  have f: "nx s1 = nx s" "pv s1 = pv s" "st s1 = (st s)(t := TASK_READY)" "pri s1 = pri s" "rq_first s1 = rq_first s"
    "rq_last s1 = rq_last s" "rq_bitmap s1 = rq_bitmap s" "rq_old s1 = rq_old s" "current_id s1 = current_id s" "rq_idle s1 = rq_idle s"
    by (simp_all add: s1_def sched_simps)
  have nq: "\<forall>p. valid_prio p \<longrightarrow> t \<notin> set (Q p)" using not_queued [OF midE(1) [OF m]] True by auto
  have ok: "sched_ok s1 Q" by (rule sched_ok_other [OF midE(1) [OF m] nq]) (auto simp: f)
  have "st s1 t = TASK_READY" "pri s1 t = ?p" "t \<notin> set (Q ?p)" using nq v by (simp_all add: f)
  note w = wake_append_ok [OF ok v this]
  have r: "snd (wakeup_task t s) = wake_append ?p t s1"
    using True by (simp add: wakeup_task_def Let_def sched_simps s1_def)
  have "mid (wake_append ?p t s1) (Q(?p := Q ?p @ [t]))" unfolding mid_def
  proof (intro conjI allI impI)
    fix x
    show "st (wake_append ?p t s1) x = TASK_READY \<Longrightarrow> x \<in> set ((Q(?p := Q ?p @ [t])) (pri (wake_append ?p t s1) x)) \<or> rq_old (wake_append ?p t s1) = Some x"
      using midE(2) [OF m, of x] old by (auto simp: w f split: if_splits)
    show "valid_prio (pri (wake_append ?p t s1) x)" if "st (wake_append ?p t s1) x = TASK_READY"
      using that midE(2) [OF m, of x] v by (auto simp: w f split: if_splits)
    have "x \<noteq> t \<and> st s x = TASK_RUNNING" "x \<notin> set (Q ?p)" if "st (wake_append ?p t s1) x = TASK_RUNNING"
      using that not_queued [OF midE(1) [OF m] _ v, of x] by (auto simp: w f split: if_splits)
    then show "x = current_id (wake_append ?p t s1)" "valid_prio (pri (wake_append ?p t s1) x)"
      "nx (wake_append ?p t s1) x = None" "pv (wake_append ?p t s1) x = None" if "st (wake_append ?p t s1) x = TASK_RUNNING"
      using that midE(4) [OF m, of x] w(7,8) by (auto simp: w(1-6) f)
    show "valid_prio (pri (wake_append ?p t s1) x)" if "st (wake_append ?p t s1) x = TASK_BLOCKED"
      using that midE(5) [OF m, of x] by (auto simp: w f split: if_splits)
    show "sched_ok (wake_append ?p t s1) (Q(?p := Q ?p @ [t]))" by (rule w(1))
    have o: "rq_old (wake_append ?p t s1) = None" using w(5) f old by simp
    show "st (wake_append ?p t s1) x = TASK_INVALID \<or> st (wake_append ?p t s1) x = TASK_READY
        \<and> x \<notin> set ((Q(?p := Q ?p @ [t])) (pri (wake_append ?p t s1) x))" if "rq_old (wake_append ?p t s1) = Some x"
      using that o by simp
    have "rq_idle s \<noteq> t" using True midE(6) [OF m] by auto
    then show "st (wake_append ?p t s1) (rq_idle (wake_append ?p t s1)) = TASK_IDLE"
      using midE(6) [OF m] by (simp add: w(2) w(6) f)
  qed
  moreover have "rq_old (wake_append ?p t s1) = None" using w f old by simp
  ultimately show ?thesis unfolding r by (auto simp: sched_inv_def)
next
  case False
  then have "snd (wakeup_task t s) = s" by (simp add: wakeup_task_def Let_def sched_simps)
  then show ?thesis using m old by (auto simp: sched_inv_def)
qed

lemma block_inv:
  assumes m: "mid s Q" and old: "rq_old s = None" shows "sched_inv (snd (block_current_task s))"
proof (cases "st s (current_id s) = TASK_RUNNING")
  case True
  let ?c = "current_id s" and ?p = "pri s (current_id s)"
  define s1 where "s1 = upd_task ?c (\<lambda>x. x\<lparr>status := TASK_BLOCKED\<rparr>) s\<lparr>rq_nr_tasks := rq_nr_tasks s - 1\<rparr>"
  have c: "valid_prio ?p" "nx s ?c = None" "pv s ?c = None" using midE(4) [OF m True] by blast+
  have ok: "sched_ok s Q" by (rule midE(1) [OF m])
  have nq: "\<forall>p. valid_prio p \<longrightarrow> ?c \<notin> set (Q p)" using not_queued [OF ok] True by auto
  have f: "nx s1 = nx s" "pv s1 = pv s" "st s1 = (st s)(?c := TASK_BLOCKED)" "pri s1 = pri s" "rq_first s1 = rq_first s"
    "rq_last s1 = rq_last s" "rq_bitmap s1 = rq_bitmap s" "rq_old s1 = rq_old s" "current_id s1 = ?c" "rq_idle s1 = rq_idle s"
    by (simp_all add: s1_def sched_simps)
  have q: "rq_first s ?p = first_or (Q ?p) None" "rq_last s ?p = last_or None (Q ?p)"
    using sched_queue [OF ok c(1)] by (simp_all add: queue_ok_def)
  have n: "rq_first s ?p \<noteq> Some ?c" "rq_last s ?p \<noteq> Some ?c"
  proof -
    have "?c \<notin> set (Q ?p)" using nq c(1) by blast
    then have "Q ?p \<noteq> [] \<Longrightarrow> hd (Q ?p) \<noteq> ?c" "Q ?p \<noteq> [] \<Longrightarrow> last (Q ?p) \<noteq> ?c"
      by (metis hd_in_set, metis last_in_set)
    then show "rq_first s ?p \<noteq> Some ?c" "rq_last s ?p \<noteq> Some ?c"
      unfolding q first_or_eq last_or_eq by simp_all
  qed
  have b: "rq_first s ?p = None \<Longrightarrow> clear_bit_of ?p s1 = s1"
  proof -
    assume "rq_first s ?p = None"
    then have "\<not> bit (rq_bitmap s) (unat ?p)" using sched_bit [OF ok c(1)] q by simp
    then have "rq_bitmap s1 AND NOT (push_bit (unat ?p) 1) = rq_bitmap s1"
      by (intro bit_word_eqI) (auto simp: f bit_and_iff bit_not_iff bit_one_shift dest: bit_imp_le_length)
    then show ?thesis by (simp add: clear_bit_of_def)
  qed
  have r: "snd (block_current_task s) = s1"
    using True c(2,3) n b unfolding block_current_task_def Let_def s1_def [symmetric]
    by (simp add: sched_simps f upd_task_opt_def s1_def [symmetric])
  have "mid s1 Q" unfolding mid_def
  proof (intro conjI allI impI)
    show "sched_ok s1 Q" by (rule sched_ok_other [OF ok nq]) (auto simp: f)
    show "st s1 (rq_idle s1) = TASK_IDLE" using midE(6) [OF m] True by (auto simp: f)
    fix x
    show "valid_prio (pri s1 x)" "x \<in> set (Q (pri s1 x)) \<or> rq_old s1 = Some x" if "st s1 x = TASK_READY"
      using that midE(2) [OF m, of x] by (simp_all add: f split: if_splits)
    show "st s1 x = TASK_INVALID \<or> st s1 x = TASK_READY \<and> x \<notin> set (Q (pri s1 x))" if "rq_old s1 = Some x"
      using that old by (simp add: f)
    have False if "st s1 x = TASK_RUNNING" using that midE(4) [OF m, of x] by (auto simp: f split: if_splits)
    then show "x = current_id s1" "valid_prio (pri s1 x)" "nx s1 x = None" "pv s1 x = None" if "st s1 x = TASK_RUNNING"
      using that by blast+
    show "valid_prio (pri s1 x)" if "st s1 x = TASK_BLOCKED"
      using that midE(5) [OF m, of x] c(1) by (auto simp: f split: if_splits)
  qed
  then show ?thesis using old unfolding r by (auto simp: sched_inv_def f)
next
  case False
  then have "snd (block_current_task s) = s" by (simp add: block_current_task_def Let_def sched_simps)
  then show ?thesis using m old by (auto simp: sched_inv_def)
qed

text \<open>
  C9: The scheduler loses no task: waking a task, blocking the current one and rescheduling
  (the switch to the next task included) keep every ready task in the queue of its priority,
  the queues linked and typed by their priority, the bitmap equal to the set of non-empty
  queues, and the current task the only running one.
\<close>

theorem scheduler_invariant:
  assumes "sched_inv s"
  shows "sched_inv (snd (wakeup_task t s)) \<and> sched_inv (snd (block_current_task s))
    \<and> (\<forall>s'. reschedule esp s = Some s' \<longrightarrow> sched_inv s')"
  using assms wakeup_inv block_inv reschedule_inv unfolding sched_inv_def [of s] by blast

text \<open>
  C10: The next task is the first one of the highest non-empty ready queue; a running task keeps
  the processor only when its priority is higher than that of every ready task, and with no
  ready task a running or idle task goes on and otherwise the idle task takes over.
\<close>

theorem scheduler_picks_highest:
  assumes "mid s Q" and "rq_old s = None"
  shows "\<exists>r s'. scheduler s = Some (r, s')
    \<and> r = (if current_id s' = current_id s then None else Some (current_id s))
    \<and> current_id s' =
        (if \<forall>p. valid_prio p \<longrightarrow> Q p = []
         then (if st s (current_id s) \<in> {TASK_RUNNING, TASK_IDLE} then current_id s else rq_idle s)
         else if st s (current_id s) = TASK_RUNNING \<and> unat (pri s (current_id s)) > msb (rq_bitmap s) then current_id s
         else hd (Q (of_nat (msb (rq_bitmap s)))))
    \<and> (if \<forall>p. valid_prio p \<longrightarrow> Q p = [] then msb (rq_bitmap s) = 32
       else Q (of_nat (msb (rq_bitmap s))) \<noteq> [] \<and> (\<forall>q. valid_prio q \<and> msb (rq_bitmap s) < unat q \<longrightarrow> Q q = []))"
proof -
  obtain r s' Q' where "scheduler s = Some (r, s')" "r = (if current_id s' = current_id s then None else Some (current_id s))"
    "current_id s' =
        (if \<forall>p. valid_prio p \<longrightarrow> Q p = []
         then (if st s (current_id s) \<in> {TASK_RUNNING, TASK_IDLE} then current_id s else rq_idle s)
         else if st s (current_id s) = TASK_RUNNING \<and> unat (pri s (current_id s)) > msb (rq_bitmap s) then current_id s
         else hd (Q (of_nat (msb (rq_bitmap s)))))"
    using scheduler_mid [OF assms] by (elim exE conjE) (rule that)
  moreover have "if \<forall>p. valid_prio p \<longrightarrow> Q p = [] then msb (rq_bitmap s) = 32
       else Q (of_nat (msb (rq_bitmap s))) \<noteq> [] \<and> (\<forall>q. valid_prio q \<and> msb (rq_bitmap s) < unat q \<longrightarrow> Q q = [])"
  proof (cases "\<forall>p. valid_prio p \<longrightarrow> Q p = []")
    case True
    show ?thesis using msb_highest [OF midE(1) [OF assms(1)]] unfolding if_P [OF True] .
  next
    case False
    show ?thesis using msb_highest [OF midE(1) [OF assms(1)]] unfolding if_not_P [OF False] by blast
  qed
  ultimately show ?thesis by blast
qed

text \<open>The tables at boot, and a state in which task 1 of priority 8 is ready and task 2 blocked.\<close>

definition boot_tasks :: "u32 \<Rightarrow> task" where
  "boot_tasks i = \<lparr>t_id = 0, status = (if i = 0 then TASK_IDLE else TASK_INVALID), last_stack_pointer = 0, stack = 0,
     t_flags = 0, prio = 0, page_map_frame = 0, t_next = None, t_prev = None\<rparr>"

definition boot_sys :: sys where
  "boot_sys = kheap.extend no_heap (sys.fields boot_tasks 0 None 0 0 (\<lambda>_. None) (\<lambda>_. None) (\<lambda>_. 0))"

definition ready_sys :: sys where
  "ready_sys = set_bit_of 8 (set_last 8 (Some 1) (set_first 8 (Some 1)
     (upd_task 2 (\<lambda>x. x\<lparr>status := TASK_BLOCKED, prio := 8\<rparr>) (upd_task 1 (\<lambda>x. x\<lparr>status := TASK_READY, prio := 8\<rparr>) boot_sys))))"

lemma boot_fields [simp]:
  "task_table boot_sys = boot_tasks" "rq_old boot_sys = None" "rq_idle boot_sys = 0" "rq_bitmap boot_sys = 0"
  "rq_first boot_sys = (\<lambda>_. None)" "rq_last boot_sys = (\<lambda>_. None)" "current_id boot_sys = 0"
  by (simp_all add: boot_sys_def kheap.defs sys.defs no_heap_def)

lemma boot_tasks_fields [simp]:
  "nx boot_sys = (\<lambda>_. None)" "pv boot_sys = (\<lambda>_. None)" "pri boot_sys = (\<lambda>_. 0)"
  "st boot_sys = (\<lambda>i. if i = 0 then TASK_IDLE else TASK_INVALID)"
  by (simp_all add: nx_def pv_def st_def pri_def boot_tasks_def fun_eq_iff)

lemma boot_mid: "mid boot_sys (\<lambda>_. [])"
  by (simp add: mid_def sched_ok_def queue_ok_def)

lemma bit_256: "bit (256 :: u32) i \<longleftrightarrow> i = 8"
proof -
  have "(256 :: u32) = 2 ^ 8" by simp
  then show ?thesis by (simp only: bit_one_shift) simp
qed

lemma ready_mid: "mid ready_sys ((\<lambda>_. [])(8 := [1]))"
proof -
  have m: "rq_bitmap ready_sys = 256" by (simp add: ready_sys_def sched_simps)
  have "bit (rq_bitmap ready_sys) i \<longleftrightarrow> (\<exists>p. valid_prio p \<and> unat p = i \<and> ((\<lambda>_. [])(8 := [1 :: u32])) p \<noteq> [])" for i
    unfolding m bit_256 by (auto simp: valid_prio_def)
  then have "sched_ok ready_sys ((\<lambda>_. [])(8 := [1]))"
    unfolding sched_ok_def by (simp add: ready_sys_def queue_ok_def sched_simps boot_tasks_def)
  then show ?thesis by (auto simp: mid_def ready_sys_def sched_simps valid_prio_def boot_tasks_def)
qed

theorem scheduler_invariant_witness:
  "sched_inv (snd (wakeup_task 2 ready_sys))"
  using scheduler_invariant [of ready_sys 2 0] ready_mid
  by (auto simp: sched_inv_def ready_sys_def sched_simps)

theorem scheduler_picks_highest_witness:
  "\<exists>s'. scheduler ready_sys = Some (Some 0, s') \<and> current_id s' = 1"
proof -
  have b: "rq_bitmap ready_sys = 256" "rq_old ready_sys = None" "current_id ready_sys = 0" "st ready_sys 0 = TASK_IDLE"
    by (simp_all add: ready_sys_def sched_simps)
  have m: "msb 256 = 8" by code_simp
  have v: "valid_prio 8" by (simp add: valid_prio_def)
  then have ne: "\<not> (\<forall>p. valid_prio p \<longrightarrow> ((\<lambda>_. [])(8 := [1 :: u32])) p = [])" by auto
  show ?thesis using scheduler_picks_highest [OF ready_mid b(2)] unfolding if_not_P [OF ne] by (auto simp: b m)
qed

lemma find_invalid_status: "find_invalid s is = Some i \<Longrightarrow> status (task_table s i) = TASK_INVALID"
  by (induction "is") (auto split: if_splits)

text \<open>
  When no frame is left for the page directory, \<^verbatim>\<open>create_task\<close> returns \<open>-ENOMEM\<close> but leaves the
  slot of the task table marked ready although it is in no ready queue: the slot is lost.
\<close>

theorem create_task_leaks_slot:
  assumes "mid s Q" and "ep \<noteq> 0" and "valid_prio p" and "find_invalid s [0..<MAX_TASKS] = Some i"
    and "total_available s = 0"
  shows "\<exists>s'. create_task ks ke stacks leave ep arg p s = Some (- ENOMEM, None, s')
    \<and> st s' i = TASK_READY \<and> (\<forall>q. valid_prio q \<longrightarrow> queue_ok s' q (Q q) \<and> i \<notin> set (Q q))"
proof -
  have inv: "st s i = TASK_INVALID"
    using find_invalid_status [OF assms(4)] by (simp add: st_def)
  then have nq: "\<forall>q. valid_prio q \<longrightarrow> i \<notin> set (Q q)" using not_queued [OF midE(1) [OF assms(1)]] by auto
  define s1 where "s1 = upd_task i (\<lambda>x. x\<lparr>t_id := i, status := TASK_READY, last_stack_pointer := 0,
       stack := create_stack stacks i, prio := p\<rparr>) s"
  define s2 where "s2 = (set_head (Task_List i) 0 s1)\<lparr>task_heap := (task_heap (set_head (Task_List i) 0 s1))(i := 0),
       user_usage := (user_usage (set_head (Task_List i) 0 s1))(i := 0)\<rparr>"
  define s3 where "s3 = upd_task i (\<lambda>x. x\<lparr>page_map_frame := 0\<rparr>) s2"
  have av: "total_available s2 = 0" using assms(5) by (simp add: s2_def s1_def upd_task_def set_head_def)
  then have g: "get_pages ke 1 s2 = Some (0, s2)" by (simp add: get_pages_def)
  have c: "\<not> (ep = 0 \<or> p = IDLE_PRIO \<or> p > MAX_PRIO)" using assms(2,3) by (auto simp: valid_prio_def)
  have r: "create_task ks ke stacks leave ep arg p s = Some (- ENOMEM, None, s3)"
    unfolding create_task_def Let_def if_not_P [OF c] assms(4) option.case s1_def [symmetric] s2_def [symmetric] g prod.case
    by (simp add: s3_def)
  have f: "task_table s3 = (task_table s)(i := (task_table s1 i)\<lparr>page_map_frame := 0\<rparr>)" "rq_first s3 = rq_first s" "rq_last s3 = rq_last s"
    by (simp_all add: s3_def s2_def s1_def upd_task_def set_head_def)
  have "queue_ok s3 q (Q q)" if "valid_prio q" for q
    using queue_other [OF sched_queue [OF midE(1) [OF assms(1)] that], of i s3] nq that
    by (simp add: f nx_def st_def pri_def)
  moreover have "st s3 i = TASK_READY" by (simp add: st_def f s1_def upd_task_def)
  ultimately show ?thesis using r nq by blast
qed

theorem create_task_leaks_slot_witness:
  "\<exists>s'. create_task 0 0 0x4000 0 0x100 0 8 (boot_sys\<lparr>total_available := 0\<rparr>) = Some (- ENOMEM, None, s') \<and> st s' 1 = TASK_READY"
proof -
  have "mid (boot_sys\<lparr>total_available := 0\<rparr>) (\<lambda>_. []) = mid boot_sys (\<lambda>_. [])"
    by (rule mid_cong) (simp_all add: nx_def pv_def st_def pri_def fun_eq_iff boot_tasks_def)
  then have m: "mid (boot_sys\<lparr>total_available := 0\<rparr>) (\<lambda>_. [])" using boot_mid by simp
  have i: "find_invalid (boot_sys\<lparr>total_available := 0\<rparr>) [0..<MAX_TASKS] = Some 1"
    by (simp add: upt_rec boot_tasks_def)
  show ?thesis using create_task_leaks_slot [where ks = 0 and ke = 0 and stacks = "0x4000" and leave = 0 and arg = 0 and ep = "0x100" and p = 8, OF m _ _ i] by (auto simp: valid_prio_def)
qed

end
