(* ===== verification/Sync.thy ===== *)
theory Sync
  imports Locks Sched Interfaces
begin

text \<open>
  Semaphores and mailboxes, \<^verbatim>\<open>include/semaphore.h\<close>, \<^verbatim>\<open>include/mailbox.h\<close> and their types. A pointer to
  an object is an option, \<open>None\<close> for null. A call that would spin for ever on a lock is \<open>None\<close>. A
  task that has to wait calls the scheduler; what the other tasks do until it runs again is the
  argument \<open>others\<close> of the waiting operations, and \<open>n\<close> bounds how often the task wakes up in vain.
  The queue of the waiting tasks and the buffer of a mailbox are queues in the sense of \<open>fifo\<close>.
\<close>

section \<open>Semaphores\<close>

record sem =
  s_value :: u32
  s_queue :: "nat \<Rightarrow> u32"
  s_pos :: u32
  s_irq :: irqlock

definition SEM_INIT :: "u32 \<Rightarrow> sem" where
  "SEM_INIT v = \<lparr>s_value = v, s_queue = (\<lambda>_. NO_TASK), s_pos = 0, s_irq = LOCK_IRQ_INIT\<rparr>"

definition sem_init :: "sem option \<Rightarrow> u32 \<Rightarrow> int \<times> sem option" where
  "sem_init s v =
     (case s of None \<Rightarrow> (- EINVAL, None)
      | Some s \<Rightarrow>
          let s = s\<lparr>s_value := v, s_pos := 0\<rparr>;
              s = s\<lparr>s_queue := fold (\<lambda>i q. q(i := NO_TASK)) [0..<MAX_TASKS] (s_queue s)\<rparr>
          in (0, Some (s\<lparr>s_irq := the (snd (lock_irq_init (Some (s_irq s))))\<rparr>)))"

definition sem_destroy :: "sem option \<Rightarrow> int \<times> sem option" where
  "sem_destroy s =
     (case s of None \<Rightarrow> (- EINVAL, None)
      | Some s \<Rightarrow> (0, Some (s\<lparr>s_irq := the (snd (lock_irq_destroy (Some (s_irq s))))\<rparr>)))"

definition sem_trywait :: "sem option \<Rightarrow> bool \<Rightarrow> (int \<times> sem option \<times> bool) option" where
  "sem_trywait s intr =
     (case s of None \<Rightarrow> Some (- EINVAL, None, intr)
      | Some s \<Rightarrow>
          (case lock_irq (s_irq s) intr of
             None \<Rightarrow> None
           | Some (l, intr) \<Rightarrow>
               let s = s\<lparr>s_irq := l\<rparr>;
                   (ret, s) = (if s_value s > 0 then (0, s\<lparr>s_value := s_value s - 1\<rparr>) else (- ECANCELED, s));
                   (l, intr) = unlock_irq (s_irq s) intr
               in Some (ret, Some (s\<lparr>s_irq := l\<rparr>), intr)))"

definition current_tid :: "'a sys_scheme \<Rightarrow> u32" where
  "current_tid t = t_id (task_table t (current_id t))"

text \<open>The task puts itself into the queue of the semaphore.\<close>

definition sem_enqueue :: "u32 \<Rightarrow> sem \<Rightarrow> sem" where
  "sem_enqueue tid s = s\<lparr>s_queue := (s_queue s)(unat (s_pos s) := tid), s_pos := (s_pos s + 1) mod of_nat MAX_TASKS\<rparr>"

text \<open>One round of the loop of \<^verbatim>\<open>sem_wait\<close>; \<open>True\<close>: the semaphore is taken.\<close>

definition sem_wait_round :: "addr \<Rightarrow> sem \<Rightarrow> bool \<Rightarrow> 'a sys_scheme \<Rightarrow> (bool \<times> sem \<times> bool \<times> 'a sys_scheme) option" where
  "sem_wait_round esp s intr t =
     (case lock_irq (s_irq s) intr of
        None \<Rightarrow> None
      | Some (l, intr) \<Rightarrow>
          let s = s\<lparr>s_irq := l\<rparr> in
          if s_value s > 0
          then let s = s\<lparr>s_value := s_value s - 1\<rparr>; (l, intr) = unlock_irq (s_irq s) intr
               in Some (True, s\<lparr>s_irq := l\<rparr>, intr, t)
          else let s = sem_enqueue (current_tid t) s;
                   (_, t) = block_current_task t;
                   (l, intr) = unlock_irq (s_irq s) intr
               in (case reschedule esp t of None \<Rightarrow> None | Some t \<Rightarrow> Some (False, s\<lparr>s_irq := l\<rparr>, intr, t)))"

type_synonym ('c, 'a) world = "'c \<times> bool \<times> 'a sys_scheme"

fun sem_wait :: "('c \<Rightarrow> sem option) \<Rightarrow> (sem \<Rightarrow> 'c \<Rightarrow> 'c) \<Rightarrow> (('c, 'a) world \<Rightarrow> ('c, 'a) world) \<Rightarrow> addr \<Rightarrow> nat
    \<Rightarrow> ('c, 'a) world \<Rightarrow> (int \<times> ('c, 'a) world) option" where
  "sem_wait sem_of set_sem others esp n (c, intr, t) =
     (case sem_of c of None \<Rightarrow> Some (- EINVAL, (c, intr, t))
      | Some s \<Rightarrow>
          (case sem_wait_round esp s intr t of
             None \<Rightarrow> None
           | Some (True, s, intr, t) \<Rightarrow> Some (0, (set_sem s c, intr, t))
           | Some (False, s, intr, t) \<Rightarrow>
               (case n of 0 \<Rightarrow> None
                | Suc n \<Rightarrow> sem_wait sem_of set_sem others esp n (others (set_sem s c, intr, t)))))"

text \<open>The search of \<^verbatim>\<open>sem_post\<close> for the task that has waited longest, and its removal.\<close>

fun find_waiter :: "nat \<Rightarrow> (nat \<Rightarrow> u32) \<Rightarrow> u32 \<Rightarrow> u32 option" where
  "find_waiter 0 q i = None"
| "find_waiter (Suc k) q i = (if q (unat i) < of_nat MAX_TASKS then Some i else find_waiter k q ((i + 1) mod of_nat MAX_TASKS))"

definition sem_dequeue :: "sem \<Rightarrow> (u32 \<times> sem) option" where
  "sem_dequeue s =
     (case find_waiter MAX_TASKS (s_queue s) (s_pos s) of
        None \<Rightarrow> None
      | Some i \<Rightarrow> Some (s_queue s (unat i), s\<lparr>s_queue := (s_queue s)(unat i := NO_TASK)\<rparr>))"

definition sem_post :: "sem option \<Rightarrow> bool \<Rightarrow> 'a sys_scheme \<Rightarrow> (int \<times> sem option \<times> bool \<times> 'a sys_scheme) option" where
  "sem_post s intr t =
     (case s of None \<Rightarrow> Some (- EINVAL, None, intr, t)
      | Some s \<Rightarrow>
          (case lock_irq (s_irq s) intr of
             None \<Rightarrow> None
           | Some (l, intr) \<Rightarrow>
               let s = s\<lparr>s_irq := l\<rparr> in
               if s_value s > 0
               then let s = s\<lparr>s_value := s_value s + 1\<rparr>; (l, intr) = unlock_irq (s_irq s) intr
                    in Some (0, Some (s\<lparr>s_irq := l\<rparr>), intr, t)
               else let s = s\<lparr>s_value := s_value s + 1\<rparr>;
                        (s, t) = (case sem_dequeue s of None \<Rightarrow> (s, t)
                                  | Some (tid, s) \<Rightarrow> (s, snd (wakeup_task tid t)));
                        (l, intr) = unlock_irq (s_irq s) intr
                    in Some (0, Some (s\<lparr>s_irq := l\<rparr>), intr, t)))"

section \<open>Mailboxes\<close>

record 'm mailbox =
  buffer :: "nat \<Rightarrow> 'm"
  wpos :: u32
  rpos :: u32
  mails :: sem
  boxes :: sem
  rlock :: slock
  wlock :: slock

text \<open>\<open>zero\<close> is the mail whose bytes are all 0.\<close>

definition mailbox_init :: "'m \<Rightarrow> 'm mailbox option \<Rightarrow> int \<times> 'm mailbox option" where
  "mailbox_init zero m =
     (case m of None \<Rightarrow> (- EINVAL, None)
      | Some m \<Rightarrow>
          let m = m\<lparr>buffer := fold (\<lambda>i b. b(i := zero)) [0..<MAILBOX_SIZE] (buffer m)\<rparr>;
              m = m\<lparr>rpos := 0, wpos := 0\<rparr>;
              m = m\<lparr>mails := the (snd (sem_init (Some (mails m)) 0))\<rparr>;
              m = m\<lparr>boxes := the (snd (sem_init (Some (boxes m)) (of_nat MAILBOX_SIZE)))\<rparr>;
              m = m\<lparr>rlock := the (snd (lock_init (Some (rlock m))))\<rparr>;
              m = m\<lparr>wlock := the (snd (lock_init (Some (wlock m))))\<rparr>
          in (0, Some m))"

definition mailbox_destroy :: "'m mailbox option \<Rightarrow> int \<times> 'm mailbox option" where
  "mailbox_destroy m =
     (case m of None \<Rightarrow> (- EINVAL, None)
      | Some m \<Rightarrow>
          let m = m\<lparr>mails := the (snd (sem_destroy (Some (mails m))))\<rparr>;
              m = m\<lparr>boxes := the (snd (sem_destroy (Some (boxes m))))\<rparr>;
              m = m\<lparr>rlock := the (snd (lock_destroy (Some (rlock m))))\<rparr>;
              m = m\<lparr>wlock := the (snd (lock_destroy (Some (wlock m))))\<rparr>
          in (0, Some m))"

text \<open>What follows the wait in \<^verbatim>\<open>post\<close> and \<^verbatim>\<open>trypost\<close>, and in \<^verbatim>\<open>fetch\<close> and \<^verbatim>\<open>tryfetch\<close>.\<close>

definition put_mail :: "'m \<Rightarrow> 'm mailbox \<Rightarrow> bool \<Rightarrow> 'a sys_scheme \<Rightarrow> ('m mailbox \<times> bool \<times> 'a sys_scheme) option" where
  "put_mail mail m intr t =
     (case s_lock (current_tid t) (Some (wlock m)) of
        None \<Rightarrow> None
      | Some (_, l) \<Rightarrow>
          let m = m\<lparr>wlock := the l\<rparr>;
              m = m\<lparr>buffer := (buffer m)(unat (wpos m) := mail), wpos := (wpos m + 1) mod of_nat MAILBOX_SIZE\<rparr>;
              m = m\<lparr>wlock := the (snd (s_unlock (Some (wlock m))))\<rparr>
          in (case sem_post (Some (mails m)) intr t of
                None \<Rightarrow> None
              | Some (_, s, intr, t) \<Rightarrow> Some (m\<lparr>mails := the s\<rparr>, intr, t)))"

definition take_mail :: "'m mailbox \<Rightarrow> bool \<Rightarrow> 'a sys_scheme \<Rightarrow> ('m \<times> 'm mailbox \<times> bool \<times> 'a sys_scheme) option" where
  "take_mail m intr t =
     (case s_lock (current_tid t) (Some (rlock m)) of
        None \<Rightarrow> None
      | Some (_, l) \<Rightarrow>
          let m = m\<lparr>rlock := the l\<rparr>;
              mail = buffer m (unat (rpos m));
              m = m\<lparr>rpos := (rpos m + 1) mod of_nat MAILBOX_SIZE\<rparr>;
              m = m\<lparr>rlock := the (snd (s_unlock (Some (rlock m))))\<rparr>
          in (case sem_post (Some (boxes m)) intr t of
                None \<Rightarrow> None
              | Some (_, s, intr, t) \<Rightarrow> Some (mail, m\<lparr>boxes := the s\<rparr>, intr, t)))"

definition mailbox_post :: "(('m mailbox option, 'a) world \<Rightarrow> ('m mailbox option, 'a) world) \<Rightarrow> addr \<Rightarrow> nat \<Rightarrow> 'm
    \<Rightarrow> ('m mailbox option, 'a) world \<Rightarrow> (int \<times> ('m mailbox option, 'a) world) option" where
  "mailbox_post others esp n mail w =
     (case fst w of None \<Rightarrow> Some (- EINVAL, w)
      | Some _ \<Rightarrow>
          (case sem_wait (map_option boxes) (\<lambda>s. map_option (\<lambda>m. m\<lparr>boxes := s\<rparr>)) others esp n w of
             Some (_, (Some m, intr, t)) \<Rightarrow>
               map_option (\<lambda>(m, intr, t). (0, (Some m, intr, t))) (put_mail mail m intr t)
           | _ \<Rightarrow> None))"

definition mailbox_trypost :: "'m \<Rightarrow> ('m mailbox option, 'a) world \<Rightarrow> (int \<times> ('m mailbox option, 'a) world) option" where
  "mailbox_trypost mail w =
     (case w of (None, intr, t) \<Rightarrow> Some (- EINVAL, w)
      | (Some m, intr, t) \<Rightarrow>
          (case sem_trywait (Some (boxes m)) intr of
             None \<Rightarrow> None
           | Some (ret, s, intr) \<Rightarrow>
               let m = m\<lparr>boxes := the s\<rparr> in
               if ret \<noteq> 0 then Some (- EBUSY, (Some m, intr, t))
               else map_option (\<lambda>(m, intr, t). (0, (Some m, intr, t))) (put_mail mail m intr t)))"

text \<open>\<open>out\<close>: the pointer for the mail is not null.\<close>

definition mailbox_fetch :: "(('m mailbox option, 'a) world \<Rightarrow> ('m mailbox option, 'a) world) \<Rightarrow> addr \<Rightarrow> nat \<Rightarrow> bool
    \<Rightarrow> ('m mailbox option, 'a) world \<Rightarrow> (int \<times> 'm option \<times> ('m mailbox option, 'a) world) option" where
  "mailbox_fetch others esp n out w =
     (if fst w = None \<or> \<not> out then Some (- EINVAL, None, w)
      else case sem_wait (map_option mails) (\<lambda>s. map_option (\<lambda>m. m\<lparr>mails := s\<rparr>)) others esp n w of
        None \<Rightarrow> None
      | Some (err, w) \<Rightarrow>
          if err \<noteq> 0 then Some (err, None, w)
          else (case w of (None, _, _) \<Rightarrow> None
                | (Some m, intr, t) \<Rightarrow>
                    map_option (\<lambda>(x, m, intr, t). (0, Some x, (Some m, intr, t))) (take_mail m intr t)))"

definition mailbox_tryfetch :: "bool \<Rightarrow> ('m mailbox option, 'a) world \<Rightarrow> (int \<times> 'm option \<times> ('m mailbox option, 'a) world) option" where
  "mailbox_tryfetch out w =
     (case w of (None, intr, t) \<Rightarrow> Some (- EINVAL, None, w)
      | (Some m, intr, t) \<Rightarrow>
          if \<not> out then Some (- EINVAL, None, w)
          else (case sem_trywait (Some (mails m)) intr of
             None \<Rightarrow> None
           | Some (ret, s, intr) \<Rightarrow>
               let m = m\<lparr>mails := the s\<rparr> in
               if ret \<noteq> 0 then Some (- EINVAL, None, (Some m, intr, t))
               else map_option (\<lambda>(x, m, intr, t). (0, Some x, (Some m, intr, t))) (take_mail m intr t)))"


section \<open>The queue of the waiting tasks\<close>

definition irq_free :: "irqlock \<Rightarrow> bool" where
  "irq_free l \<longleftrightarrow> icounter l = 0 \<and> idequeue l = iqueue l + 1"

definition irq_used :: "irqlock \<Rightarrow> irqlock" where
  "irq_used l = l\<lparr>iqueue := iqueue l + 1, idequeue := idequeue l + 1, icounter := 0, iflags := 0\<rparr>"

definition irq_taken :: "bool \<Rightarrow> irqlock \<Rightarrow> irqlock" where
  "irq_taken intr l = l\<lparr>iqueue := iqueue l + 1, iflags := if intr then 1 else 0, icounter := 1\<rparr>"

lemma lock_irq_free: "irq_free l \<Longrightarrow> lock_irq l intr = Some (irq_taken intr l, False)"
  by (simp add: irq_free_def lock_irq_def irq_nested_disable_def atomic_defs irq_taken_def add.commute)

lemma unlock_irq_taken: "irq_free l \<Longrightarrow> unlock_irq (irq_taken intr l) False = (irq_used l, intr)"
  by (simp add: irq_free_def unlock_irq_def irq_nested_enable_def atomic_defs irq_taken_def irq_used_def)

lemma irq_used_free [simp]: "irq_free l \<Longrightarrow> irq_free (irq_used l)"
  by (simp add: irq_free_def irq_used_def)

text \<open>
  \<open>waiters s xs\<close>: the ring of the semaphore holds the tasks \<open>xs\<close>, the one that waits longest first;
  the ring is read from \<open>s_pos\<close>, the next place to be filled.
\<close>

definition waiters :: "sem \<Rightarrow> u32 list \<Rightarrow> bool" where
  "waiters s xs \<longleftrightarrow> unat (s_pos s) < 16 \<and> length xs \<le> 16 \<and> (\<forall>x\<in>set xs. x < 16)
     \<and> (\<forall>d<16. s_queue s ((unat (s_pos s) + d) mod 16)
                = (if d < 16 - length xs then NO_TASK else xs ! (d - (16 - length xs))))"

lemma ring_next: "unat i < 16 \<Longrightarrow> unat ((i + 1) mod 16 :: u32) = Suc (unat i) mod 16"
proof -
  assume "unat i < 16"
  then have "unat (i + 1) = Suc (unat i)" by (simp add: unat_word_ariths)
  then show ?thesis by (simp add: unat_mod_distrib)
qed

lemma ring_shift: "(Suc p mod 16 + d) mod 16 = (p + Suc d) mod (16 :: nat)"
  by (simp add: mod_simps)

lemma find_waiter_None:
  "(\<forall>d<k. \<not> q ((unat i + d) mod 16) < 16) \<Longrightarrow> unat i < 16 \<Longrightarrow> find_waiter k q i = None"
proof (induction k arbitrary: i)
  case (Suc k)
  have "\<not> q (unat i) < 16" using Suc.prems(1) [rule_format, of 0] Suc.prems(2) by simp
  moreover have "find_waiter k q ((i + 1) mod 16) = None"
    using Suc.prems by (intro Suc.IH) (auto simp: ring_next ring_shift)
  ultimately show ?case by simp
qed simp

lemma find_waiter_Some:
  "\<lbrakk>\<forall>d<n. \<not> q ((unat i + d) mod 16) < 16; n < k; q ((unat i + n) mod 16) < 16; unat i < 16\<rbrakk>
   \<Longrightarrow> \<exists>j. find_waiter k q i = Some j \<and> unat j = (unat i + n) mod 16"
proof (induction n arbitrary: i k)
  case 0
  then show ?case by (cases k) auto
next
  case (Suc n)
  obtain k' where k: "k = Suc k'" using Suc.prems(2) by (cases k) auto
  have "\<not> q (unat i) < 16" using Suc.prems(1) [rule_format, of 0] Suc.prems(4) by simp
  moreover have "\<exists>j. find_waiter k' q ((i + 1) mod 16) = Some j \<and> unat j = (unat ((i + 1) mod 16) + n) mod 16"
    using Suc.prems k by (intro Suc.IH) (auto simp: ring_next ring_shift)
  ultimately show ?case using k Suc.prems(4) by (simp add: ring_next ring_shift)
qed

lemma ring_same: "p < 16 \<Longrightarrow> d < 16 \<Longrightarrow> (p + d) mod 16 = p \<longleftrightarrow> d = (0 :: nat)"
proof -
  assume "p < 16" "d < 16"
  then show ?thesis by (cases "p + d < 16") (auto simp: mod_if)
qed

lemma ring_inj: "p < 16 \<Longrightarrow> d < 16 \<Longrightarrow> e < 16 \<Longrightarrow> (p + d) mod 16 = (p + e) mod 16 \<longleftrightarrow> d = (e :: nat)"
proof -
  assume "p < 16" "d < 16" "e < 16"
  then show ?thesis by (cases "p + d < 16"; cases "p + e < 16") (auto simp: mod_if)
qed

lemma waiters_enqueue:
  assumes "waiters s xs" and "x < 16" and "length xs < 16"
  shows "waiters (sem_enqueue x s) (xs @ [x])"
proof -
  have p: "unat (s_pos s) < 16" using assms(1) by (simp add: waiters_def)
  have "(if (unat (s_pos s) + Suc d) mod 16 = unat (s_pos s) then x else s_queue s ((unat (s_pos s) + Suc d) mod 16))
      = (if d < 16 - length (xs @ [x]) then NO_TASK else (xs @ [x]) ! (d - (16 - length (xs @ [x]))))" if d: "d < 16" for d
  proof (cases "d = 15")
    case True
    then have "(unat (s_pos s) + Suc d) mod 16 = unat (s_pos s)" using p by simp
    moreover have "d - (16 - length (xs @ [x])) = length xs" using True assms(3) by simp
    moreover have "\<not> d < 16 - length (xs @ [x])" using True by simp
    ultimately show ?thesis by simp
  next
    case False
    then have e: "Suc d < 16" using d by simp
    then have "(unat (s_pos s) + Suc d) mod 16 \<noteq> unat (s_pos s)" using ring_same [OF p e] by simp
    moreover have "s_queue s ((unat (s_pos s) + Suc d) mod 16)
        = (if Suc d < 16 - length xs then NO_TASK else xs ! (Suc d - (16 - length xs)))"
      using assms(1) e unfolding waiters_def by blast
    moreover have "d - (16 - length (xs @ [x])) = Suc d - (16 - length xs)" "Suc d < 16 - length xs \<longleftrightarrow> d < 16 - length (xs @ [x])"
      using assms(3) by auto
    moreover have "Suc d - (16 - length xs) < length xs" if "\<not> Suc d < 16 - length xs" using e that assms(3) by simp
    ultimately show ?thesis by (simp add: nth_append)
  qed
  then have "\<forall>d<16. s_queue (sem_enqueue x s) ((unat (s_pos (sem_enqueue x s)) + d) mod 16)
      = (if d < 16 - length (xs @ [x]) then NO_TASK else (xs @ [x]) ! (d - (16 - length (xs @ [x]))))"
    using p by (simp only: sem_enqueue_def) (simp add: ring_next ring_shift del: add_Suc_right)
  moreover have "unat (s_pos (sem_enqueue x s)) < 16" using p by (simp add: sem_enqueue_def ring_next)
  ultimately show ?thesis using assms unfolding waiters_def by simp
qed

lemma waiters_dequeue_None: "waiters s [] \<Longrightarrow> sem_dequeue s = None"
  using find_waiter_None [of 16 "s_queue s" "s_pos s"] by (simp add: sem_dequeue_def waiters_def)

lemma waiters_dequeue:
  assumes "waiters s (x # xs)"
  shows "\<exists>s'. sem_dequeue s = Some (x, s') \<and> waiters s' xs \<and> s_value s' = s_value s \<and> s_irq s' = s_irq s"
proof -
  define n where "n = 15 - length xs"
  have p: "unat (s_pos s) < 16" and l: "length xs < 16" and n: "n < 16" "16 - length (x # xs) = n"
    using assms by (auto simp: waiters_def n_def)
  have q: "s_queue s ((unat (s_pos s) + d) mod 16) = (if d < n then 16 else (x # xs) ! (d - n))" if "d < 16" for d
    using assms that n(2) by (simp add: waiters_def del: list.size)
  have x: "x < 16" using assms by (simp add: waiters_def)
  have "\<forall>d<n. \<not> s_queue s ((unat (s_pos s) + d) mod 16) < 16" using q n by simp
  moreover have "s_queue s ((unat (s_pos s) + n) mod 16) = x" using q [OF n(1)] by simp
  ultimately obtain j where j: "find_waiter 16 (s_queue s) (s_pos s) = Some j" "unat j = (unat (s_pos s) + n) mod 16"
    "s_queue s (unat j) = x"
    using find_waiter_Some [of n "s_queue s" "s_pos s" 16] n p x by auto
  have "((s_queue s)(unat j := 16)) ((unat (s_pos s) + d) mod 16)
      = (if d < 16 - length xs then 16 else xs ! (d - (16 - length xs)))" if d: "d < 16" for d
  proof -
    have "(unat (s_pos s) + d) mod 16 = unat j \<longleftrightarrow> d = n" using ring_inj [OF p d n(1)] j(2) by simp
    moreover have "16 - length xs = Suc n" using l by (simp add: n_def)
    ultimately show ?thesis using q [OF d] by (auto simp: nth_Cons' not_less_eq)
  qed
  then show ?thesis using j assms l by (auto simp: sem_dequeue_def waiters_def)
qed

interpretation wait_queue: fifo sem_enqueue sem_dequeue waiters "\<lambda>x xs. x < 16 \<and> length xs < 16"
proof
  show "waiters s xs \<Longrightarrow> x < 16 \<and> length xs < 16 \<Longrightarrow> waiters (sem_enqueue x s) (xs @ [x])" for s xs x
    using waiters_enqueue by blast
  show "waiters s [] \<Longrightarrow> sem_dequeue s = None" for s by (rule waiters_dequeue_None)
  show "waiters s (x # xs) \<Longrightarrow> \<exists>s'. sem_dequeue s = Some (x, s') \<and> waiters s' xs" for s x xs
    using waiters_dequeue by blast
qed

text \<open>The operations on a semaphore whose lock is free.\<close>

lemma waiters_fields [simp]: "waiters (s\<lparr>s_irq := l\<rparr>) xs = waiters s xs" "waiters (s\<lparr>s_value := v\<rparr>) xs = waiters s xs"
  by (simp_all add: waiters_def)

lemma sem_dequeue_fields:
  "sem_dequeue (s\<lparr>s_irq := l, s_value := v\<rparr>)
     = map_option (\<lambda>(x, s). (x, s\<lparr>s_irq := l, s_value := v\<rparr>)) (sem_dequeue s)"
  by (simp add: sem_dequeue_def split: option.splits)

lemma sem_trywait_free:
  assumes "irq_free (s_irq s)"
  shows "sem_trywait (Some s) intr = Some (if s_value s > 0
    then (0, Some (s\<lparr>s_value := s_value s - 1, s_irq := irq_used (s_irq s)\<rparr>), intr)
    else (- ECANCELED, Some (s\<lparr>s_irq := irq_used (s_irq s)\<rparr>), intr))"
  using assms by (simp add: sem_trywait_def lock_irq_free unlock_irq_taken)

lemma sem_post_free:
  assumes "irq_free (s_irq s)" and "waiters s xs"
  shows "\<exists>s' t'. sem_post (Some s) intr t = Some (0, Some s', intr, t') \<and> s_value s' = s_value s + 1
    \<and> irq_free (s_irq s')
    \<and> (if s_value s = 0 \<and> xs \<noteq> [] then t' = snd (wakeup_task (hd xs) t) \<and> waiters s' (tl xs)
       else t' = t \<and> waiters s' xs)"
proof (cases "s_value s = 0")
  case False
  then have "s_value s > 0" by (simp add: word_gt_0)
  then show ?thesis using assms False by (simp add: sem_post_def lock_irq_free unlock_irq_taken)
next
  case True
  show ?thesis
  proof (cases xs)
    case Nil
    then have "sem_dequeue (s\<lparr>s_irq := irq_taken intr (s_irq s), s_value := 1\<rparr>) = None"
      using assms(2) waiters_dequeue_None by simp
    then show ?thesis using assms True Nil by (simp add: sem_post_def lock_irq_free unlock_irq_taken)
  next
    case (Cons x ys)
    then obtain s1 where "sem_dequeue (s\<lparr>s_irq := irq_taken intr (s_irq s), s_value := 1\<rparr>) = Some (x, s1)" "waiters s1 ys"
      "s_value s1 = 1" "s_irq s1 = irq_taken intr (s_irq s)"
      using waiters_dequeue [of "s\<lparr>s_irq := irq_taken intr (s_irq s), s_value := 1\<rparr>" x ys] assms(2) by auto
    then show ?thesis using assms True Cons by (simp add: sem_post_def lock_irq_free unlock_irq_taken)
  qed
qed

section \<open>Waking and losing a task\<close>

lemma wake_append_status: "st (wake_append p x t) = st t"
  by (auto simp: wake_append_def sched_simps Let_def fun_eq_iff split: option.splits)

lemma wakeup_status:
  "st (snd (wakeup_task x t)) = (if st t x = TASK_BLOCKED then (st t)(x := TASK_READY) else st t)"
  by (simp add: wakeup_task_def Let_def wake_append_status sched_simps)

text \<open>
  C35: A post to a semaphore without units wakes exactly the task that has waited longest: it becomes
  ready, every other task keeps its status, and the remaining tasks wait in the same order.
\<close>

theorem sem_post_wakes_oldest:
  assumes "irq_free (s_irq s)" and "waiters s (x # xs)" and "s_value s = 0" and "st t x = TASK_BLOCKED"
  shows "\<exists>s' t'. sem_post (Some s) intr t = Some (0, Some s', intr, t') \<and> s_value s' = 1 \<and> waiters s' xs
    \<and> st t' = (st t)(x := TASK_READY)"
  using sem_post_free [OF assms(1,2), of intr t] assms(3,4) by (auto simp: wakeup_status)

text \<open>\<open>n\<close> posts in a row.\<close>

fun sem_posts :: "nat \<Rightarrow> sem option \<Rightarrow> bool \<Rightarrow> 'a sys_scheme \<Rightarrow> (sem option \<times> bool \<times> 'a sys_scheme) option" where
  "sem_posts 0 s intr t = Some (s, intr, t)"
| "sem_posts (Suc n) s intr t =
     (case sem_posts n s intr t of None \<Rightarrow> None
      | Some (s, intr, t) \<Rightarrow>
          (case sem_post s intr t of None \<Rightarrow> None | Some (_, s, intr, t) \<Rightarrow> Some (s, intr, t)))"

lemma sem_posts_wake_one:
  assumes "irq_free (s_irq s)" and "waiters s (x # xs)" and "s_value s = 0"
  shows "Suc n < 2 ^ 32 \<Longrightarrow> \<exists>s'. sem_posts (Suc n) (Some s) intr t = Some (Some s', intr, snd (wakeup_task x t))
    \<and> s_value s' = of_nat (Suc n) \<and> waiters s' xs \<and> irq_free (s_irq s')"
proof (induction n)
  case 0
  then show ?case using sem_post_free [OF assms(1,2), of intr t] assms(3) by auto
next
  case (Suc n)
  then obtain s' where s': "sem_posts (Suc n) (Some s) intr t = Some (Some s', intr, snd (wakeup_task x t))"
    "s_value s' = of_nat (Suc n)" "waiters s' xs" "irq_free (s_irq s')" by auto
  have "unat (of_nat (Suc n) :: u32) = Suc n" using Suc.prems by (intro unat_of_nat_32) simp
  then have "s_value s' \<noteq> 0" using s'(2) by (metis nat.distinct(1) unat_0)
  then show ?case using sem_post_free [OF s'(4,3), of intr "snd (wakeup_task x t)"] s'(2)
    by (subst sem_posts.simps(2)) (auto simp: s'(1) add.commute simp del: sem_posts.simps)
qed

text \<open>
  Posts that come before the woken task has run are lost on the other waiting tasks: while two
  tasks wait, any number of posts wakes only the first one, and the second stays blocked although the
  semaphore has a unit for it.
\<close>

theorem sem_post_lost_wakeup:
  assumes "irq_free (s_irq s)" and "waiters s (x # y # xs)" and "s_value s = 0"
    and "st t x = TASK_BLOCKED" "st t y = TASK_BLOCKED" "x \<noteq> y" and "0 < n" "n < 2 ^ 32"
  shows "\<exists>s' t'. sem_posts n (Some s) intr t = Some (Some s', intr, t') \<and> s_value s' = of_nat n
    \<and> waiters s' (y # xs) \<and> st t' x = TASK_READY \<and> st t' y = TASK_BLOCKED"
proof -
  obtain m where "n = Suc m" using assms(7) by (cases n) auto
  then show ?thesis using sem_posts_wake_one [OF assms(1-3), of m intr t] assms by (auto simp: wakeup_status)
qed

text \<open>A semaphore at which tasks 1 and 2 wait, one after the other.\<close>

definition busy_sem :: sem where
  "busy_sem = sem_enqueue 2 (sem_enqueue 1 (SEM_INIT 0))"

definition busy_sys :: sys where
  "busy_sys = upd_task 1 (\<lambda>x. x\<lparr>status := TASK_BLOCKED, prio := 8\<rparr>) (upd_task 2 (\<lambda>x. x\<lparr>status := TASK_BLOCKED, prio := 8\<rparr>) boot_sys)"

lemma SEM_INIT_waiters: "waiters (SEM_INIT v) []"
  by (simp add: SEM_INIT_def waiters_def)

lemma busy_waiters: "waiters busy_sem [1, 2]"
  using wait_queue.enq_all [of "SEM_INIT 0" "[]" "[1, 2]"] SEM_INIT_waiters by (simp add: busy_sem_def)

lemma busy_fields: "irq_free (s_irq busy_sem)" "s_value busy_sem = 0" "st busy_sys 1 = TASK_BLOCKED" "st busy_sys 2 = TASK_BLOCKED"
  by (simp_all add: busy_sem_def sem_enqueue_def SEM_INIT_def LOCK_IRQ_INIT_def irq_free_def busy_sys_def sched_simps)

theorem sem_post_wakes_oldest_witness:
  "\<exists>s' t'. sem_post (Some busy_sem) True busy_sys = Some (0, Some s', True, t') \<and> s_value s' = 1 \<and> waiters s' [2]
    \<and> st t' = (st busy_sys)(1 := TASK_READY)"
  using sem_post_wakes_oldest [OF busy_fields(1) busy_waiters busy_fields(2,3)] .

theorem sem_post_lost_wakeup_witness:
  "\<exists>s' t'. sem_posts 5 (Some busy_sem) True busy_sys = Some (Some s', True, t') \<and> s_value s' = 5
    \<and> waiters s' [2] \<and> st t' 1 = TASK_READY \<and> st t' 2 = TASK_BLOCKED"
  using sem_post_lost_wakeup [OF busy_fields(1) busy_waiters busy_fields(2-4), of 5 True] by simp

section \<open>A mailbox is a queue\<close>

definition mail_ring :: "'m mailbox \<Rightarrow> 'm list \<Rightarrow> bool" where
  "mail_ring m xs \<longleftrightarrow> unat (rpos m) < 32 \<and> length xs \<le> 32 \<and> unat (wpos m) = (unat (rpos m) + length xs) mod 32
     \<and> (\<forall>j<length xs. buffer m ((unat (rpos m) + j) mod 32) = xs ! j)"

lemma mail_next: "unat i < 32 \<Longrightarrow> unat ((i + 1) mod 32 :: u32) = Suc (unat i) mod 32"
proof -
  assume "unat i < 32"
  then have "unat (i + 1) = Suc (unat i)" by (simp add: unat_word_ariths)
  then show ?thesis by (simp add: unat_mod_distrib)
qed

lemma mail_ring_put:
  assumes "mail_ring m xs" and "length xs < 32"
  shows "mail_ring (m\<lparr>buffer := (buffer m)(unat (wpos m) := x), wpos := (wpos m + 1) mod 32\<rparr>) (xs @ [x])"
proof -
  have w: "unat (wpos m) < 32" "unat (wpos m) = (unat (rpos m) + length xs) mod 32" and r: "unat (rpos m) < 32"
    using assms(1) by (simp_all add: mail_ring_def)
  have "(unat (rpos m) + j) mod 32 \<noteq> unat (wpos m)" if "j < length xs" for j
    using that r assms(2) w(2) by (cases "unat (rpos m) + length xs < 32"; cases "unat (rpos m) + j < 32") (auto simp: mod_if)
  moreover have "unat ((wpos m + 1) mod 32) = (unat (rpos m) + Suc (length xs)) mod 32"
    using mail_next [OF w(1)] w(2) by (simp add: mod_simps)
  ultimately show ?thesis using assms w(2) by (auto simp: mail_ring_def nth_append less_Suc_eq)
qed

lemma mail_ring_take:
  assumes "mail_ring m (x # xs)"
  shows "buffer m (unat (rpos m)) = x" and "mail_ring (m\<lparr>rpos := (rpos m + 1) mod 32\<rparr>) xs"
proof -
  have r: "unat (rpos m) < 32" using assms by (simp add: mail_ring_def)
  show "buffer m (unat (rpos m)) = x" using assms r by (auto simp: mail_ring_def)
  have "buffer m ((unat (rpos m) + Suc j) mod 32) = xs ! j" if "j < length xs" for j
    using assms that unfolding mail_ring_def by (auto dest: spec [of _ "Suc j"])
  then show "mail_ring (m\<lparr>rpos := (rpos m + 1) mod 32\<rparr>) xs"
    using assms mail_next [OF r] by (simp add: mail_ring_def mod_simps)
qed

lemma mail_ring_fields [simp]:
  "mail_ring (m\<lparr>mails := s\<rparr>) xs = mail_ring m xs" "mail_ring (m\<lparr>boxes := s\<rparr>) xs = mail_ring m xs"
  "mail_ring (m\<lparr>rlock := l\<rparr>) xs = mail_ring m xs" "mail_ring (m\<lparr>wlock := l\<rparr>) xs = mail_ring m xs"
  by (simp_all add: mail_ring_def)

lemma wakeup_current_tid: "current_tid (snd (wakeup_task x t)) = current_tid t"
  by (auto simp: current_tid_def wakeup_task_def wake_append_def Let_def upd_task_def set_first_def set_last_def set_bit_of_def
      split: option.splits)

text \<open>\<open>sem_holds s n\<close>: the semaphore has \<open>n\<close> units, its lock is free and its ring of tasks is in order.\<close>

definition sem_holds :: "sem \<Rightarrow> nat \<Rightarrow> bool" where
  "sem_holds s n \<longleftrightarrow> s_value s = of_nat n \<and> irq_free (s_irq s) \<and> (\<exists>ws. waiters s ws)"

lemma sem_holds_trywait:
  assumes "sem_holds s n" and "n \<le> 32"
  shows "\<exists>s'. sem_trywait (Some s) intr = Some (if n = 0 then - ECANCELED else 0, Some s', intr) \<and> sem_holds s' (n - 1)"
proof -
  have "s_value s > 0 \<longleftrightarrow> n \<noteq> 0" using assms by (auto simp: sem_holds_def word_less_nat_alt unat_of_nat_32)
  then show ?thesis using assms sem_trywait_free [of s intr] by (cases n) (auto simp: sem_holds_def)
qed

lemma sem_holds_post:
  assumes "sem_holds s n"
  shows "\<exists>s' t'. sem_post (Some s) intr t = Some (0, Some s', intr, t') \<and> sem_holds s' (Suc n)
    \<and> current_tid t' = current_tid t"
proof -
  obtain ws where "waiters s ws" "irq_free (s_irq s)" using assms by (auto simp: sem_holds_def)
  from sem_post_free [OF this(2,1), of intr t] show ?thesis using assms
    by (auto simp: sem_holds_def add.commute wakeup_current_tid split: if_splits)
qed

definition mailbox_holds :: "('m mailbox option, 'a) world \<Rightarrow> 'm list \<Rightarrow> bool" where
  "mailbox_holds w xs \<longleftrightarrow> (\<exists>m intr t. w = (Some m, intr, t) \<and> mail_ring m xs
     \<and> sem_holds (mails m) (length xs) \<and> sem_holds (boxes m) (32 - length xs)
     \<and> slock_free (rlock m) \<and> slock_free (wlock m) \<and> current_tid t < 16)"

lemma put_mail_holds:
  assumes "mail_ring m xs" "length xs < 32" "sem_holds (mails m) (length xs)" "sem_holds (boxes m) (31 - length xs)"
    "slock_free (rlock m)" "slock_free (wlock m)" "current_tid t < 16"
  shows "\<exists>m' intr' t'. put_mail x m intr t = Some (m', intr', t') \<and> mailbox_holds (Some m', intr', t') (xs @ [x])"
proof -
  obtain l where l: "s_lock (current_tid t) (Some (wlock m)) = Some (0, Some l)"
    "slock_free (the (snd (s_unlock (Some l))))" using s_lock_free [OF assms(6,7)] by blast
  obtain s' t' where p: "sem_post (Some (mails m)) intr t = Some (0, Some s', intr, t')"
    "sem_holds s' (Suc (length xs))" "current_tid t' = current_tid t" using sem_holds_post [OF assms(3)] by blast
  show ?thesis using l p assms mail_ring_put [OF assms(1,2), of x]
    by (simp add: put_mail_def mailbox_holds_def Let_def)
qed

lemma take_mail_holds:
  assumes "mail_ring m (x # xs)" "sem_holds (mails m) (length xs)" "sem_holds (boxes m) (31 - length xs)"
    "slock_free (rlock m)" "slock_free (wlock m)" "current_tid t < 16"
  shows "\<exists>m' intr' t'. take_mail m intr t = Some (x, m', intr', t') \<and> mailbox_holds (Some m', intr', t') xs"
proof -
  obtain l where l: "s_lock (current_tid t) (Some (rlock m)) = Some (0, Some l)"
    "slock_free (the (snd (s_unlock (Some l))))" using s_lock_free [OF assms(4,6)] by blast
  obtain s' t' where p: "sem_post (Some (boxes m)) intr t = Some (0, Some s', intr, t')"
    "sem_holds s' (Suc (31 - length xs))" "current_tid t' = current_tid t" using sem_holds_post [OF assms(3)] by blast
  have "Suc (31 - length xs) = 32 - length xs" using assms(1) unfolding mail_ring_def by (simp only: list.size) arith
  then show ?thesis using l p assms mail_ring_take [OF assms(1)]
    by (simp add: take_mail_def mailbox_holds_def Let_def)
qed

lemma trypost_room:
  assumes "mailbox_holds w xs" and "length xs < 32"
  shows "\<exists>w'. mailbox_trypost x w = Some (0, w') \<and> mailbox_holds w' (xs @ [x])"
proof -
  obtain m intr t where w: "w = (Some m, intr, t)" "mail_ring m xs" "sem_holds (mails m) (length xs)"
    "sem_holds (boxes m) (32 - length xs)" "slock_free (rlock m)" "slock_free (wlock m)" "current_tid t < 16"
    using assms(1) unfolding mailbox_holds_def by blast
  obtain s' where s': "sem_trywait (Some (boxes m)) intr = Some (0, Some s', intr)" "sem_holds s' (31 - length xs)"
    using sem_holds_trywait [OF w(4), of intr] assms(2) by auto
  obtain m' intr' t' where p: "put_mail x (m\<lparr>boxes := s'\<rparr>) intr t = Some (m', intr', t')"
    "mailbox_holds (Some m', intr', t') (xs @ [x])"
    using put_mail_holds [of "m\<lparr>boxes := s'\<rparr>" xs t x intr] w assms(2) s'(2) by auto
  then show ?thesis using s'(1) by (simp add: mailbox_trypost_def w(1))
qed

lemma trypost_full:
  assumes "mailbox_holds w xs" and "length xs = 32"
  shows "\<exists>w'. mailbox_trypost x w = Some (- EBUSY, w') \<and> mailbox_holds w' xs"
proof -
  obtain m intr t where w: "w = (Some m, intr, t)" "mail_ring m xs" "sem_holds (mails m) (length xs)"
    "sem_holds (boxes m) (32 - length xs)" "slock_free (rlock m)" "slock_free (wlock m)" "current_tid t < 16"
    using assms(1) unfolding mailbox_holds_def by blast
  obtain s' where s': "sem_trywait (Some (boxes m)) intr = Some (- ECANCELED, Some s', intr)" "sem_holds s' 0"
    using sem_holds_trywait [OF w(4), of intr] assms(2) by auto
  then show ?thesis using w assms(2) by (auto simp: mailbox_trypost_def mailbox_holds_def)
qed

lemma tryfetch_first:
  assumes "mailbox_holds w (x # xs)"
  shows "\<exists>w'. mailbox_tryfetch True w = Some (0, Some x, w') \<and> mailbox_holds w' xs"
proof -
  obtain m intr t where w: "w = (Some m, intr, t)" "mail_ring m (x # xs)" "sem_holds (mails m) (Suc (length xs))"
    "sem_holds (boxes m) (31 - length xs)" "slock_free (rlock m)" "slock_free (wlock m)" "current_tid t < 16"
    using assms(1) unfolding mailbox_holds_def by auto
  have l: "length xs < 32" using w(2) by (simp add: mail_ring_def)
  obtain s' where s': "sem_trywait (Some (mails m)) intr = Some (0, Some s', intr)" "sem_holds s' (length xs)"
    using sem_holds_trywait [OF w(3), of intr] l by auto
  obtain m' intr' t' where p: "take_mail (m\<lparr>mails := s'\<rparr>) intr t = Some (x, m', intr', t')"
    "mailbox_holds (Some m', intr', t') xs"
    using take_mail_holds [of "m\<lparr>mails := s'\<rparr>" x xs t intr] w s'(2) by auto
  then show ?thesis using s'(1) by (simp add: mailbox_tryfetch_def w(1))
qed

lemma tryfetch_empty:
  assumes "mailbox_holds w []"
  shows "\<exists>w'. mailbox_tryfetch True w = Some (- EINVAL, None, w') \<and> mailbox_holds w' []"
proof -
  obtain m intr t where w: "w = (Some m, intr, t)" "mail_ring m []" "sem_holds (mails m) 0"
    "sem_holds (boxes m) 32" "slock_free (rlock m)" "slock_free (wlock m)" "current_tid t < 16"
    using assms(1) unfolding mailbox_holds_def by auto
  obtain s' where s': "sem_trywait (Some (mails m)) intr = Some (- ECANCELED, Some s', intr)" "sem_holds s' 0"
    using sem_holds_trywait [OF w(3), of intr] by auto
  then show ?thesis using w by (auto simp: mailbox_tryfetch_def mailbox_holds_def)
qed

text \<open>The two calls as operations on the world.\<close>

definition mail_in :: "'m \<Rightarrow> ('m mailbox option, 'a) world \<Rightarrow> ('m mailbox option, 'a) world" where
  "mail_in x w = (case mailbox_trypost x w of Some (_, w') \<Rightarrow> w' | None \<Rightarrow> w)"

definition mail_out :: "('m mailbox option, 'a) world \<Rightarrow> ('m \<times> ('m mailbox option, 'a) world) option" where
  "mail_out w = (case mailbox_tryfetch True w of Some (_, Some x, w') \<Rightarrow> Some (x, w') | _ \<Rightarrow> None)"

interpretation mail_queue: fifo "mail_in :: 'm \<Rightarrow> ('m mailbox option, 'a) world \<Rightarrow> ('m mailbox option, 'a) world" mail_out
  mailbox_holds "\<lambda>_ xs. length xs < 32"
proof
  show "mailbox_holds w xs \<Longrightarrow> length xs < 32 \<Longrightarrow> mailbox_holds (mail_in x w) (xs @ [x])"
    for w :: "('m mailbox option, 'a) world" and xs x
    using trypost_room [of w xs x] by (auto simp: mail_in_def)
  show "mailbox_holds w [] \<Longrightarrow> mail_out w = None" for w :: "('m mailbox option, 'a) world"
    using tryfetch_empty [of w] by (auto simp: mail_out_def)
  show "mailbox_holds w (x # xs) \<Longrightarrow> \<exists>w'. mail_out w = Some (x, w') \<and> mailbox_holds w' xs"
    for w :: "('m mailbox option, 'a) world" and x xs
    using tryfetch_first [of w x xs] by (auto simp: mail_out_def)
qed

lemma mail_room: "length xs + length ys \<le> 32 \<Longrightarrow> room_all (\<lambda>_ xs. length xs < 32) ys xs"
  by (induction ys arbitrary: xs) auto

text \<open>
  C12: A mailbox is a queue of at most 32 mails: mails that are posted while there is room are fetched in the
  order of the posts, after those that were there; then the mailbox is empty. A post to a full mailbox
  is refused with \<open>-EBUSY\<close> and changes nothing in it.
\<close>

theorem mailbox_fifo:
  assumes "mailbox_holds w xs"
  shows "(length xs + length ys \<le> 32 \<longrightarrow>
      (\<exists>w'. take_from mail_out (length xs + length ys) (fold mail_in ys w) = Some (xs @ ys, w') \<and> mail_out w' = None))
    \<and> (length xs = 32 \<longrightarrow> (\<exists>w'. mailbox_trypost x w = Some (- EBUSY, w') \<and> mailbox_holds w' xs))"
  using mail_queue.in_order [OF assms mail_room] trypost_full [OF assms] by blast

text \<open>A new mailbox.\<close>

definition raw_mailbox :: "u32 mailbox" where
  "raw_mailbox = \<lparr>buffer = (\<lambda>_. 7), wpos = 5, rpos = 9, mails = SEM_INIT 3, boxes = SEM_INIT 4, rlock = LOCK_INIT, wlock = LOCK_INIT\<rparr>"

lemma sem_init_holds: "sem_holds (the (snd (sem_init (Some s) v))) (unat v)"
proof -
  have "waiters (the (snd (sem_init (Some s) v))) []"
    by (simp add: waiters_def sem_init_def Let_def lock_irq_init_def upt_rec) (auto simp: numeral_eq_Suc less_Suc_eq)
  then show ?thesis
    by (auto simp: sem_holds_def sem_init_def Let_def lock_irq_init_def irq_free_def)
qed

lemma mailbox_init_holds:
  assumes "current_tid t < 16"
  shows "mailbox_holds (snd (mailbox_init zero (Some m)), intr, t) []"
  using assms sem_init_holds [of "mails m" 0] sem_init_holds [of "boxes m" 32]
  by (simp add: mailbox_holds_def mailbox_init_def Let_def mail_ring_def slock_free_def lock_init_def atomic_defs)

theorem mailbox_fifo_witness:
  "\<exists>w'. take_from mail_out 2 (fold mail_in [11, 12] (snd (mailbox_init 0 (Some raw_mailbox)), True, boot_sys))
     = Some ([11, 12], w') \<and> mail_out w' = None"
proof -
  have t: "current_tid boot_sys < 16" by (simp add: current_tid_def boot_tasks_def)
  have l: "length ([] :: u32 list) + length [11, 12 :: u32] = 2" by simp
  show ?thesis using mailbox_fifo [OF mailbox_init_holds [OF t, of 0 raw_mailbox True], of "[11, 12]"]
    unfolding l by simp
qed

end
