(* ===== verification/Initrd.thy ===== *)
theory Initrd
  imports C_String Locks
begin

text \<open>
  The files and directories of the initial ram disk, \<^verbatim>\<open>include/fs.h\<close>, \<^verbatim>\<open>fs/initrd.c\<close>, and the file of the
  kernel messages, \<^verbatim>\<open>libc/stdio/kmsg_init.c\<close>. Nodes, block lists and directory blocks are stores by
  address; the bytes of the files are the byte memory of the C library. Function pointers are a
  datatype with one constructor per callback. A file name is a string without its NUL; a stored name is cut
  to \<open>MAX_FILENAME\<close> characters, as \<^verbatim>\<open>strncpy\<close> does. The heap is an argument: \<open>alloc\<close> and \<open>free\<close> act on the
  field \<open>fs_heap\<close>, and the allocator answers 0 when it has no memory.
  A walk along a chain of block lists takes fuel, as the chain may be long; \<open>None\<close> is the fuel running out
  or a fault of the machine (a null pointer, a division by 0).
\<close>

section \<open>State\<close>

definition FS_FILE :: u32 where [simp]: "FS_FILE = 1"
definition FS_DIRECTORY :: u32 where [simp]: "FS_DIRECTORY = 2"
definition FS_CHARDEVICE :: u32 where [simp]: "FS_CHARDEVICE = 3"
definition MAX_DATABLOCKS :: nat where [simp]: "MAX_DATABLOCKS = 12"
definition MAX_DIRENTRIES :: nat where [simp]: "MAX_DIRENTRIES = 32"
definition MAX_DATAENTRIES :: u32 where [simp]: "MAX_DATAENTRIES = 4096"
definition O_RDONLY :: u32 where [simp]: "O_RDONLY = 0"
definition O_WRONLY :: u32 where [simp]: "O_WRONLY = 1"
definition O_APPEND :: u32 where [simp]: "O_APPEND = 0x0008"
definition O_CREAT :: u32 where [simp]: "O_CREAT = 0x0200"
definition O_TRUNC :: u32 where [simp]: "O_TRUNC = 0x0400"
definition O_EXCL :: u32 where [simp]: "O_EXCL = 0x0800"

datatype open_cb = No_Open | Initrd_Open | Kmsg_Open
datatype close_cb = No_Close | Kmsg_Close
datatype read_cb = No_Read | Initrd_Read | Initrd_Emu_Readdir | Kmsg_Read
datatype write_cb = No_Write | Initrd_Write
datatype readdir_cb = No_Readdir | Initrd_Readdir
datatype finddir_cb = No_Finddir | Initrd_Finddir
datatype mkdir_cb = No_Mkdir | Initrd_Mkdir

record block_list =
  data :: "nat \<Rightarrow> addr"
  b_next :: addr

record vfs_node =
  v_type :: u32
  v_open :: open_cb
  v_close :: close_cb
  v_read :: read_cb
  v_write :: write_cb
  v_readdir :: readdir_cb
  v_finddir :: finddir_cb
  v_mkdir :: mkdir_cb
  v_lock :: slock
  block_size :: u32
  v_blocks :: block_list

record fd =
  f_node :: addr
  f_offset :: u32
  f_flags :: u32

record dirent =
  d_name :: string
  d_node :: addr

text \<open>A block list is part of a node or an object of its own.\<close>

datatype blref = In_Node addr | At addr

record 'h fs =
  fs_heap :: 'h
  node :: "addr \<Rightarrow> vfs_node"
  blists :: "addr \<Rightarrow> block_list"
  dirs :: "addr \<Rightarrow> nat \<Rightarrow> dirent"
  fmem :: mem
  fs_root :: addr
  kmessages :: "nat \<Rightarrow> u8"
  kmsg_counter :: u32

type_synonym 'h allocator = "u32 \<Rightarrow> 'h \<Rightarrow> (addr \<times> 'h) option"
type_synonym 'h deallocator = "addr \<Rightarrow> 'h \<Rightarrow> 'h option"

definition SIZEOF_NODE :: u32 where [simp]: "SIZEOF_NODE = 116"
definition SIZEOF_BLOCK_LIST :: u32 where [simp]: "SIZEOF_BLOCK_LIST = 52"
definition SIZEOF_DIR_BLOCK :: u32 where [simp]: "SIZEOF_DIR_BLOCK = 4224"

definition no_blocks :: block_list where
  "no_blocks = \<lparr>data = (\<lambda>_. 0), b_next = 0\<rparr>"

definition no_entry :: dirent where
  "no_entry = \<lparr>d_name = '''', d_node = 0\<rparr>"

text \<open>A node whose bytes are all 0.\<close>

definition no_node :: vfs_node where
  "no_node = \<lparr>v_type = 0, v_open = No_Open, v_close = No_Close, v_read = No_Read, v_write = No_Write,
     v_readdir = No_Readdir, v_finddir = No_Finddir, v_mkdir = No_Mkdir,
     v_lock = \<lparr>queue = 0, dequeue = 0, owner = 0, counter = 0\<rparr>, block_size = 0, v_blocks = no_blocks\<rparr>"

definition upd_vnode :: "addr \<Rightarrow> (vfs_node \<Rightarrow> vfs_node) \<Rightarrow> 'h fs \<Rightarrow> 'h fs" where
  "upd_vnode n f s = s\<lparr>node := (node s)(n := f (node s n))\<rparr>"

definition blist :: "'h fs \<Rightarrow> blref \<Rightarrow> block_list" where
  "blist s r = (case r of In_Node n \<Rightarrow> v_blocks (node s n) | At a \<Rightarrow> blists s a)"

definition upd_blist :: "blref \<Rightarrow> (block_list \<Rightarrow> block_list) \<Rightarrow> 'h fs \<Rightarrow> 'h fs" where
  "upd_blist r f s =
     (case r of In_Node n \<Rightarrow> upd_vnode n (\<lambda>x. x\<lparr>v_blocks := f (v_blocks x)\<rparr>) s
      | At a \<Rightarrow> s\<lparr>blists := (blists s)(a := f (blists s a))\<rparr>)"

definition kalloc :: "'h allocator \<Rightarrow> u32 \<Rightarrow> 'h fs \<Rightarrow> (addr \<times> 'h fs) option" where
  "kalloc alloc n s = map_option (\<lambda>(a, h). (a, s\<lparr>fs_heap := h\<rparr>)) (alloc n (fs_heap s))"

definition krelease :: "'h deallocator \<Rightarrow> addr \<Rightarrow> 'h fs \<Rightarrow> 'h fs option" where
  "krelease free a s = map_option (\<lambda>h. s\<lparr>fs_heap := h\<rparr>) (free a (fs_heap s))"

text \<open>\<^verbatim>\<open>strncpy\<close> into and \<^verbatim>\<open>strncmp\<close> with a name of a directory entry.\<close>

definition cut_name :: "string \<Rightarrow> string" where
  "cut_name name = take MAX_FILENAME name"

definition same_name :: "dirent \<Rightarrow> string \<Rightarrow> bool" where
  "same_name e name \<longleftrightarrow> cut_name (d_name e) = cut_name name"

section \<open>Reading and writing files\<close>

text \<open>The inner loop of \<^verbatim>\<open>initrd_read\<close>: the numbers of the blocks still to visit, then \<^verbatim>\<open>found\<close> and \<^verbatim>\<open>data\<close>.\<close>

fun read_slot :: "(nat \<Rightarrow> addr) \<Rightarrow> u32 \<Rightarrow> nat list \<Rightarrow> u32 \<times> addr \<Rightarrow> u32 \<times> addr" where
  "read_slot d pos [] (found, dat) = (found, dat)"
| "read_slot d pos (i # is) (found, dat) =
     (if dat \<noteq> 0 then (found, dat)
      else if d i \<noteq> 0 then read_slot d pos is (found + 1, if found + 1 > pos then d i else 0)
      else read_slot d pos is (found, 0))"

fun read_walk :: "nat \<Rightarrow> 'h fs \<Rightarrow> blref \<Rightarrow> u32 \<Rightarrow> u32 \<Rightarrow> addr option" where
  "read_walk 0 s r pos found = None"
| "read_walk (Suc n) s r pos found =
     (let (found, dat) = read_slot (data (blist s r)) pos [0..<MAX_DATABLOCKS] (found, 0);
          nxt = b_next (blist s r)
      in if nxt \<noteq> 0 \<and> dat = 0 then read_walk n s (At nxt) pos found else Some dat)"

definition initrd_read :: "nat \<Rightarrow> fd \<Rightarrow> addr \<Rightarrow> u32 \<Rightarrow> 'h fs \<Rightarrow> (int \<times> fd \<times> 'h fs) option" where
  "initrd_read fuel file buffer sz s =
     (let nd = node s (f_node file) in
      if f_flags file AND O_WRONLY \<noteq> 0 then Some (- EACCES, file, s)
      else if f_offset file \<noteq> 0 \<and> block_size nd = 0 then None
      else let pos = (if f_offset file \<noteq> 0 then f_offset file div block_size nd else 0);
               offset = (if f_offset file \<noteq> 0 then f_offset file mod block_size nd else 0)
           in (case read_walk fuel s (In_Node (f_node file)) pos 0 of
                 None \<Rightarrow> None
               | Some dat \<Rightarrow>
                   if dat = 0 then Some (0, file, s)
                   else let sz = (if offset + sz \<ge> block_size nd then block_size nd - offset else sz)
                        in Some (sint sz, file\<lparr>f_offset := f_offset file + sz\<rparr>,
                                 s\<lparr>fmem := fst (memcpy (fmem s) buffer (dat + offset) sz)\<rparr>)))"

text \<open>
  The loop of \<^verbatim>\<open>initrd_write\<close>: \<open>offset\<close> stays, \<open>sz\<close> may shrink, missing blocks are allocated
  and cleared.
\<close>

fun write_slot :: "'h allocator \<Rightarrow> blref \<Rightarrow> u32 \<Rightarrow> u32 \<Rightarrow> nat list \<Rightarrow> u32 \<times> addr \<times> u32 \<times> 'h fs
    \<Rightarrow> (u32 \<times> addr \<times> u32 \<times> 'h fs) option" where
  "write_slot alloc r pos offset [] w = Some w"
| "write_slot alloc r pos offset (i # is) (found, dat, sz, s) =
     (if dat \<noteq> 0 then Some (found, dat, sz, s)
      else let sz = (if sz + offset \<ge> MAX_DATAENTRIES then MAX_DATAENTRIES - offset else sz) in
        (case (if data (blist s r) i = 0
               then (case kalloc alloc MAX_DATAENTRIES s of
                       None \<Rightarrow> None
                     | Some (a, s) \<Rightarrow>
                         let s = upd_blist r (\<lambda>b. b\<lparr>data := (data b)(i := a)\<rparr>) s
                         in Some (if a \<noteq> 0 then s\<lparr>fmem := fst (memset (fmem s) a 0 MAX_DATAENTRIES)\<rparr> else s))
               else Some s) of
           None \<Rightarrow> None
         | Some s \<Rightarrow>
             write_slot alloc r pos offset is
               (found + 1, if found + 1 > pos then data (blist s r) i else dat, sz, s)))"

text \<open>Allocating the next block list where there is none.\<close>

definition ensure_next :: "'h allocator \<Rightarrow> blref \<Rightarrow> 'h fs \<Rightarrow> 'h fs option" where
  "ensure_next alloc r s =
     (if b_next (blist s r) \<noteq> 0 then Some s
      else case kalloc alloc SIZEOF_BLOCK_LIST s of
        None \<Rightarrow> None
      | Some (a, s) \<Rightarrow>
          let s = upd_blist r (\<lambda>b. b\<lparr>b_next := a\<rparr>) s
          in Some (if a \<noteq> 0 then upd_blist (At a) (\<lambda>_. no_blocks) s else s))"

fun write_walk :: "'h allocator \<Rightarrow> nat \<Rightarrow> blref \<Rightarrow> u32 \<Rightarrow> u32 \<Rightarrow> u32 \<times> u32 \<times> 'h fs
    \<Rightarrow> (addr \<times> u32 \<times> 'h fs) option" where
  "write_walk alloc 0 r pos offset w = None"
| "write_walk alloc (Suc n) r pos offset (found, sz, s) =
     (case write_slot alloc r pos offset [0..<MAX_DATABLOCKS] (found, 0, sz, s) of
        None \<Rightarrow> None
      | Some (found, dat, sz, s) \<Rightarrow>
          (case ensure_next alloc r s of
             None \<Rightarrow> None
           | Some s \<Rightarrow>
               if b_next (blist s r) \<noteq> 0 \<and> dat = 0
               then write_walk alloc n (At (b_next (blist s r))) pos offset (found, sz, s)
               else Some (dat, sz, s)))"

definition initrd_write :: "'h allocator \<Rightarrow> nat \<Rightarrow> fd \<Rightarrow> addr \<Rightarrow> u32 \<Rightarrow> 'h fs \<Rightarrow> (int \<times> fd \<times> 'h fs) option" where
  "initrd_write alloc fuel file buffer sz s =
     (if f_flags file AND O_RDONLY \<noteq> 0 then Some (- EACCES, file, s)
      else
        let file = (if f_flags file AND O_APPEND \<noteq> 0 then file\<lparr>f_offset := block_size (node s (f_node file))\<rparr> else file);
            pos = (if f_offset file \<noteq> 0 then f_offset file div MAX_DATAENTRIES else 0);
            offset = (if f_offset file \<noteq> 0 then f_offset file mod MAX_DATAENTRIES else 0)
        in (case write_walk alloc fuel (In_Node (f_node file)) pos offset (0, sz, s) of
              None \<Rightarrow> None
            | Some (dat, sz, s) \<Rightarrow>
                let s = (if block_size (node s (f_node file)) < f_offset file + sz
                         then upd_vnode (f_node file) (\<lambda>x. x\<lparr>block_size := f_offset file + sz\<rparr>) s else s)
                in if dat = 0 then None
                   else Some (sint sz, file\<lparr>f_offset := f_offset file + sz\<rparr>,
                              s\<lparr>fmem := fst (memcpy (fmem s) (dat + offset) buffer sz)\<rparr>)))"

section \<open>Directories\<close>

text \<open>
  The entries of a list of blocks, in the order of the loops; the counter of \<^verbatim>\<open>initrd_readdir\<close>
  starts again at 0 in every block list.
\<close>

definition entries :: "'h fs \<Rightarrow> blref \<Rightarrow> (addr \<times> nat) list" where
  "entries s r = concat (map (\<lambda>i. if data (blist s r) i = 0 then [] else map (Pair (data (blist s r) i)) [0..<MAX_DIRENTRIES])
     [0..<MAX_DATABLOCKS])"

fun nth_entry :: "'h fs \<Rightarrow> (addr \<times> nat) list \<Rightarrow> u32 \<Rightarrow> u32 \<Rightarrow> (addr \<times> nat) option" where
  "nth_entry s [] count idx = None"
| "nth_entry s ((d, j) # es) count idx =
     (if d_node (dirs s d j) \<noteq> 0
      then if count + 1 > idx then Some (d, j) else nth_entry s es (count + 1) idx
      else nth_entry s es count idx)"

text \<open>\<open>None\<close>: no fuel; \<open>Some None\<close>: null.\<close>

fun readdir_walk :: "nat \<Rightarrow> 'h fs \<Rightarrow> blref \<Rightarrow> u32 \<Rightarrow> (addr \<times> nat) option option" where
  "readdir_walk 0 s r idx = None"
| "readdir_walk (Suc n) s r idx =
     (case nth_entry s (entries s r) 0 idx of
        Some e \<Rightarrow> Some (Some e)
      | None \<Rightarrow> if b_next (blist s r) \<noteq> 0 then readdir_walk n s (At (b_next (blist s r))) idx else Some None)"

definition initrd_readdir :: "nat \<Rightarrow> addr \<Rightarrow> u32 \<Rightarrow> 'h fs \<Rightarrow> dirent option option" where
  "initrd_readdir fuel nd idx s =
     map_option (map_option (\<lambda>(d, j). dirs s d j)) (readdir_walk fuel s (In_Node nd) idx)"

text \<open>
  Reading a directory as a file copies one name, without its NUL but at least one byte, and fails at the end.
  A name that fills its field has no NUL: the copy would run on into the next field, a fault here.
\<close>

definition initrd_emu_readdir :: "nat \<Rightarrow> fd \<Rightarrow> addr \<Rightarrow> u32 \<Rightarrow> 'h fs \<Rightarrow> (int \<times> fd \<times> 'h fs) option" where
  "initrd_emu_readdir fuel file buffer sz s =
     (case readdir_walk fuel s (In_Node (f_node file)) (f_offset file) of
        None \<Rightarrow> None
      | Some None \<Rightarrow> Some (- EINVAL, file, s)
      | Some (Some (d, j)) \<Rightarrow>
          let name = d_name (dirs s d j); k = max 1 (length name) in
          if length name \<ge> MAX_FILENAME then None
          else Some (int k, file\<lparr>f_offset := f_offset file + 1\<rparr>,
                 s\<lparr>fmem := fold (\<lambda>i m. m(buffer + of_nat i := (if i < length name then of_char (name ! i) else 0))) [0..<k] (fmem s)\<rparr>))"

text \<open>The search by name also looks at free entries, whose node is null.\<close>

fun first_named :: "'h fs \<Rightarrow> (addr \<times> nat) list \<Rightarrow> string \<Rightarrow> addr option" where
  "first_named s [] name = None"
| "first_named s ((d, j) # es) name =
     (if same_name (dirs s d j) name then Some (d_node (dirs s d j)) else first_named s es name)"

fun finddir_walk :: "nat \<Rightarrow> 'h fs \<Rightarrow> blref \<Rightarrow> string \<Rightarrow> addr option" where
  "finddir_walk 0 s r name = None"
| "finddir_walk (Suc n) s r name =
     (case first_named s (entries s r) name of
        Some nd \<Rightarrow> Some nd
      | None \<Rightarrow> if b_next (blist s r) \<noteq> 0 then finddir_walk n s (At (b_next (blist s r))) name else Some 0)"

definition initrd_finddir :: "nat \<Rightarrow> addr \<Rightarrow> string \<Rightarrow> 'h fs \<Rightarrow> addr option" where
  "initrd_finddir fuel nd name s = finddir_walk fuel s (In_Node nd) name"

text \<open>
  Entering a node into the first free entry; a full list gets a new block list, which has no directory
  blocks, so the loop of the code goes on. \<open>Some (False, _)\<close>: the memory is exhausted.
\<close>

fun unused_entry :: "'h fs \<Rightarrow> (addr \<times> nat) list \<Rightarrow> (addr \<times> nat) option" where
  "unused_entry s [] = None"
| "unused_entry s ((d, j) # es) = (if d_node (dirs s d j) = 0 then Some (d, j) else unused_entry s es)"

definition set_entry :: "addr \<Rightarrow> nat \<Rightarrow> dirent \<Rightarrow> 'h fs \<Rightarrow> 'h fs" where
  "set_entry d j e s = s\<lparr>dirs := (dirs s)(d := (dirs s d)(j := e))\<rparr>"

fun add_entry :: "'h allocator \<Rightarrow> nat \<Rightarrow> blref \<Rightarrow> string \<Rightarrow> addr \<Rightarrow> 'h fs \<Rightarrow> (bool \<times> 'h fs) option" where
  "add_entry alloc 0 r name nd s = None"
| "add_entry alloc (Suc n) r name nd s =
     (case unused_entry s (entries s r) of
        Some (d, j) \<Rightarrow> Some (True, set_entry d j \<lparr>d_name = cut_name name, d_node = nd\<rparr> s)
      | None \<Rightarrow>
          (case ensure_next alloc r s of
             None \<Rightarrow> None
           | Some s \<Rightarrow>
               if b_next (blist s r) \<noteq> 0 then add_entry alloc n (At (b_next (blist s r))) name nd s
               else Some (False, s)))"

text \<open>The new nodes of \<^verbatim>\<open>initrd_open\<close> and \<^verbatim>\<open>initrd_mkdir\<close>, after the \<^verbatim>\<open>memset\<close>.\<close>

definition init_lock :: "slock \<Rightarrow> slock" where
  "init_lock l = the (snd (lock_init (Some l)))"

definition file_node :: vfs_node where
  "file_node = (let x = no_node\<lparr>v_type := FS_FILE, v_read := Initrd_Read, v_write := Initrd_Write, v_open := Initrd_Open\<rparr>
                in x\<lparr>v_lock := init_lock (v_lock x)\<rparr>)"

definition dir_node :: vfs_node where
  "dir_node = (let x = no_node\<lparr>v_type := FS_DIRECTORY, v_read := Initrd_Emu_Readdir, v_readdir := Initrd_Readdir,
                               v_finddir := Initrd_Finddir, v_mkdir := Initrd_Mkdir, v_open := Initrd_Open\<rparr>
               in x\<lparr>v_lock := init_lock (v_lock x)\<rparr>)"

section \<open>Opening and creating\<close>

text \<open>Freeing the blocks of a block list; the pointers to them stay.\<close>

fun free_blocks :: "'h deallocator \<Rightarrow> (nat \<Rightarrow> addr) \<Rightarrow> nat list \<Rightarrow> 'h fs \<Rightarrow> 'h fs option" where
  "free_blocks free d [] s = Some s"
| "free_blocks free d (i # is) s =
     (if d i \<noteq> 0 then (case krelease free (d i) s of None \<Rightarrow> None | Some s \<Rightarrow> free_blocks free d is s)
      else free_blocks free d is s)"

fun free_lists :: "'h deallocator \<Rightarrow> nat \<Rightarrow> addr \<Rightarrow> 'h fs \<Rightarrow> 'h fs option" where
  "free_lists free 0 a s = None"
| "free_lists free (Suc n) a s =
     (case free_blocks free (data (blists s a)) [0..<MAX_DATABLOCKS] s of
        None \<Rightarrow> None
      | Some s \<Rightarrow>
          let nxt = b_next (blists s a) in
          (case krelease free a s of
             None \<Rightarrow> None
           | Some s \<Rightarrow> if nxt \<noteq> 0 then free_lists free n nxt s else Some s))"

definition truncate_node :: "'h deallocator \<Rightarrow> nat \<Rightarrow> addr \<Rightarrow> 'h fs \<Rightarrow> 'h fs option" where
  "truncate_node free fuel nd s =
     (case free_blocks free (data (v_blocks (node s nd))) [0..<MAX_DATABLOCKS] s of
        None \<Rightarrow> None
      | Some s \<Rightarrow>
          let nxt = b_next (v_blocks (node s nd)) in
          (case (if nxt \<noteq> 0 then free_lists free fuel nxt (upd_blist (In_Node nd) (\<lambda>b. b\<lparr>b_next := 0\<rparr>) s) else Some s) of
             None \<Rightarrow> None
           | Some s \<Rightarrow> Some (upd_vnode nd (\<lambda>x. x\<lparr>block_size := 0\<rparr>) s)))"

text \<open>\<open>name\<close> is \<open>None\<close> for null. A null name of a directory is a fault.\<close>

definition initrd_open :: "'h allocator \<Rightarrow> 'h deallocator \<Rightarrow> nat \<Rightarrow> fd \<Rightarrow> string option \<Rightarrow> 'h fs \<Rightarrow> (int \<times> fd \<times> 'h fs) option" where
  "initrd_open alloc free fuel file name s =
     (let nd = f_node file; creat = (f_flags file AND O_CREAT \<noteq> 0) in
      if v_type (node s nd) = FS_FILE
      then if creat \<and> f_flags file AND O_EXCL \<noteq> 0 then Some (- EEXIST, file, s)
           else if f_flags file AND O_TRUNC \<noteq> 0
           then map_option (\<lambda>s. (0, file, s)) (truncate_node free fuel nd s)
           else Some (0, file, s)
      else if v_type (node s nd) = FS_DIRECTORY
      then (case name of
              None \<Rightarrow> None
            | Some name \<Rightarrow>
                if name = [] then Some (0, file, s)
                else if \<not> creat then Some (- ENOENT, file, s)
                else (case kalloc alloc SIZEOF_NODE s of
                        None \<Rightarrow> None
                      | Some (new, s) \<Rightarrow>
                          if new = 0 then Some (- EINVAL, file, s)
                          else (case add_entry alloc fuel (In_Node nd) name new (upd_vnode new (\<lambda>_. file_node) s) of
                                  None \<Rightarrow> None
                                | Some (_, s) \<Rightarrow>
                                    Some (0, file\<lparr>f_node := new\<rparr>, upd_vnode new (\<lambda>x. x\<lparr>block_size := 0\<rparr>) s))))
      else Some (0, file, s))"

text \<open>The directory block with the entries \<^verbatim>\<open>.\<close> and \<^verbatim>\<open>..\<close>.\<close>

definition fill_dir :: "addr \<Rightarrow> addr \<Rightarrow> addr \<Rightarrow> 'h fs \<Rightarrow> 'h fs" where
  "fill_dir d self parent s =
     (let s = s\<lparr>dirs := (dirs s)(d := (\<lambda>_. no_entry))\<rparr>;
          s = upd_blist (In_Node self) (\<lambda>b. b\<lparr>data := (data b)(0 := d)\<rparr>) s;
          s = set_entry d 0 \<lparr>d_name = cut_name ''.'', d_node = self\<rparr> s
      in set_entry d 1 \<lparr>d_name = cut_name ''..'', d_node = parent\<rparr> s)"

definition initrd_mkdir :: "'h allocator \<Rightarrow> 'h deallocator \<Rightarrow> nat \<Rightarrow> addr \<Rightarrow> string \<Rightarrow> 'h fs \<Rightarrow> (addr \<times> 'h fs) option" where
  "initrd_mkdir alloc free fuel nd name s =
     (if v_type (node s nd) \<noteq> FS_DIRECTORY then Some (0, s)
      else case initrd_finddir fuel nd name s of
        None \<Rightarrow> None
      | Some found \<Rightarrow>
          if found \<noteq> 0 then Some (0, s)
          else (case kalloc alloc SIZEOF_NODE s of
             None \<Rightarrow> None
           | Some (new, s) \<Rightarrow>
               if new = 0 then Some (0, s)
               else (case kalloc alloc SIZEOF_DIR_BLOCK (upd_vnode new (\<lambda>_. dir_node) s) of
                  None \<Rightarrow> None
                | Some (d, s) \<Rightarrow>
                    if d = 0 then map_option (Pair 0) (krelease free new s)
                    else (case add_entry alloc fuel (In_Node nd) name new (fill_dir d new nd s) of
                       None \<Rightarrow> None
                     | Some (True, s) \<Rightarrow> Some (new, s)
                     | Some (False, s) \<Rightarrow>
                         (case krelease free d s of
                            None \<Rightarrow> None
                          | Some s \<Rightarrow> map_option (Pair 0) (krelease free new s))))))"

section \<open>The kernel messages\<close>

text \<open>
  \<^verbatim>\<open>kmsg_read\<close> copies from the ring of messages; the loop counts \<open>i\<close> up to \<open>sz\<close> and stops behind the byte at
  the counter of the ring, without counting that byte.
\<close>

fun kmsg_copy :: "nat \<Rightarrow> u32 \<Rightarrow> u32 \<Rightarrow> addr \<Rightarrow> fd \<times> 'h fs \<Rightarrow> u32 \<times> fd \<times> 'h fs" where
  "kmsg_copy 0 start i buffer (file, s) = (i, file, s)"
| "kmsg_copy (Suc n) start i buffer (file, s) =
     (let p = (start + f_offset file) mod of_nat KMSG_SIZE;
          s = s\<lparr>fmem := (fmem s)(buffer + i := kmessages s (unat p))\<rparr>
      in if p = kmsg_counter s then (i, file, s)
         else kmsg_copy n start (i + 1) buffer (file\<lparr>f_offset := f_offset file + 1\<rparr>, s))"

definition kmsg_read :: "fd \<Rightarrow> addr \<Rightarrow> u32 \<Rightarrow> 'h fs \<Rightarrow> int \<times> fd \<times> 'h fs" where
  "kmsg_read file buffer sz s =
     (if buffer = 0 then (- EINVAL, file, s)
      else if sz = 0 then (0, file, s)
      else let nxt = (kmsg_counter s + 1) mod of_nat KMSG_SIZE;
               start = (if kmessages s (unat nxt) = 0 then 0 else nxt)
           in if (start + f_offset file) mod of_nat KMSG_SIZE = kmsg_counter s then (0, file, s)
              else if sint (f_offset file) \<ge> int KMSG_SIZE then (0, file, s)
              else let (i, file, s) = kmsg_copy (unat sz) start 0 buffer (file, s) in (sint i, file, s))"

definition kmsg_open :: "fd \<Rightarrow> string option \<Rightarrow> int" where "kmsg_open file name = 0"
definition kmsg_close :: "fd \<Rightarrow> int" where "kmsg_close file = 0"

section \<open>What is written can be read\<close>

lemma memset_other: "\<forall>i<unat n. a \<noteq> p + of_nat i \<Longrightarrow> fst (memset m p v n) a = m a"
proof -
  have "\<forall>i<k. a \<noteq> p + of_nat i \<Longrightarrow> fold (\<lambda>i m. m(p + of_nat i := ucast v)) [0..<k] m a = m a" for k
    by (induction k) auto
  then show "\<forall>i<unat n. a \<noteq> p + of_nat i \<Longrightarrow> fst (memset m p v n) a = m a" by (simp add: memset_def)
qed

lemma memcpy_bytes:
  assumes "separate dst (unat n) src (unat n)"
  shows "bytes (fst (memcpy m dst src n)) dst (unat n) = bytes m src (unat n)"
  using copy_up_separate(1) [OF assms order_refl, where m = m] unat_lt32 [of n]
  by (auto simp: memcpy_def intro!: nth_equalityI)

text \<open>\<open>has_block alloc s nd b s'\<close>: \<open>b\<close> is the first block of the file \<open>nd\<close>, allocated on demand, which leads to \<open>s'\<close>.\<close>

definition has_block :: "'h allocator \<Rightarrow> 'h fs \<Rightarrow> addr \<Rightarrow> addr \<Rightarrow> 'h fs \<Rightarrow> bool" where
  "has_block alloc s nd b s' \<longleftrightarrow> b \<noteq> 0 \<and>
     (if data (v_blocks (node s nd)) 0 = 0
      then (\<exists>h. alloc MAX_DATAENTRIES (fs_heap s) = Some (b, h) \<and>
              s' = (upd_blist (In_Node nd) (\<lambda>x. x\<lparr>data := (data x)(0 := b)\<rparr>) (s\<lparr>fs_heap := h\<rparr>))
                     \<lparr>fmem := fst (memset (fmem s) b 0 MAX_DATAENTRIES)\<rparr>)
      else data (v_blocks (node s nd)) 0 = b \<and> s' = s)"

lemma has_block_fields:
  assumes "has_block alloc s nd b s'"
  shows "data (blist s' (In_Node nd)) 0 = b" "block_size (node s' nd) = block_size (node s nd)"
    and "\<forall>i<4096. a \<noteq> b + of_nat i \<Longrightarrow> fmem s' a = fmem s a"
  using assms memset_other [of MAX_DATAENTRIES a b]
  by (auto simp: has_block_def blist_def upd_blist_def upd_vnode_def split: if_splits)

lemma slots_head: "[0..<MAX_DATABLOCKS] = 0 # [1..<12]"
  by (simp add: upt_rec)

lemma write_slot_found: "dat \<noteq> 0 \<Longrightarrow> write_slot alloc r pos offset is (found, dat, sz, s) = Some (found, dat, sz, s)"
  by (cases "is") auto

lemma read_slot_found: "dat \<noteq> 0 \<Longrightarrow> read_slot d pos is (found, dat) = (found, dat)"
  by (cases "is") auto

lemma write_first_block:
  assumes "has_block alloc s nd b s'" and "unat offset + unat sz < 4096"
  shows "write_slot alloc (In_Node nd) 0 offset [0..<MAX_DATABLOCKS] (0, 0, sz, s) = Some (1, b, sz, s')"
proof -
  have "unat (sz + offset) = unat sz + unat offset" using assms(2) by (simp add: unat_word_ariths)
  then have "\<not> sz + offset \<ge> 4096" using assms(2) by (simp add: word_le_nat_alt)
  then show ?thesis using assms(1) has_block_fields(1) [OF assms(1)]
    unfolding slots_head
    by (auto simp: has_block_def kalloc_def Let_def write_slot_found blist_def upd_blist_def upd_vnode_def split: if_splits)
qed

lemma ensure_next_node:
  assumes "\<forall>h. alloc SIZEOF_BLOCK_LIST h \<noteq> None"
  shows "\<exists>s'. ensure_next alloc (In_Node nd) s = Some s' \<and> fmem s' = fmem s \<and> data (blist s' (In_Node nd)) = data (blist s (In_Node nd))
    \<and> block_size (node s' nd) = block_size (node s nd)"
  using assms [rule_format, of "fs_heap s"]
  by (auto simp: ensure_next_def kalloc_def blist_def upd_blist_def upd_vnode_def Let_def)

lemma initrd_write_block:
  assumes "has_block alloc s nd b s1" and "f_node file = nd" and "f_flags file AND O_APPEND = 0"
    and "unat (f_offset file) + unat sz < 4096" and "\<forall>h. alloc SIZEOF_BLOCK_LIST h \<noteq> None"
  shows "\<exists>s'. initrd_write alloc (Suc n) file buffer sz s = Some (sint sz, file\<lparr>f_offset := f_offset file + sz\<rparr>, s')
    \<and> data (blist s' (In_Node nd)) 0 = b \<and> block_size (node s' nd) = max (block_size (node s nd)) (f_offset file + sz)
    \<and> fmem s' = fst (memcpy (fmem s1) (b + f_offset file) buffer sz)"
proof -
  have o: "unat (f_offset file) < 4096" using assms(4) by simp
  then have pos: "f_offset file div 4096 = 0" "f_offset file mod 4096 = f_offset file"
    by (simp_all add: word_less_nat_alt word_unat_eq_iff unat_div unat_mod_distrib)
  obtain s2 where s2: "ensure_next alloc (In_Node nd) s1 = Some s2" "fmem s2 = fmem s1"
    "data (blist s2 (In_Node nd)) = data (blist s1 (In_Node nd))" "block_size (node s2 nd) = block_size (node s1 nd)"
    using ensure_next_node [of alloc nd s1, OF assms(5)] by blast
  have b: "b \<noteq> 0" using assms(1) by (simp add: has_block_def)
  have w: "write_walk alloc (Suc n) (In_Node nd) 0 (f_offset file) (0, sz, s) = Some (b, sz, s2)"
    using write_first_block [OF assms(1,4)] s2(1) b by simp
  have "initrd_write alloc (Suc n) file buffer sz s = (case write_walk alloc (Suc n) (In_Node nd) 0 (f_offset file) (0, sz, s) of
      None \<Rightarrow> None
    | Some (dat, sz, s) \<Rightarrow>
        let s = (if block_size (node s nd) < f_offset file + sz
                 then upd_vnode nd (\<lambda>x. x\<lparr>block_size := f_offset file + sz\<rparr>) s else s)
        in if dat = 0 then None
           else Some (sint sz, file\<lparr>f_offset := f_offset file + sz\<rparr>,
                      s\<lparr>fmem := fst (memcpy (fmem s) (dat + f_offset file) buffer sz)\<rparr>))"
    using assms(2,3) pos by (auto simp: initrd_write_def Let_def simp del: write_walk.simps split: option.splits)
  then show ?thesis unfolding w using b s2 has_block_fields(1,2) [OF assms(1)]
    by (auto simp: Let_def upd_vnode_def blist_def max_def not_less)
qed

lemma initrd_read_block:
  assumes "f_node file = nd" and "data (blist s (In_Node nd)) 0 = b" and "b \<noteq> 0" and "f_flags file AND O_WRONLY = 0"
    and "0 < sz" and "unat (f_offset file) + unat sz < 2 ^ 32" and "f_offset file + sz \<le> block_size (node s nd)"
  shows "initrd_read (Suc n) file buffer sz s = Some (sint sz, file\<lparr>f_offset := f_offset file + sz\<rparr>,
    s\<lparr>fmem := fst (memcpy (fmem s) buffer (b + f_offset file) sz)\<rparr>)"
proof -
  have o: "f_offset file < block_size (node s nd)" using assms(5-7)
    by (simp add: word_less_nat_alt word_le_nat_alt unat_word_ariths)
  then have pos: "f_offset file div block_size (node s nd) = 0" "f_offset file mod block_size (node s nd) = f_offset file"
    "block_size (node s nd) \<noteq> 0"
    by (auto simp: word_less_nat_alt word_unat_eq_iff unat_div unat_mod_distrib)
  have "read_walk (Suc n) s (In_Node nd) 0 0 = Some b"
    unfolding read_walk.simps slots_head using assms(2,3) by (simp add: read_slot_found)
  then show ?thesis using assms pos by (auto simp: initrd_read_def Let_def simp del: read_walk.simps)
qed

lemma separate_inside:
  assumes "separate b 4096 q k" and "unat o' + n \<le> 4096"
  shows "separate (b + o') n q k"
proof -
  have "b + o' + of_nat i \<noteq> q + of_nat j" if "i < n" "j < k" for i j
  proof -
    have "b + o' + of_nat i = b + of_nat (unat o' + i)" by (simp add: add.assoc)
    then show ?thesis using separateD [OF assms(1), of "unat o' + i" j] that assms(2) by (simp add: add.assoc)
  qed
  then show ?thesis by (simp add: separate_def)
qed

lemma bytes_cong: "(\<And>i. i < n \<Longrightarrow> m (p + of_nat i) = m' (p + of_nat i)) \<Longrightarrow> bytes m p n = bytes m' p n"
  by (auto intro!: nth_equalityI)

text \<open>
  C15: Bytes written within the first block of a file, which is allocated when it is missing, are read back from the
  same offset: both calls move all the bytes and advance their descriptors, and the reader's buffer gets what the
  writer's buffer held.
\<close>

theorem file_write_read:
  assumes "has_block alloc s nd b s1" and "f_node file = nd" "f_flags file AND O_APPEND = 0"
    and "f_node rfile = nd" "f_offset rfile = f_offset file" "f_flags rfile AND O_WRONLY = 0"
    and "0 < sz" and "unat (f_offset file) + unat sz < 4096" and "\<forall>h. alloc SIZEOF_BLOCK_LIST h \<noteq> None"
    and "separate b 4096 buf (unat sz)" and "separate rbuf (unat sz) (b + f_offset file) (unat sz)"
  shows "\<exists>s' s''. initrd_write alloc 1 file buf sz s = Some (sint sz, file\<lparr>f_offset := f_offset file + sz\<rparr>, s')
    \<and> initrd_read 1 rfile rbuf sz s' = Some (sint sz, rfile\<lparr>f_offset := f_offset rfile + sz\<rparr>, s'')
    \<and> bytes (fmem s'') rbuf (unat sz) = bytes (fmem s) buf (unat sz)"
proof -
  obtain s' where w: "initrd_write alloc (Suc 0) file buf sz s = Some (sint sz, file\<lparr>f_offset := f_offset file + sz\<rparr>, s')"
    "data (blist s' (In_Node nd)) 0 = b" "block_size (node s' nd) = max (block_size (node s nd)) (f_offset file + sz)"
    "fmem s' = fst (memcpy (fmem s1) (b + f_offset file) buf sz)"
    using initrd_write_block [OF assms(1,2,3,8,9), of 0 buf] by blast
  have b: "b \<noteq> 0" using assms(1) by (simp add: has_block_def)
  define s'' where "s'' = s'\<lparr>fmem := fst (memcpy (fmem s') rbuf (b + f_offset rfile) sz)\<rparr>"
  have r: "initrd_read (Suc 0) rfile rbuf sz s' = Some (sint sz, rfile\<lparr>f_offset := f_offset rfile + sz\<rparr>, s'')"
    unfolding s''_def using assms w(3) by (intro initrd_read_block [OF assms(4) w(2) b]) auto
  have "bytes (fmem s'') rbuf (unat sz) = bytes (fmem s') (b + f_offset file) (unat sz)"
    using memcpy_bytes [OF assms(11), of "fmem s'"] by (simp add: s''_def assms(5))
  also have "\<dots> = bytes (fmem s1) buf (unat sz)"
    unfolding w(4) using assms(8) by (intro memcpy_bytes separate_inside [OF assms(10)]) simp
  also have "\<dots> = bytes (fmem s) buf (unat sz)"
    using separateD [OF assms(10)] by (intro bytes_cong has_block_fields(3) [OF assms(1)]) fastforce
  finally show ?thesis using w(1) r by (auto simp: One_nat_def)
qed

text \<open>A new file at address 100 of an otherwise empty store; \<open>bump\<close> hands out ever higher addresses.\<close>

definition bump :: "u32 allocator" where
  "bump n h = Some (h, h + n)"

definition empty_fs :: "u32 fs" where
  "empty_fs = \<lparr>fs_heap = 0x10000, node = (\<lambda>_. no_node), blists = (\<lambda>_. no_blocks), dirs = (\<lambda>_ _. no_entry), fmem = (\<lambda>_. 0),
     fs_root = 100, kmessages = (\<lambda>_. 0), kmsg_counter = 0\<rparr>"

definition one_file :: "u32 fs" where
  "one_file = upd_vnode 100 (\<lambda>_. file_node) (empty_fs\<lparr>fmem := (\<lambda>_. 0)(200 := 7, 201 := 8)\<rparr>)"

theorem file_write_read_witness:
  "\<exists>s' s''. initrd_write bump 1 \<lparr>f_node = 100, f_offset = 5, f_flags = 2\<rparr> 200 2 one_file
      = Some (2, \<lparr>f_node = 100, f_offset = 7, f_flags = 2\<rparr>, s')
    \<and> initrd_read 1 \<lparr>f_node = 100, f_offset = 5, f_flags = 0\<rparr> 300 2 s' = Some (2, \<lparr>f_node = 100, f_offset = 7, f_flags = 0\<rparr>, s'')
    \<and> bytes (fmem s'') 300 2 = [7, 8]"
proof -
  have b: "\<exists>s1. has_block bump one_file 100 0x10000 s1"
    by (auto simp: has_block_def one_file_def empty_fs_def bump_def upd_vnode_def file_node_def no_node_def no_blocks_def Let_def)
  have "separate 0x10000 4096 200 2"
    unfolding separate_def by (auto simp: word_unat_eq_iff unat_word_ariths unat_of_nat_32 less_2_cases_iff)
  moreover have "separate (300 :: addr) 2 (0x10000 + 5) 2" by (auto simp: separate_def less_2_cases_iff)
  moreover have "bytes (fmem one_file) 200 2 = [7, 8]"
    by (simp add: bytes_def one_file_def empty_fs_def upd_vnode_def upt_rec)
  ultimately show ?thesis
    using b file_write_read [of bump one_file 100 "0x10000" _ "\<lparr>f_node = 100, f_offset = 5, f_flags = 2\<rparr>"
        "\<lparr>f_node = 100, f_offset = 5, f_flags = 0\<rparr>" 2 200 300]
    by (auto simp: bump_def)
qed

end
