(* ===== verification/Fs.thy ===== *)
theory Fs
  imports Initrd Kmalloc
begin

text \<open>
  The file system calls, \<^verbatim>\<open>fs/fs.c\<close>, which dispatch on the callbacks of a node under its lock, the node of the
  kernel messages, and the construction of the tree from the modules of the boot loader,
  \<^verbatim>\<open>initrd_init\<close>. \<open>me\<close> is the id of the current task. A path is a string without its NUL; a component that
  does not fit into the local buffer of \<open>MAX_FILENAME\<close> bytes is \<open>None\<close>, as is an empty path, whose loop would start
  behind its NUL.
\<close>

section \<open>Calls on nodes\<close>

definition lock_node :: "u32 \<Rightarrow> addr \<Rightarrow> 'h fs \<Rightarrow> 'h fs option" where
  "lock_node me nd s =
     (case s_lock me (Some (v_lock (node s nd))) of
        None \<Rightarrow> None
      | Some (_, l) \<Rightarrow> Some (upd_vnode nd (\<lambda>x. x\<lparr>v_lock := the l\<rparr>) s))"

definition unlock_node :: "addr \<Rightarrow> 'h fs \<Rightarrow> 'h fs" where
  "unlock_node nd s = upd_vnode nd (\<lambda>x. x\<lparr>v_lock := the (snd (s_unlock (Some (v_lock x))))\<rparr>) s"

text \<open>The call of a handler that returns a code and the descriptor, between lock and unlock.\<close>

definition locked_call :: "u32 \<Rightarrow> addr \<Rightarrow> ('h fs \<Rightarrow> ('r \<times> fd \<times> 'h fs) option) \<Rightarrow> 'h fs \<Rightarrow> ('r \<times> fd \<times> 'h fs) option" where
  "locked_call me nd f s =
     (case lock_node me nd s of
        None \<Rightarrow> None
      | Some s \<Rightarrow> map_option (\<lambda>(r, file, s). (r, file, unlock_node nd s)) (f s))"

definition read_fs :: "u32 \<Rightarrow> nat \<Rightarrow> fd \<Rightarrow> addr \<Rightarrow> u32 \<Rightarrow> 'h fs \<Rightarrow> (int \<times> fd \<times> 'h fs) option" where
  "read_fs me fuel file buffer sz s =
     (let nd = f_node file in
      if nd = 0 \<or> buffer = 0 then Some (- EINVAL, file, s)
      else locked_call me nd (\<lambda>s. case v_read (node s nd) of
          No_Read \<Rightarrow> Some (- EINVAL, file, s)
        | Initrd_Read \<Rightarrow> initrd_read fuel file buffer sz s
        | Initrd_Emu_Readdir \<Rightarrow> initrd_emu_readdir fuel file buffer sz s
        | Kmsg_Read \<Rightarrow> Some (kmsg_read file buffer sz s)) s)"

definition write_fs :: "'h allocator \<Rightarrow> u32 \<Rightarrow> nat \<Rightarrow> fd \<Rightarrow> addr \<Rightarrow> u32 \<Rightarrow> 'h fs \<Rightarrow> (int \<times> fd \<times> 'h fs) option" where
  "write_fs alloc me fuel file buffer sz s =
     (let nd = f_node file in
      if nd = 0 \<or> buffer = 0 then Some (- EINVAL, file, s)
      else locked_call me nd (\<lambda>s. case v_write (node s nd) of
          No_Write \<Rightarrow> Some (- EINVAL, file, s)
        | Initrd_Write \<Rightarrow> initrd_write alloc fuel file buffer sz s) s)"

definition close_fs :: "u32 \<Rightarrow> fd \<Rightarrow> 'h fs \<Rightarrow> (int \<times> fd \<times> 'h fs) option" where
  "close_fs me file s =
     (let nd = f_node file in
      if nd = 0 then Some (- EINVAL, file, s)
      else locked_call me nd (\<lambda>s. case v_close (node s nd) of
          No_Close \<Rightarrow> Some (- EINVAL, file, s)
        | Kmsg_Close \<Rightarrow> Some (kmsg_close file, file, s)) s)"

definition readdir_fs :: "u32 \<Rightarrow> nat \<Rightarrow> addr \<Rightarrow> u32 \<Rightarrow> 'h fs \<Rightarrow> (dirent option \<times> 'h fs) option" where
  "readdir_fs me fuel nd idx s =
     (if nd = 0 then Some (None, s)
      else case lock_node me nd s of
        None \<Rightarrow> None
      | Some s \<Rightarrow>
          map_option (\<lambda>e. (e, unlock_node nd s))
            (if v_type (node s nd) = FS_DIRECTORY \<and> v_readdir (node s nd) \<noteq> No_Readdir
             then initrd_readdir fuel nd idx s else Some None))"

definition finddir_fs :: "u32 \<Rightarrow> nat \<Rightarrow> addr \<Rightarrow> string \<Rightarrow> 'h fs \<Rightarrow> (addr \<times> 'h fs) option" where
  "finddir_fs me fuel nd name s =
     (if nd = 0 then Some (0, s)
      else case lock_node me nd s of
        None \<Rightarrow> None
      | Some s \<Rightarrow>
          map_option (\<lambda>a. (a, unlock_node nd s))
            (if v_type (node s nd) = FS_DIRECTORY \<and> v_finddir (node s nd) \<noteq> No_Finddir
             then initrd_finddir fuel nd name s else Some 0))"

definition mkdir_fs :: "'h allocator \<Rightarrow> 'h deallocator \<Rightarrow> u32 \<Rightarrow> nat \<Rightarrow> addr \<Rightarrow> string \<Rightarrow> 'h fs \<Rightarrow> (addr \<times> 'h fs) option" where
  "mkdir_fs alloc free me fuel nd name s =
     (if nd = 0 then Some (0, s)
      else case lock_node me nd s of
        None \<Rightarrow> None
      | Some s \<Rightarrow>
          map_option (\<lambda>(a, s). (a, unlock_node nd s))
            (if v_mkdir (node s nd) \<noteq> No_Mkdir then initrd_mkdir alloc free fuel nd name s else Some (0, s)))"

section \<open>Paths\<close>

definition component :: "string \<Rightarrow> string" where
  "component rest = takeWhile (\<lambda>c. c \<noteq> CHR ''/'') rest"

definition after_component :: "string \<Rightarrow> string" where
  "after_component rest = drop 1 (dropWhile (\<lambda>c. c \<noteq> CHR ''/'') rest)"

lemma after_component_shorter: "rest \<noteq> [] \<Longrightarrow> length (after_component rest) < length rest"
  using length_dropWhile_le [of "\<lambda>c. c \<noteq> CHR ''/''" rest] by (cases rest) (auto simp: after_component_def less_Suc_eq_le)

text \<open>
  The loop of \<^verbatim>\<open>findnode_fs\<close>: the node reached and the rest of the path. Its rounds are bounded by the
  length of the path.
\<close>

function findnode_walk :: "u32 \<Rightarrow> nat \<Rightarrow> addr \<Rightarrow> string \<Rightarrow> 'h fs \<Rightarrow> (addr \<times> 'h fs) option" where
  "findnode_walk me fuel nd rest s =
     (if rest \<noteq> [] \<and> nd \<noteq> 0
      then if length (component rest) \<ge> MAX_FILENAME then None
           else (case finddir_fs me fuel nd (component rest) s of
                   None \<Rightarrow> None
                 | Some (nd, s) \<Rightarrow> findnode_walk me fuel nd (after_component rest) s)
      else Some (nd, s))"
  by auto

termination
  by (relation "measure (\<lambda>(me, fuel, nd, rest, s). length rest)") (auto intro: after_component_shorter)

declare findnode_walk.simps [simp del]

definition findnode_fs :: "u32 \<Rightarrow> nat \<Rightarrow> string option \<Rightarrow> 'h fs \<Rightarrow> (addr \<times> 'h fs) option" where
  "findnode_fs me fuel name s =
     (case name of
        None \<Rightarrow> Some (0, s)
      | Some [] \<Rightarrow> None
      | Some (c # rest) \<Rightarrow> findnode_walk me fuel (if c = CHR ''/'' then fs_root s else 0) rest s)"

text \<open>
  The loop of \<^verbatim>\<open>open_fs\<close> also goes on behind the path as long as it stands at a directory, in which it then
  looks for the empty name. \<open>n\<close> bounds the rounds. The result is the last node and its directory, both 0 for
  null, and the last component.
\<close>

fun open_walk :: "u32 \<Rightarrow> nat \<Rightarrow> nat \<Rightarrow> addr \<Rightarrow> addr \<Rightarrow> string \<Rightarrow> string \<Rightarrow> 'h fs \<Rightarrow> (addr \<times> addr \<times> string \<times> 'h fs) option" where
  "open_walk me fuel 0 file_nd dir_nd fname rest s = None"
| "open_walk me fuel (Suc n) file_nd dir_nd fname rest s =
     (if rest \<noteq> [] \<or> file_nd \<noteq> 0 \<and> v_type (node s file_nd) = FS_DIRECTORY
      then if length (component rest) \<ge> MAX_FILENAME then None
           else (case finddir_fs me fuel file_nd (component rest) s of
                   None \<Rightarrow> None
                 | Some (nd, s) \<Rightarrow> open_walk me fuel n nd file_nd (component rest) (after_component rest) s)
      else Some (file_nd, dir_nd, fname, s))"

definition call_open :: "'h allocator \<Rightarrow> 'h deallocator \<Rightarrow> nat \<Rightarrow> fd \<Rightarrow> string option \<Rightarrow> 'h fs \<Rightarrow> (int \<times> fd \<times> 'h fs) option" where
  "call_open alloc free fuel file name s =
     (case v_open (node s (f_node file)) of
        No_Open \<Rightarrow> Some (0, file, s)
      | Initrd_Open \<Rightarrow> initrd_open alloc free fuel file name s
      | Kmsg_Open \<Rightarrow> Some (kmsg_open file name, file, s))"

definition open_fs :: "'h allocator \<Rightarrow> 'h deallocator \<Rightarrow> u32 \<Rightarrow> nat \<Rightarrow> nat \<Rightarrow> fd \<Rightarrow> string option \<Rightarrow> 'h fs \<Rightarrow> (int \<times> fd \<times> 'h fs) option" where
  "open_fs alloc free me fuel n file name s =
     (case name of
        None \<Rightarrow> Some (0, file, s)
      | Some [] \<Rightarrow> None
      | Some (c # rest) \<Rightarrow>
          (case open_walk me fuel n (if c = CHR ''/'' then fs_root s else 0) 0 [] rest s of
             None \<Rightarrow> None
           | Some (file_nd, dir_nd, fname, s) \<Rightarrow>
               if file_nd \<noteq> 0
               then locked_call me file_nd (call_open alloc free fuel (file\<lparr>f_node := file_nd\<rparr>) None) s
               else if dir_nd \<noteq> 0
               then locked_call me dir_nd (call_open alloc free fuel (file\<lparr>f_node := dir_nd\<rparr>) (Some fname)) s
               else Some (- ENOENT, file, s)))"

section \<open>Building the tree\<close>

text \<open>
  The loop of \<^verbatim>\<open>kmsg_init\<close> differs from the others: it does not go on to the next block list, so that it never
  ends in a full directory.
\<close>

fun kmsg_add :: "'h allocator \<Rightarrow> nat \<Rightarrow> blref \<Rightarrow> string \<Rightarrow> addr \<Rightarrow> 'h fs \<Rightarrow> 'h fs option" where
  "kmsg_add alloc 0 r name nd s = None"
| "kmsg_add alloc (Suc n) r name nd s =
     (case unused_entry s (entries s r) of
        Some (d, j) \<Rightarrow> Some (set_entry d j \<lparr>d_name = cut_name name, d_node = nd\<rparr> s)
      | None \<Rightarrow> (case ensure_next alloc r s of None \<Rightarrow> None | Some s \<Rightarrow> kmsg_add alloc n r name nd s))"

definition kmsg_node :: vfs_node where
  "kmsg_node = (let x = no_node\<lparr>v_type := FS_CHARDEVICE, v_open := Kmsg_Open, v_close := Kmsg_Close, v_read := Kmsg_Read, v_write := No_Write\<rparr>
                in x\<lparr>v_lock := init_lock (v_lock x)\<rparr>)"

definition kmsg_init :: "'h allocator \<Rightarrow> u32 \<Rightarrow> nat \<Rightarrow> addr \<Rightarrow> string option \<Rightarrow> 'h fs \<Rightarrow> (int \<times> 'h fs) option" where
  "kmsg_init alloc me fuel nd name s =
     (case name of
        None \<Rightarrow> Some (- EINVAL, s)
      | Some name \<Rightarrow>
          if nd = 0 \<or> v_type (node s nd) \<noteq> FS_DIRECTORY then Some (- EINVAL, s)
          else (case finddir_fs me fuel nd name s of
             None \<Rightarrow> None
           | Some (found, s) \<Rightarrow>
               if found \<noteq> 0 then Some (- EINVAL, s)
               else (case kalloc alloc SIZEOF_NODE s of
                  None \<Rightarrow> None
                | Some (new, s) \<Rightarrow>
                    if new = 0 then Some (- ENOMEM, s)
                    else map_option (Pair 0) (kmsg_add alloc fuel (In_Node nd) name new (upd_vnode new (\<lambda>_. kmsg_node) s)))))"

text \<open>A module as the boot loader leaves it in memory.\<close>

record initrd_file_desc =
  i_length :: u32
  i_offset :: u32
  i_fname :: string

record initrd_module =
  mod_start :: addr
  magic :: u32
  mount_point :: string
  files :: "initrd_file_desc list"

definition INITRD_MAGIC_NUMBER :: u32 where [simp]: "INITRD_MAGIC_NUMBER = 0x4711"

definition mount_file :: "'h allocator \<Rightarrow> u32 \<Rightarrow> nat \<Rightarrow> addr \<Rightarrow> addr \<Rightarrow> initrd_file_desc \<Rightarrow> 'h fs \<Rightarrow> 'h fs option" where
  "mount_file alloc me fuel start dir fdesc s =
     (case finddir_fs me fuel dir (i_fname fdesc) s of
        None \<Rightarrow> None
      | Some (found, s) \<Rightarrow>
          if found \<noteq> 0 then Some s
          else (case kalloc alloc SIZEOF_NODE s of
             None \<Rightarrow> None
           | Some (new, s) \<Rightarrow>
               if new = 0 then Some s
               else let s = upd_vnode new (\<lambda>_. file_node\<lparr>block_size := i_length fdesc\<rparr>) s;
                        s = upd_blist (In_Node new) (\<lambda>b. b\<lparr>data := (data b)(0 := start + i_offset fdesc)\<rparr>) s
                    in map_option snd (add_entry alloc fuel (In_Node dir) (i_fname fdesc) new s)))"

definition mount_module :: "'h allocator \<Rightarrow> u32 \<Rightarrow> nat \<Rightarrow> initrd_module \<Rightarrow> 'h fs \<Rightarrow> 'h fs option" where
  "mount_module alloc me fuel m s =
     (if magic m \<noteq> INITRD_MAGIC_NUMBER then Some s
      else case findnode_fs me fuel (Some (mount_point m)) s of
        None \<Rightarrow> None
      | Some (dir, s) \<Rightarrow>
          if dir = 0 \<or> v_type (node s dir) \<noteq> FS_DIRECTORY then Some s
          else foldM (mount_file alloc me fuel (mod_start m) dir) (files m) s)"

text \<open>\<open>root\<close> is the address of \<^verbatim>\<open>initrd_root\<close>; \<open>mods\<close> the modules of the boot loader, none when it gives none.\<close>

definition initrd_init :: "'h allocator \<Rightarrow> 'h deallocator \<Rightarrow> u32 \<Rightarrow> nat \<Rightarrow> addr \<Rightarrow> initrd_module list \<Rightarrow> 'h fs \<Rightarrow> (int \<times> 'h fs) option" where
  "initrd_init alloc free me fuel root mods s =
     (let s = upd_vnode root (\<lambda>_. dir_node) (s\<lparr>fs_root := root\<rparr>) in
      case kalloc alloc SIZEOF_DIR_BLOCK s of
        None \<Rightarrow> None
      | Some (d, s) \<Rightarrow>
          if d = 0 then Some (- ENOMEM, s)
          else (case foldM (\<lambda>name s. map_option snd (mkdir_fs alloc free me fuel root name s))
                       [''bin'', ''sbin'', ''dev'', ''tmp''] (fill_dir d root root s) of
                  None \<Rightarrow> None
                | Some s \<Rightarrow>
                    (case mkdir_fs alloc free me fuel root ''var'' s of
                       None \<Rightarrow> None
                     | Some (var, s) \<Rightarrow>
                         (case kmsg_init alloc me fuel var (Some ''log'') s of
                            None \<Rightarrow> None
                          | Some (_, s) \<Rightarrow> map_option (Pair 0) (foldM (mount_module alloc me fuel) mods s)))))"

section \<open>Lookup in a directory\<close>

text \<open>\<open>chain_ok n s r\<close>: the block lists from \<open>r\<close> on end after at most \<open>n\<close>; \<open>all_entries\<close> are their entries.\<close>

fun chain_ok :: "nat \<Rightarrow> 'h fs \<Rightarrow> blref \<Rightarrow> bool" where
  "chain_ok 0 s r \<longleftrightarrow> False"
| "chain_ok (Suc n) s r \<longleftrightarrow> b_next (blist s r) = 0 \<or> chain_ok n s (At (b_next (blist s r)))"

fun all_entries :: "nat \<Rightarrow> 'h fs \<Rightarrow> blref \<Rightarrow> (addr \<times> nat) list" where
  "all_entries 0 s r = []"
| "all_entries (Suc n) s r =
     entries s r @ (if b_next (blist s r) = 0 then [] else all_entries n s (At (b_next (blist s r))))"

definition entry_list :: "'h fs \<Rightarrow> (addr \<times> nat) list \<Rightarrow> dirent list" where
  "entry_list s es = map (\<lambda>(d, j). dirs s d j) es"

lemma first_named_find:
  "first_named s es name = map_option (\<lambda>(d, j). d_node (dirs s d j)) (find (\<lambda>(d, j). same_name (dirs s d j) name) es)"
  by (induction s es name rule: first_named.induct) auto

lemma unused_entry_find: "unused_entry s es = find (\<lambda>(d, j). d_node (dirs s d j) = 0) es"
  by (induction s es rule: unused_entry.induct) auto

lemma find_append: "find P (xs @ ys) = (case find P xs of None \<Rightarrow> find P ys | Some x \<Rightarrow> Some x)"
  by (induction xs) auto

lemma finddir_walk_all:
  "chain_ok n s r \<Longrightarrow> finddir_walk n s r name
     = Some (case first_named s (all_entries n s r) name of None \<Rightarrow> 0 | Some nd \<Rightarrow> nd)"
  by (induction n s r rule: chain_ok.induct)
     (auto simp: first_named_find find_append split: option.splits)

text \<open>An empty block list at the end of the chain gives no place for an entry.\<close>

lemma blist_upd:
  "blist (upd_blist r f s) q = (if q = r then f (blist s r) else blist s q)"
  "blist (s\<lparr>fs_heap := h\<rparr>) q = blist s q" "dirs (upd_blist r f s) = dirs s" "dirs (upd_vnode nd g s) = dirs s"
  by (auto simp: blist_def upd_blist_def upd_vnode_def split: blref.splits)

lemma entries_no_blocks: "blist s r = no_blocks \<Longrightarrow> entries s r = []"
  by (simp add: entries_def no_blocks_def)

lemma ensure_next_cases:
  assumes "ensure_next alloc r s = Some s'" and "b_next (blist s r) = 0"
  obtains h where "b_next (blist s' r) = 0" "s' = upd_blist r (\<lambda>b. b\<lparr>b_next := 0\<rparr>) (s\<lparr>fs_heap := h\<rparr>)"
  | a where "a \<noteq> 0" "b_next (blist s' r) = a \<or> r = At a" "blist s' (At a) = no_blocks" "\<forall>q. q \<noteq> r \<and> q \<noteq> At a \<longrightarrow> blist s' q = blist s q"
      "dirs s' = dirs s"
proof -
  obtain a h where "alloc SIZEOF_BLOCK_LIST (fs_heap s) = Some (a, h)"
    "s' = (let s = upd_blist r (\<lambda>b. b\<lparr>b_next := a\<rparr>) (s\<lparr>fs_heap := h\<rparr>) in if a \<noteq> 0 then upd_blist (At a) (\<lambda>_. no_blocks) s else s)"
    using assms by (auto simp: ensure_next_def kalloc_def Let_def split: option.splits)
  then show ?thesis using that by (cases "a = 0") (auto simp: blist_upd Let_def)
qed

lemma add_entry_empty: "blist s r = no_blocks \<Longrightarrow> add_entry alloc n r name nd s \<noteq> Some (True, s')"
proof (induction n arbitrary: s r)
  case (Suc n)
  have "unused_entry s (entries s r) = None" using entries_no_blocks [OF Suc.prems] by simp
  moreover have False if e: "ensure_next alloc r s = Some t" "b_next (blist t r) \<noteq> 0"
      "add_entry alloc n (At (b_next (blist t r))) name nd t = Some (True, s')" for t
  proof -
    have b: "b_next (blist s r) = 0" using Suc.prems by (simp add: no_blocks_def)
    from e(1) b show False
    proof (cases rule: ensure_next_cases)
      case (2 a)
      then have "r \<noteq> At a" using e(2) by (auto simp: no_blocks_def)
      then show False using 2 Suc.IH [of t "At a"] e(3) by auto
    qed (use e(2) in simp)
  qed
  ultimately show ?case by (auto split: option.splits if_splits)
qed simp

lemma chain_cong_lists:
  assumes "\<And>a. blists s' a = blists s a" and "blist s' r = blist s r"
  shows "chain_ok n s' r = chain_ok n s r" and "all_entries n s' r = all_entries n s r"
proof -
  have "chain_ok n s' r = chain_ok n s r \<and> all_entries n s' r = all_entries n s r" using assms(2)
  proof (induction n arbitrary: r)
    case (Suc n)
    have "blist s' (At (b_next (blist s r))) = blist s (At (b_next (blist s r)))" using assms(1) by (simp add: blist_def)
    moreover have "entries s' r = entries s r" using Suc.prems by (simp add: entries_def cong: if_cong)
    ultimately show ?case using Suc.IH Suc.prems by auto
  qed simp
  then show "chain_ok n s' r = chain_ok n s r" "all_entries n s' r = all_entries n s r" by simp_all
qed

lemma add_entry_first:
  "\<lbrakk>chain_ok n s r; unused_entry s (all_entries n s r) = Some (d, j)\<rbrakk> \<Longrightarrow>
   add_entry alloc n r name nd s = Some (True, set_entry d j \<lparr>d_name = cut_name name, d_node = nd\<rparr> s)"
proof (induction n arbitrary: r)
  case (Suc n)
  then show ?case
    by (auto simp: unused_entry_find find_append ensure_next_def split: option.splits if_splits)
qed simp

lemma add_entry_full:
  "\<lbrakk>chain_ok n s r; unused_entry s (all_entries n s r) = None; alloc SIZEOF_BLOCK_LIST (fs_heap s) = Some (0, h)\<rbrakk> \<Longrightarrow>
   \<exists>q. b_next (blist s q) = 0 \<and> add_entry alloc n r name nd s = Some (False, upd_blist q (\<lambda>b. b\<lparr>b_next := 0\<rparr>) (s\<lparr>fs_heap := h\<rparr>))"
proof (induction n arbitrary: r)
  case (Suc n)
  have u: "unused_entry s (entries s r) = None" using Suc.prems(2) by (simp add: unused_entry_find find_append split: option.splits)
  show ?case
  proof (cases "b_next (blist s r) = 0")
    case True
    then show ?thesis using u Suc.prems(3) by (auto simp: ensure_next_def kalloc_def blist_upd)
  next
    case False
    then have "chain_ok n s (At (b_next (blist s r)))" "unused_entry s (all_entries n s (At (b_next (blist s r)))) = None"
      using Suc.prems(1,2) by (simp_all add: unused_entry_find find_append split: option.splits)
    from Suc.IH [OF this Suc.prems(3)] show ?thesis using False u by (auto simp: ensure_next_def)
  qed
qed simp

lemma next_zero_same: "b_next (blist s q) = 0 \<Longrightarrow> blist (upd_blist q (\<lambda>b. b\<lparr>b_next := 0\<rparr>) s) r = blist s r"
  by (simp add: blist_upd)

text \<open>A lookup depends on the entries alone.\<close>

lemma find_set_entry:
  assumes "find P es = Some x" and "Q x" and "\<And>e. e \<in> set es \<Longrightarrow> e \<noteq> x \<Longrightarrow> \<not> Q e"
  shows "find Q es = Some x"
  using assms by (induction es) (auto split: if_splits)

lemma find_SomeD: "find P es = Some x \<Longrightarrow> x \<in> set es \<and> P x"
  by (induction es) (auto split: if_splits)

lemma find_irrelevant: "(\<And>e. e \<in> set es \<Longrightarrow> P e = Q e) \<Longrightarrow> find P es = find Q es"
  by (induction es) auto

text \<open>Entering a new name: it is found, and every other name is found as before.\<close>

lemma lookup_after_set:
  fixes nd :: addr
  assumes "unused_entry s es = Some (d, j)" and "first_named s es name = None \<or> first_named s es name = Some 0"
    and free: "\<And>d j. (d, j) \<in> set es \<Longrightarrow> d_node (dirs s d j) = 0 \<Longrightarrow> d_name (dirs s d j) = []"
    and "name \<noteq> []"
  defines "s' \<equiv> set_entry d j \<lparr>d_name = cut_name name, d_node = nd\<rparr> s"
  shows "first_named s' es name = Some nd"
    and "other \<noteq> [] \<Longrightarrow> cut_name other \<noteq> cut_name name \<Longrightarrow> first_named s' es other = first_named s es other"
proof -
  have dj: "(d, j) \<in> set es" "d_node (dirs s d j) = 0"
    using assms(1) find_SomeD [of _ es "(d, j)"] by (fastforce simp: unused_entry_find)+
  then have empty: "d_name (dirs s d j) = []" by (rule free)
  have cut: "cut_name (cut_name x) = cut_name x" "cut_name x = [] \<longleftrightarrow> x = []" for x
    by (auto simp: cut_name_def)
  have no: "\<not> same_name (dirs s d' j') name" if e: "(d', j') \<in> set es" for d' j'
  proof
    assume m: "same_name (dirs s d' j') name"
    then obtain d2 j2 where f: "find (\<lambda>(d, j). same_name (dirs s d j) name) es = Some (d2, j2)"
      using e by (cases "find (\<lambda>(d, j). same_name (dirs s d j) name) es") (auto simp: find_None_iff)
    then have "(d2, j2) \<in> set es" "same_name (dirs s d2 j2) name" "d_node (dirs s d2 j2) = 0"
      using assms(2) find_SomeD [OF f] by (auto simp: first_named_find)
    then show False using free [of d2 j2] \<open>name \<noteq> []\<close> cut(2) [of name] by (simp add: same_name_def cut_name_def)
  qed
  have d': "dirs s' d2 j2 = (if d2 = d \<and> j2 = j then \<lparr>d_name = cut_name name, d_node = nd\<rparr> else dirs s d2 j2)" for d2 j2
    by (simp add: s'_def set_entry_def)
  have "find (\<lambda>(d, j). same_name (dirs s' d j) name) es = Some (d, j)"
  proof (rule find_set_entry [where P = "\<lambda>(d, j). d_node (dirs s d j) = 0"])
    show "find (\<lambda>(d, j). d_node (dirs s d j) = 0) es = Some (d, j)" using assms(1) by (simp add: unused_entry_find)
    show "case (d, j) of (d, j) \<Rightarrow> same_name (dirs s' d j) name" by (simp add: d' same_name_def cut)
    show "\<not> (case e of (d, j) \<Rightarrow> same_name (dirs s' d j) name)" if "e \<in> set es" "e \<noteq> (d, j)" for e
      using no that by (cases e) (auto simp: d')
  qed
  then show "first_named s' es name = Some nd" by (simp add: first_named_find d')
  assume o: "other \<noteq> []" "cut_name other \<noteq> cut_name name"
  have f: "find (\<lambda>(d, j). same_name (dirs s' d j) other) es = find (\<lambda>(d, j). same_name (dirs s d j) other) es"
    using o empty cut(2) [of other] by (intro find_irrelevant) (auto simp: d' same_name_def cut cut_name_def)
  have *: "\<not> same_name (dirs s d j) other" using o(1) empty cut(2) [of other] by (simp add: same_name_def cut_name_def)
  show "first_named s' es other = first_named s es other"
  proof (cases "find (\<lambda>(d, j). same_name (dirs s d j) other) es")
    case (Some e)
    then have "same_name (dirs s (fst e) (snd e)) other" using find_SomeD [OF Some] by (cases e) simp
    then have "e \<noteq> (d, j)" using * by auto
    with Some f show ?thesis by (cases e) (auto simp: first_named_find d')
  qed (use f in \<open>simp add: first_named_find\<close>)
qed

lemma entries_cong_dirs:
  assumes "\<And>d j. (d, j) \<in> set es \<Longrightarrow> dirs s' d j = dirs s d j"
  shows "first_named s' es name = first_named s es name" and "unused_entry s' es = unused_entry s es"
  using assms by (induction es) auto

lemma finddir_all:
  "chain_ok fuel s (In_Node nd) \<Longrightarrow> initrd_finddir fuel nd name s
     = Some (case first_named s (all_entries fuel s (In_Node nd)) name of None \<Rightarrow> 0 | Some nd \<Rightarrow> nd)"
  by (simp add: initrd_finddir_def finddir_walk_all)

text \<open>What \<open>fill_dir\<close> does to the other directories, and to its own.\<close>

lemma fill_dir_fields:
  "blists (fill_dir d self parent s) = blists s"
  "r \<noteq> In_Node self \<Longrightarrow> blist (fill_dir d self parent s) r = blist s r"
  "d' \<noteq> d \<Longrightarrow> dirs (fill_dir d self parent s) d' = dirs s d'"
  "fs_heap (fill_dir d self parent s) = fs_heap s"
  "v_type (node (fill_dir d self parent s) nd) = v_type (node s nd)"
  by (auto simp: fill_dir_def Let_def set_entry_def upd_blist_def upd_vnode_def blist_def split: blref.splits)

lemma first_block_entries:
  assumes "d \<noteq> 0" and "data (blist s r) = (\<lambda>_. 0)(0 := d)"
  shows "entries s r = map (Pair d) [0..<32]"
proof -
  have "concat (map (\<lambda>i. if data (blist s r) i = 0 then [] else map (Pair (data (blist s r) i)) [0..<MAX_DIRENTRIES]) [1..<12]) = []"
    using assms by simp
  moreover have "[0..<12] = 0 # [1..<12]" by (simp add: upt_rec)
  ultimately show ?thesis using assms by (simp add: entries_def)
qed

definition new_dir :: "addr \<Rightarrow> vfs_node" where
  "new_dir blk = dir_node\<lparr>v_blocks := no_blocks\<lparr>data := (\<lambda>_. 0)(0 := blk)\<rparr>\<rparr>"

definition new_block :: "addr \<Rightarrow> addr \<Rightarrow> nat \<Rightarrow> dirent" where
  "new_block self parent = (\<lambda>_. no_entry)(0 := \<lparr>d_name = ''.'', d_node = self\<rparr>, 1 := \<lparr>d_name = ''..'', d_node = parent\<rparr>)"

lemma mkdir_result:
  assumes "v_type (node s nd) = FS_DIRECTORY" and "chain_ok fuel s (In_Node nd)"
    and "unused_entry s (all_entries fuel s (In_Node nd)) = Some (d, j)"
    and "initrd_finddir fuel nd name s = Some 0"
    and "alloc SIZEOF_NODE (fs_heap s) = Some (new, h1)" and "alloc SIZEOF_DIR_BLOCK h1 = Some (blk, h2)"
    and "new \<noteq> 0" "new \<noteq> nd" "blk \<noteq> 0" "blk \<notin> fst ` set (all_entries fuel s (In_Node nd))"
  shows "\<exists>s'. initrd_mkdir alloc free fuel nd name s = Some (new, s') \<and> blists s' = blists s
    \<and> node s' = (node s)(new := new_dir blk)
    \<and> dirs s' = (dirs s)(blk := new_block new nd, d := (dirs s d)(j := \<lparr>d_name = cut_name name, d_node = new\<rparr>))"
proof -
  define s2 where "s2 = fill_dir blk new nd ((upd_vnode new (\<lambda>_. dir_node) (s\<lparr>fs_heap := h1\<rparr>))\<lparr>fs_heap := h2\<rparr>)"
  have s2: "blists s2 = blists s" "node s2 = (node s)(new := new_dir blk)" "dirs s2 = (dirs s)(blk := new_block new nd)"
    by (auto simp: s2_def fill_dir_def Let_def set_entry_def upd_blist_def upd_vnode_def new_dir_def new_block_def cut_name_def
        dir_node_def no_node_def no_blocks_def)
  have "blist s2 (In_Node nd) = blist s (In_Node nd)" using assms(8) by (simp add: blist_def s2)
  then have same: "chain_ok fuel s2 (In_Node nd)" "all_entries fuel s2 (In_Node nd) = all_entries fuel s (In_Node nd)"
    using chain_cong_lists [of s2 s "In_Node nd" fuel] assms(2) s2(1) by simp_all
  have "dirs s2 d' j' = dirs s d' j'" if "(d', j') \<in> set (all_entries fuel s (In_Node nd))" for d' j'
    using assms(10) that by (force simp: s2(3))
  then have "unused_entry s2 (all_entries fuel s2 (In_Node nd)) = Some (d, j)"
    using entries_cong_dirs(2) [of "all_entries fuel s (In_Node nd)" s2 s] assms(3) same(2) by simp
  note add = add_entry_first [OF same(1) this, of alloc name new]
  have "(d, j) \<in> set (all_entries fuel s (In_Node nd))" using assms(3) find_SomeD by (fastforce simp: unused_entry_find)
  then have "d \<noteq> blk" using assms(10) by force
  have "initrd_mkdir alloc free fuel nd name s = Some (new, set_entry d j \<lparr>d_name = cut_name name, d_node = new\<rparr> s2)"
    using assms(1,4-7,9) add by (simp add: initrd_mkdir_def kalloc_def s2_def upd_vnode_def)
  then show ?thesis using \<open>d \<noteq> blk\<close> by (simp add: set_entry_def s2)
qed

lemma new_dir_lookup:
  assumes "d \<noteq> 0" and "fuel > 0" and "node s self = new_dir d" and "dirs s d = new_block self parent"
  shows "initrd_finddir fuel self ''.'' s = Some self" and "initrd_finddir fuel self ''..'' s = Some parent"
proof -
  have e: "entries s (In_Node self) = map (Pair d) [0..<32]"
    using assms(1,3) by (intro first_block_entries) (simp_all add: blist_def new_dir_def no_blocks_def)
  have "[0..<32] = 0 # Suc 0 # [2..<32]" by (simp add: upt_rec)
  then show "initrd_finddir fuel self ''.'' s = Some self" "initrd_finddir fuel self ''..'' s = Some parent"
    using assms(2,4) by (cases fuel; simp add: initrd_finddir_def e same_name_def cut_name_def new_block_def)+
qed

text \<open>
  C16: \<^verbatim>\<open>mkdir\<close> with a new name in a directory that has a free entry makes a directory: the name is then
  found and leads to the new node, every other name is found as before, and in the new directory
  \<^verbatim>\<open>.\<close> is itself and \<^verbatim>\<open>..\<close> is the parent.
\<close>

theorem mkdir_finddir:
  assumes "v_type (node s nd) = FS_DIRECTORY" and "chain_ok fuel s (In_Node nd)"
    and "unused_entry s (all_entries fuel s (In_Node nd)) \<noteq> None"
    and "\<forall>(d, j) \<in> set (all_entries fuel s (In_Node nd)). d_node (dirs s d j) = 0 \<longrightarrow> d_name (dirs s d j) = []"
    and "name \<noteq> []" and "initrd_finddir fuel nd name s = Some 0"
    and "alloc SIZEOF_NODE (fs_heap s) = Some (new, h1)" and "alloc SIZEOF_DIR_BLOCK h1 = Some (blk, h2)"
    and "new \<noteq> 0" "new \<noteq> nd" "blk \<noteq> 0" "blk \<notin> fst ` set (all_entries fuel s (In_Node nd))"
  shows "\<exists>s'. initrd_mkdir alloc free fuel nd name s = Some (new, s')
    \<and> initrd_finddir fuel nd name s' = Some new
    \<and> (\<forall>other. other \<noteq> [] \<and> cut_name other \<noteq> cut_name name \<longrightarrow> initrd_finddir fuel nd other s' = initrd_finddir fuel nd other s)
    \<and> v_type (node s' new) = FS_DIRECTORY
    \<and> initrd_finddir fuel new ''.'' s' = Some new \<and> initrd_finddir fuel new ''..'' s' = Some nd"
proof -
  define es where "es = all_entries fuel s (In_Node nd)"
  obtain d j where u: "unused_entry s es = Some (d, j)" using assms(3) by (auto simp: es_def)
  obtain s' where s': "initrd_mkdir alloc free fuel nd name s = Some (new, s')" "blists s' = blists s"
    "node s' = (node s)(new := new_dir blk)"
    "dirs s' = (dirs s)(blk := new_block new nd, d := (dirs s d)(j := \<lparr>d_name = cut_name name, d_node = new\<rparr>))"
    using mkdir_result [OF assms(1,2) u [unfolded es_def] assms(6-12)] by blast
  have "(d, j) \<in> set es" using u find_SomeD by (fastforce simp: unused_entry_find)
  then have db: "d \<noteq> blk" using assms(12) by (force simp: es_def)
  define t where "t = set_entry d j \<lparr>d_name = cut_name name, d_node = new\<rparr> s"
  have "dirs s' d' j' = dirs t d' j'" if "(d', j') \<in> set es" for d' j'
    using assms(12) that by (force simp: s'(4) t_def set_entry_def es_def)
  note like_t = entries_cong_dirs(1) [of es s' t, OF this]
  have "first_named s es name = None \<or> first_named s es name = Some 0"
    using assms(6) finddir_all [OF assms(2)] by (auto simp: es_def split: option.splits)
  note after = lookup_after_set [OF u this _ assms(5), where nd = new, folded t_def]
  have free: "d_name (dirs s d' j') = []" if "(d', j') \<in> set es" "d_node (dirs s d' j') = 0" for d' j'
    using assms(4) that by (auto simp: es_def)
  have "blist s' (In_Node nd) = blist s (In_Node nd)" using assms(10) by (simp add: blist_def s'(3))
  then have same: "chain_ok fuel s' (In_Node nd)" "all_entries fuel s' (In_Node nd) = es"
    using chain_cong_lists [of s' s "In_Node nd" fuel] assms(2) by (simp_all add: s'(2) es_def)
  have "initrd_finddir fuel nd name s' = Some new"
    using finddir_all [OF same(1)] after(1) free by (simp add: same(2) like_t)
  moreover have "initrd_finddir fuel nd other s' = initrd_finddir fuel nd other s" if "other \<noteq> [] \<and> cut_name other \<noteq> cut_name name" for other
    using finddir_all [OF same(1)] finddir_all [OF assms(2)] after(2) [OF free, of other] that
    by (simp add: same(2) like_t es_def [symmetric])
  moreover have "v_type (node s' new) = FS_DIRECTORY" by (simp add: s'(3) new_dir_def dir_node_def Let_def)
  moreover have "fuel > 0" using assms(2) by (cases fuel) auto
  ultimately show ?thesis using s'(1) new_dir_lookup [OF assms(11), of fuel s' new nd] db by (auto simp: s'(3,4))
qed

text \<open>A file system with an empty root directory.\<close>

definition root_fs :: "u32 fs" where
  "root_fs = fill_dir 200 100 100 (upd_vnode 100 (\<lambda>_. dir_node) empty_fs)"

lemma root_blist: "blist root_fs (In_Node 100) = no_blocks\<lparr>data := (\<lambda>_. 0)(0 := 200)\<rparr>"
  by (simp add: root_fs_def blist_def fill_dir_def Let_def set_entry_def upd_blist_def upd_vnode_def dir_node_def no_node_def no_blocks_def)

lemma root_entries:
  "entries root_fs (In_Node 100) = map (Pair 200) [0..<32]"
  "all_entries 1 root_fs (In_Node 100) = map (Pair 200) [0..<32]"
  using first_block_entries [of 200 root_fs "In_Node 100"] by (simp_all add: root_blist no_blocks_def)

lemma root_fields:
  "v_type (node root_fs 100) = FS_DIRECTORY" "chain_ok 1 root_fs (In_Node 100)" "fs_heap root_fs = 0x10000"
  "dirs root_fs 200 = (\<lambda>_. no_entry)(0 := \<lparr>d_name = ''.'', d_node = 100\<rparr>, 1 := \<lparr>d_name = ''..'', d_node = 100\<rparr>)"
  by (simp_all add: root_blist no_blocks_def)
     (simp_all add: root_fs_def fill_dir_def Let_def set_entry_def upd_blist_def upd_vnode_def dir_node_def no_node_def
        empty_fs_def cut_name_def)

lemma root_lookup: "name \<noteq> [] \<Longrightarrow> hd name \<noteq> CHR ''.'' \<Longrightarrow> initrd_finddir 1 100 name root_fs = Some 0"
proof -
  assume n: "name \<noteq> []" "hd name \<noteq> CHR ''.''"
  then have "\<not> same_name (dirs root_fs 200 j) name" for j
    by (cases name) (auto simp: root_fields(4) same_name_def cut_name_def no_entry_def)
  then have "first_named root_fs (map (Pair 200) js) name = None" for js by (induction js) simp_all
  then show ?thesis using finddir_all [OF root_fields(2)] by (simp add: root_entries root_blist no_blocks_def)
qed

lemma root_unused: "unused_entry root_fs (all_entries 1 root_fs (In_Node 100)) = Some (200, 2)"
proof -
  have "[0..<32] = 0 # 1 # 2 # [3..<32]" by (simp add: upt_rec)
  then show ?thesis unfolding root_entries by (simp add: root_fields(4) no_entry_def)
qed

theorem mkdir_finddir_witness:
  "\<exists>s'. initrd_mkdir bump (\<lambda>a h. Some h) 1 100 ''bin'' root_fs = Some (0x10000, s')
    \<and> initrd_finddir 1 100 ''bin'' s' = Some 0x10000"
proof -
  have a: "bump SIZEOF_NODE (fs_heap root_fs) = Some (0x10000, 0x10074)" "bump SIZEOF_DIR_BLOCK 0x10074 = Some (0x10074, 0x110F4)"
    by (simp_all add: root_fields bump_def)
  have n: "\<forall>(d, j)\<in>set (all_entries 1 root_fs (In_Node 100)). d_node (dirs root_fs d j) = 0 \<longrightarrow> d_name (dirs root_fs d j) = []"
    unfolding root_entries by (auto simp: root_fields(4) no_entry_def)
  have l: "initrd_finddir 1 100 ''bin'' root_fs = Some 0" by (rule root_lookup) simp_all
  have "(0x10074 :: addr) \<notin> fst ` set (all_entries 1 root_fs (In_Node 100))" unfolding root_entries by auto
  moreover have "unused_entry root_fs (all_entries 1 root_fs (In_Node 100)) \<noteq> None" by (simp only: root_unused) simp
  ultimately have "\<exists>s'. initrd_mkdir bump (\<lambda>a h. Some h) 1 100 ''bin'' root_fs = Some (0x10000, s')
    \<and> initrd_finddir 1 100 ''bin'' s' = Some 0x10000 \<and> (\<forall>other. other \<noteq> [] \<and> cut_name other \<noteq> cut_name ''bin'' \<longrightarrow>
        initrd_finddir 1 100 other s' = initrd_finddir 1 100 other root_fs)
    \<and> v_type (node s' 0x10000) = FS_DIRECTORY \<and> initrd_finddir 1 0x10000 ''.'' s' = Some 0x10000
    \<and> initrd_finddir 1 0x10000 ''..'' s' = Some 100"
    using mkdir_finddir [OF root_fields(1,2) _ n _ l a] by simp
  then show ?thesis by blast
qed

section \<open>Searching a path\<close>

text \<open>A lookup does not depend on the locks.\<close>

lemma walk_cong:
  fixes s s' :: "'h fs"
  assumes "\<And>r. blist s' r = blist s r" and "dirs s' = dirs s"
  shows "finddir_walk n s' r name = finddir_walk n s r name" "chain_ok n s' r = chain_ok n s r"
    "all_entries n s' r = all_entries n s r"
proof -
  have e: "entries s' r = entries s r" for r using assms(1) by (simp add: entries_def cong: if_cong)
  have "first_named s' es name = first_named s es name" for es using assms(2) by (induction es) auto
  then show "finddir_walk n s' r name = finddir_walk n s r name"
    by (induction n arbitrary: r) (auto simp: e assms(1) split: option.splits)
  show "chain_ok n s' r = chain_ok n s r" by (induction n arbitrary: r) (auto simp: assms(1))
  show "all_entries n s' r = all_entries n s r" by (induction n arbitrary: r) (auto simp: e assms(1))
qed

definition set_lock :: "addr \<Rightarrow> slock \<Rightarrow> 'h fs \<Rightarrow> 'h fs" where
  "set_lock nd l s = upd_vnode nd (\<lambda>x. x\<lparr>v_lock := l\<rparr>) s"

lemma set_lock_fields:
  "blist (set_lock nd l s) r = blist s r" "dirs (set_lock nd l s) = dirs s" "fs_root (set_lock nd l s) = fs_root s"
  "v_type (node (set_lock nd l s) n) = v_type (node s n)" "v_finddir (node (set_lock nd l s) n) = v_finddir (node s n)"
  "v_open (node (set_lock nd l s) n) = v_open (node s n)"
  "v_lock (node (set_lock nd l s) n) = (if n = nd then l else v_lock (node s n))"
  "set_lock nd l2 (set_lock nd l s) = set_lock nd l2 s"
  by (auto simp: set_lock_def upd_vnode_def blist_def split: blref.splits)

lemma set_lock_lookup: "initrd_finddir fuel n name (set_lock nd l s) = initrd_finddir fuel n name s"
  by (simp add: initrd_finddir_def walk_cong(1) [where s' = "set_lock nd l s" and s = s] set_lock_fields)

lemma set_lock_walk:
  "chain_ok n (set_lock nd l s) r = chain_ok n s r" "all_entries n (set_lock nd l s) r = all_entries n s r"
  by (rule walk_cong; simp add: set_lock_fields)+

lemma lock_node_free:
  fixes s :: "'h fs"
  assumes "slock_free (v_lock (node s nd))" and "me < 16"
  shows "\<exists>l. lock_node me nd s = Some (set_lock nd l s) \<and>
    (\<forall>t :: 'h fs. v_lock (node t nd) = l \<longrightarrow> (\<exists>l'. unlock_node nd t = set_lock nd l' t \<and> slock_free l'))"
  using s_lock_free [OF assms] by (auto simp: lock_node_def set_lock_def unlock_node_def upd_vnode_def)

lemma finddir_fs_lookup:
  fixes s :: "'h fs"
  assumes "nd \<noteq> 0" and "slock_free (v_lock (node s nd))" and "me < 16"
    and "v_type (node s nd) = FS_DIRECTORY \<Longrightarrow> chain_ok fuel s (In_Node nd)"
  shows "\<exists>l. slock_free l \<and> finddir_fs me fuel nd name s = Some
    (if v_type (node s nd) = FS_DIRECTORY \<and> v_finddir (node s nd) \<noteq> No_Finddir then the (initrd_finddir fuel nd name s) else 0, set_lock nd l s)"
proof -
  obtain l where l: "lock_node me nd s = Some (set_lock nd l s)"
    "\<And>t :: 'h fs. v_lock (node t nd) = l \<Longrightarrow> \<exists>l'. unlock_node nd t = set_lock nd l' t \<and> slock_free l'"
    using lock_node_free [OF assms(2,3)] by blast
  obtain l' where "unlock_node nd (set_lock nd l s) = set_lock nd l' s" "slock_free l'"
    using l(2) [of "set_lock nd l s"] by (auto simp: set_lock_fields)
  then show ?thesis using assms(1,4) l(1)
    by (auto simp: finddir_fs_def set_lock_fields set_lock_lookup finddir_all)
qed

text \<open>
  \<open>tree_ok N fuel s\<close>: the nodes \<open>N\<close> are free, the entries of every directory among them lead to nodes of \<open>N\<close>, none of
  its entries has the empty name, and its block lists end within \<open>fuel\<close>.
\<close>

definition node_ok :: "addr set \<Rightarrow> nat \<Rightarrow> 'h fs \<Rightarrow> addr \<Rightarrow> bool" where
  "node_ok N fuel s nd \<longleftrightarrow> slock_free (v_lock (node s nd)) \<and>
     (v_type (node s nd) = FS_DIRECTORY \<longrightarrow> chain_ok fuel s (In_Node nd) \<and>
        (\<forall>(d, j)\<in>set (all_entries fuel s (In_Node nd)). d_node (dirs s d j) = 0 \<or>
           d_node (dirs s d j) \<in> N \<and> d_name (dirs s d j) \<noteq> []))"

definition tree_ok :: "addr set \<Rightarrow> nat \<Rightarrow> 'h fs \<Rightarrow> bool" where
  "tree_ok N fuel s \<longleftrightarrow> (\<forall>nd\<in>N. node_ok N fuel s nd)"

lemma tree_ok_set_lock: "tree_ok N fuel s \<Longrightarrow> slock_free l \<Longrightarrow> tree_ok N fuel (set_lock nd l s)"
  by (auto simp: tree_ok_def node_ok_def set_lock_fields set_lock_walk)

lemma tree_ok_lookup:
  assumes "tree_ok N fuel s" and "nd \<in> N" and "v_type (node s nd) = FS_DIRECTORY"
  shows "the (initrd_finddir fuel nd name s) \<in> N \<union> {0}" and "the (initrd_finddir fuel nd [] s) = 0"
proof -
  let ?es = "all_entries fuel s (In_Node nd)"
  have ok: "chain_ok fuel s (In_Node nd)" "\<And>d j. (d, j) \<in> set ?es \<Longrightarrow> d_node (dirs s d j) = 0 \<or>
      d_node (dirs s d j) \<in> N \<and> d_name (dirs s d j) \<noteq> []"
    using assms by (auto simp: tree_ok_def node_ok_def)
  have "nd' \<in> N \<union> {0} \<and> (name = [] \<longrightarrow> nd' = 0)" if f: "first_named s ?es name = Some nd'" for nd' name
  proof -
    obtain d j where "find (\<lambda>(d, j). same_name (dirs s d j) name) ?es = Some (d, j)" "nd' = d_node (dirs s d j)"
      using f by (auto simp: first_named_find)
    moreover from this have "(d, j) \<in> set ?es" "same_name (dirs s d j) name" using find_SomeD by fastforce+
    ultimately show ?thesis using ok(2) [of d j] by (auto simp: same_name_def cut_name_def)
  qed
  then show "the (initrd_finddir fuel nd name s) \<in> N \<union> {0}" "the (initrd_finddir fuel nd [] s) = 0"
    using finddir_all [OF ok(1)] by (auto split: option.splits)
qed

lemma finddir_fs_tree:
  assumes "tree_ok N fuel s" and "nd \<in> N \<union> {0}" and "me < 16" and "0 \<notin> N"
  shows "\<exists>r s'. finddir_fs me fuel nd name s = Some (r, s') \<and> r \<in> N \<union> {0} \<and> tree_ok N fuel s' \<and> (name = [] \<longrightarrow> r = 0)"
proof (cases "nd = 0")
  case True
  then show ?thesis using assms(1) by (simp add: finddir_fs_def)
next
  case False
  then have n: "nd \<in> N" "slock_free (v_lock (node s nd))" "v_type (node s nd) = FS_DIRECTORY \<Longrightarrow> chain_ok fuel s (In_Node nd)"
    using assms by (auto simp: tree_ok_def node_ok_def)
  show ?thesis
    using finddir_fs_lookup [OF False n(2) assms(3) n(3), where name = name] tree_ok_lookup [OF assms(1) n(1)]
      tree_ok_set_lock [OF assms(1)] by fastforce
qed

definition short_path :: "string \<Rightarrow> bool" where
  "short_path p \<longleftrightarrow> (\<forall>i<length p. length (component (drop i p)) < MAX_FILENAME)"

lemma short_path_component: "short_path p \<Longrightarrow> length (component p) < MAX_FILENAME"
  by (cases p) (auto simp: short_path_def component_def dest: spec [of _ 0])

lemma short_path_after: "short_path p \<Longrightarrow> short_path (after_component p)"
proof -
  have "\<exists>k. after_component p = drop k p"
    using dropWhile_eq_drop [of "\<lambda>c. c \<noteq> CHR ''/''" p] by (auto simp: after_component_def)
  then obtain k where "after_component p = drop k p" by blast
  then show "short_path p \<Longrightarrow> short_path (after_component p)" by (auto simp: short_path_def add.commute)
qed

text \<open>
  C18: The search of \<^verbatim>\<open>open_fs\<close>, which at a directory goes on behind the end of the path, ends in every well-formed tree:
  \<^verbatim>\<open>length + 2\<close> rounds are enough, and it ends at a node of the tree or at none.
\<close>

theorem open_search_ends:
  assumes "tree_ok N fuel s" and "file_nd \<in> N \<union> {0}" and "0 \<notin> N" and "me < 16"
    and "short_path rest" and "length rest + 2 \<le> n"
  shows "\<exists>f d name s'. open_walk me fuel n file_nd dir_nd fname rest s = Some (f, d, name, s') \<and> f \<in> N \<union> {0} \<and> tree_ok N fuel s'"
  using assms
proof (induction n arbitrary: s file_nd dir_nd fname rest)
  case (Suc n)
  show ?case
  proof (cases "rest \<noteq> [] \<or> file_nd \<noteq> 0 \<and> v_type (node s file_nd) = FS_DIRECTORY")
    case True
    obtain r s1 where f: "finddir_fs me fuel file_nd (component rest) s = Some (r, s1)" "r \<in> N \<union> {0}" "tree_ok N fuel s1"
      "component rest = [] \<longrightarrow> r = 0"
      using finddir_fs_tree [OF Suc.prems(1,2,4,3)] by blast
    have "\<exists>f d name s'. open_walk me fuel n r file_nd (component rest) (after_component rest) s1 = Some (f, d, name, s')
      \<and> f \<in> N \<union> {0} \<and> tree_ok N fuel s'"
    proof (cases "rest = []")
      case True
      then have "r = 0" "after_component rest = []" using f(4) by (simp_all add: component_def after_component_def)
      then show ?thesis using Suc.prems(6) f(3) by (cases n) auto
    next
      case False
      then show ?thesis using Suc.prems after_component_shorter [OF False]
        by (intro Suc.IH [OF f(3,2)]) (auto intro: short_path_after)
    qed
    then show ?thesis using True f(1) short_path_component [OF Suc.prems(5)] by simp
  qed (use Suc.prems in auto)
qed simp

lemma root_tree: "tree_ok {100} 1 root_fs"
proof -
  have l: "slock_free (v_lock (node root_fs 100))"
    by (simp add: root_fs_def fill_dir_def Let_def set_entry_def upd_blist_def upd_vnode_def dir_node_def init_lock_def
        lock_init_def slock_free_def atomic_defs no_node_def)
  show ?thesis using root_fields(2) l
    by (auto simp: tree_ok_def node_ok_def root_entries root_fields(4) no_entry_def split: if_splits)
qed

theorem open_search_ends_witness:
  "\<exists>f d name s'. open_walk 3 1 7 100 0 [] ''bin/x'' root_fs = Some (f, d, name, s') \<and> f \<in> {100, 0} \<and> tree_ok {100} 1 s'"
proof -
  have "short_path ''bin/x''" by (simp add: short_path_def component_def numeral_eq_Suc All_less_Suc)
  then show ?thesis using open_search_ends [OF root_tree, of 100 3 "''bin/x''" 7 0 "[]"] by (simp add: disj_commute)
qed

lemma component_append:
  assumes "CHR ''/'' \<notin> set xs"
  shows "component (xs @ CHR ''/'' # ys) = xs" "after_component (xs @ CHR ''/'' # ys) = ys"
    "component xs = xs" "after_component xs = []"
  using assms by (induction xs) (auto simp: component_def after_component_def)

text \<open>
  A path that goes on behind a regular file is not refused: \<^verbatim>\<open>open_fs\<close> of \<^verbatim>\<open>/file/name\<close> opens \<^verbatim>\<open>/file\<close> itself and
  reports success.
\<close>

theorem open_through_file:
  assumes "tree_ok N fuel s" and "fs_root s \<in> N" "f \<in> N" "0 \<notin> N" and "me < 16"
    and "v_type (node s (fs_root s)) = FS_DIRECTORY" "v_finddir (node s (fs_root s)) \<noteq> No_Finddir"
    and "initrd_finddir fuel (fs_root s) dir s = Some f" and "v_type (node s f) = FS_FILE" "v_open (node s f) = Initrd_Open"
    and "CHR ''/'' \<notin> set dir" "dir \<noteq> []" "length dir < MAX_FILENAME"
    and "CHR ''/'' \<notin> set name" "name \<noteq> []" "length name < MAX_FILENAME"
    and "f_flags file AND O_CREAT = 0" "f_flags file AND O_TRUNC = 0" and "3 \<le> n"
  shows "\<exists>s'. open_fs alloc free me fuel n file (Some (''/'' @ dir @ ''/'' @ name)) s = Some (0, file\<lparr>f_node := f\<rparr>, s')"
proof -
  let ?r = "fs_root s"
  have nz: "?r \<noteq> 0" "f \<noteq> 0" using assms(2-4) by auto
  have p: "component (dir @ CHR ''/'' # name) = dir" "after_component (dir @ CHR ''/'' # name) = name"
    "component name = name" "after_component name = []"
    using component_append assms(11,14) by auto
  have free: "slock_free (v_lock (node s x))" if "x \<in> N" for x using assms(1) that by (auto simp: tree_ok_def node_ok_def)
  have ch: "chain_ok fuel s (In_Node ?r)" using assms(1,2,6) by (auto simp: tree_ok_def node_ok_def)
  obtain l1 where l1: "slock_free l1" "finddir_fs me fuel ?r dir s = Some (f, set_lock ?r l1 s)"
    using finddir_fs_lookup [OF nz(1) free [OF assms(2)] assms(5) ch, of dir] assms(6-8) by auto
  let ?s1 = "set_lock ?r l1 s"
  have free1: "slock_free (v_lock (node ?s1 f))" using l1(1) free [OF assms(3)] by (simp add: set_lock_fields)
  have t1: "v_type (node ?s1 f) = FS_FILE" "v_open (node ?s1 f) = Initrd_Open" using assms(9,10) by (simp_all add: set_lock_fields)
  obtain l2 where l2: "slock_free l2" "finddir_fs me fuel f name ?s1 = Some (0, set_lock f l2 ?s1)"
    using finddir_fs_lookup [OF nz(2) free1 assms(5), of fuel name] t1 by auto
  let ?s2 = "set_lock f l2 ?s1"
  have t2: "v_type (node ?s2 f) = FS_FILE" "v_open (node ?s2 f) = Initrd_Open" using t1 by (simp_all add: set_lock_fields)
  obtain l3 where l3: "lock_node me f ?s2 = Some (set_lock f l3 ?s2)"
    using lock_node_free [of ?s2 f me] l2(1) assms(5) by (auto simp: set_lock_fields)
  obtain m where n: "n = Suc (Suc (Suc m))" using le_Suc_ex [OF assms(19)] by (auto simp: numeral_3_eq_3)
  have w: "open_walk me fuel n ?r 0 [] (dir @ CHR ''/'' # name) s = Some (0, f, name, ?s2)"
    using nz assms(12,13,15,16) l1(2) l2(2) t1 by (simp add: n p)
  have c: "call_open alloc free fuel (file\<lparr>f_node := f\<rparr>) (Some name) (set_lock f l3 ?s2)
      = Some (0, file\<lparr>f_node := f\<rparr>, set_lock f l3 ?s2)"
    using t2 assms(17,18) by (simp add: call_open_def initrd_open_def set_lock_fields)
  have "open_fs alloc free me fuel n file (Some (''/'' @ dir @ ''/'' @ name)) s
      = locked_call me f (call_open alloc free fuel (file\<lparr>f_node := f\<rparr>) (Some name)) ?s2"
    using w nz(2) by (simp add: open_fs_def)
  then show ?thesis using l3 c by (simp add: locked_call_def)
qed

text \<open>A root directory with the file \<^verbatim>\<open>log\<close>.\<close>

definition log_fs :: "u32 fs" where
  "log_fs = set_entry 200 2 \<lparr>d_name = ''log'', d_node = 300\<rparr> (upd_vnode 300 (\<lambda>_. file_node) root_fs)"

lemma log_fields:
  "node log_fs = (node root_fs)(300 := file_node)" "fs_root log_fs = 100"
  "blist log_fs (In_Node 100) = blist root_fs (In_Node 100)"
  "dirs log_fs 200 = (dirs root_fs 200)(2 := \<lparr>d_name = ''log'', d_node = 300\<rparr>)"
  by (simp_all add: log_fs_def set_entry_def upd_vnode_def root_fs_def fill_dir_def Let_def upd_blist_def empty_fs_def blist_def)

lemma log_entries: "entries log_fs (In_Node 100) = map (Pair 200) [0..<32]"
  using first_block_entries [of 200 log_fs "In_Node 100"] by (simp add: log_fields(3) root_blist no_blocks_def)

lemma log_tree: "tree_ok {100, 300} 1 log_fs"
proof -
  have "slock_free (v_lock (node log_fs 100))" "slock_free (v_lock (node log_fs 300))"
    using root_tree by (simp_all add: log_fields tree_ok_def node_ok_def file_node_def init_lock_def lock_init_def slock_free_def
        atomic_defs no_node_def Let_def)
  then show ?thesis
    by (auto simp: tree_ok_def node_ok_def log_entries log_fields root_blist no_blocks_def root_fields(4) no_entry_def file_node_def Let_def
        split: if_splits)
qed

lemma log_lookup: "initrd_finddir 1 100 ''log'' log_fs = Some 300"
proof -
  have "[0..<32] = 0 # 1 # 2 # [3..<32]" by (simp add: upt_rec)
  then show ?thesis
    by (simp add: initrd_finddir_def log_entries log_fields(4) root_fields(4) no_entry_def same_name_def cut_name_def)
qed

theorem open_through_file_witness:
  "\<exists>s'. open_fs bump (\<lambda>a h. Some h) 3 1 5 \<lparr>f_node = 0, f_offset = 0, f_flags = 0\<rparr> (Some ''/log/x'') log_fs
     = Some (0, \<lparr>f_node = 300, f_offset = 0, f_flags = 0\<rparr>, s')"
proof -
  have r: "v_type (node log_fs (fs_root log_fs)) = FS_DIRECTORY" "v_finddir (node log_fs (fs_root log_fs)) \<noteq> No_Finddir"
    "v_type (node log_fs 300) = FS_FILE" "v_open (node log_fs 300) = Initrd_Open"
    by (simp_all add: log_fields root_fs_def fill_dir_def Let_def set_entry_def upd_blist_def upd_vnode_def dir_node_def
        file_node_def no_node_def)
  show ?thesis
    using open_through_file [OF log_tree _ _ _ _ r(1,2) _ r(3,4), of 3 "''log''" "''x''" "\<lparr>f_node = 0, f_offset = 0, f_flags = 0\<rparr>" 5 bump
        "\<lambda>a h. Some h"] log_lookup by (simp add: log_fields(2))
qed

text \<open>
  When every entry of a directory is used, and the allocator has a node but no block list left, \<^verbatim>\<open>open\<close> with
  \<^verbatim>\<open>O_CREAT\<close> reports success and hands out a new file that is in no directory: the name is still not found.
\<close>

theorem create_in_full_directory:
  assumes "v_type (node s nd) = FS_DIRECTORY" and "chain_ok fuel s (In_Node nd)"
    and "unused_entry s (all_entries fuel s (In_Node nd)) = None"
    and "name \<noteq> []" and "initrd_finddir fuel nd name s = Some 0" and "f_node file = nd" "f_flags file AND O_CREAT \<noteq> 0"
    and "alloc SIZEOF_NODE (fs_heap s) = Some (new, h1)" "new \<noteq> 0" "new \<noteq> nd" "alloc SIZEOF_BLOCK_LIST h1 = Some (0, h2)"
  shows "\<exists>s'. initrd_open alloc free fuel file (Some name) s = Some (0, file\<lparr>f_node := new\<rparr>, s')
    \<and> initrd_finddir fuel nd name s' = Some 0"
proof -
  define s1 where "s1 = upd_vnode new (\<lambda>_. file_node) (s\<lparr>fs_heap := h1\<rparr>)"
  have bl: "blists s1 = blists s" "blist s1 (In_Node nd) = blist s (In_Node nd)" "dirs s1 = dirs s" "fs_heap s1 = h1"
    using assms(10) by (simp_all add: s1_def upd_vnode_def blist_def)
  then have same: "chain_ok fuel s1 (In_Node nd)" "all_entries fuel s1 (In_Node nd) = all_entries fuel s (In_Node nd)"
    using chain_cong_lists [of s1 s "In_Node nd" fuel] assms(2) by simp_all
  have un: "unused_entry s1 (all_entries fuel s1 (In_Node nd)) = None"
    using entries_cong_dirs(2) [of "all_entries fuel s (In_Node nd)" s1 s] bl(3) assms(3) same(2) by simp
  obtain q where q: "b_next (blist s1 q) = 0"
    "add_entry alloc fuel (In_Node nd) name new s1 = Some (False, upd_blist q (\<lambda>b. b\<lparr>b_next := 0\<rparr>) (s1\<lparr>fs_heap := h2\<rparr>))"
    using add_entry_full [where alloc = alloc and name = name and nd = new, OF same(1) un assms(11) [folded bl(4)]] by (elim exE conjE) (rule that)
  define s2 where "s2 = upd_blist q (\<lambda>b. b\<lparr>b_next := 0\<rparr>) (s1\<lparr>fs_heap := h2\<rparr>)"
  define s' where "s' = upd_vnode new (\<lambda>x. x\<lparr>block_size := 0\<rparr>) s2"
  have "blist s2 r = blist s1 r" for r using q(1) by (simp add: s2_def blist_upd)
  moreover have "blist s' r = blist s2 r" for r by (simp add: s'_def blist_def upd_vnode_def split: blref.splits)
  ultimately have b': "blist s' r = blist s1 r" for r by simp
  have d': "dirs s' = dirs s1" by (simp add: s'_def s2_def blist_upd)
  have "initrd_finddir fuel nd name s' = initrd_finddir fuel nd name s1"
    by (simp add: initrd_finddir_def walk_cong(1) [OF b' d'])
  also have "\<dots> = initrd_finddir fuel nd name s"
    using finddir_all [OF same(1)] finddir_all [OF assms(2)] same(2)
      entries_cong_dirs(1) [of "all_entries fuel s (In_Node nd)" s1 s] bl(3) by simp
  finally have "initrd_finddir fuel nd name s' = Some 0" using assms(5) by simp
  moreover have "initrd_open alloc free fuel file (Some name) s = Some (0, file\<lparr>f_node := new\<rparr>, s')"
    using assms(1,4,6-9) q(2) by (simp add: initrd_open_def kalloc_def s1_def [symmetric] s2_def [symmetric] s'_def Let_def)
  ultimately show ?thesis by blast
qed

text \<open>A root directory with 32 entries.\<close>

definition full_fs :: "u32 fs" where
  "full_fs = root_fs\<lparr>dirs := (dirs root_fs)(200 := (\<lambda>_. \<lparr>d_name = ''x'', d_node = 100\<rparr>))\<rparr>"

definition last_node :: "u32 allocator" where
  "last_node n h = (if h = 0 then Some (0, 0) else Some (h, 0))"

theorem create_in_full_directory_witness:
  "\<exists>s'. initrd_open last_node (\<lambda>a h. Some h) 1 \<lparr>f_node = 100, f_offset = 0, f_flags = 0x201\<rparr> (Some ''new'') full_fs
     = Some (0, \<lparr>f_node = 0x10000, f_offset = 0, f_flags = 0x201\<rparr>, s') \<and> initrd_finddir 1 100 ''new'' s' = Some 0"
proof -
  have b: "blist full_fs (In_Node 100) = blist root_fs (In_Node 100)" by (simp add: full_fs_def blist_def)
  have e: "entries full_fs (In_Node 100) = map (Pair 200) [0..<32]"
    using first_block_entries [of 200 full_fs "In_Node 100"] by (simp add: b root_blist no_blocks_def)
  have t: "v_type (node full_fs 100) = FS_DIRECTORY" "chain_ok 1 full_fs (In_Node 100)"
    using root_fields(1,2) b by (simp_all add: full_fs_def)
  have u: "unused_entry full_fs (map (Pair 200) js) = None" "first_named full_fs (map (Pair 200) js) ''new'' = None" for js
    by (induction js) (simp_all add: full_fs_def same_name_def cut_name_def)
  have l: "initrd_finddir 1 100 ''new'' full_fs = Some 0"
    using finddir_all [OF t(2)] e u b by (simp add: root_blist no_blocks_def)
  have a: "last_node SIZEOF_NODE (fs_heap full_fs) = Some (0x10000, 0)" "last_node SIZEOF_BLOCK_LIST 0 = Some (0, 0)"
    by (simp_all add: last_node_def full_fs_def root_fields)
  show ?thesis
    using create_in_full_directory [OF t _ _ l _ _ a(1) _ _ a(2), of "\<lparr>f_node = 100, f_offset = 0, f_flags = 0x201\<rparr>"]
      e u b by (simp add: root_blist no_blocks_def)
qed

section \<open>Making a directory keeps the tree\<close>

lemma new_dir_ok:
  assumes "node s new = new_dir blk" "dirs s blk = new_block new nd" "blk \<noteq> 0" "0 < fuel" "new \<in> N" "nd \<in> N"
  shows "node_ok N fuel s new"
proof -
  have "entries s (In_Node new) = map (Pair blk) [0..<32]"
    using assms(1,3) by (intro first_block_entries) (simp_all add: blist_def new_dir_def no_blocks_def)
  moreover have "b_next (blist s (In_Node new)) = 0" by (simp add: blist_def assms(1) new_dir_def no_blocks_def)
  moreover have "slock_free (v_lock (node s new))"
    by (simp add: assms(1) new_dir_def dir_node_def init_lock_def lock_init_def slock_free_def atomic_defs no_node_def Let_def)
  ultimately show ?thesis using assms(2,4-6)
    by (cases fuel) (auto simp: node_ok_def new_block_def no_entry_def)
qed

lemma old_dir_ok:
  assumes "node_ok N fuel s n" and "node s' n = node s n" "blists s' = blists s"
    and "dirs s' = (dirs s)(blk := b, d := (dirs s d)(j := \<lparr>d_name = name, d_node = new\<rparr>))" and "name \<noteq> []"
    and "blk \<notin> fst ` set (all_entries fuel s (In_Node n))"
  shows "node_ok (insert new N) fuel s' n"
proof -
  have "blist s' (In_Node n) = blist s (In_Node n)" by (simp add: blist_def assms(2))
  note c = chain_cong_lists [of s' s, OF _ this]
  have "d' \<noteq> blk" if "(d', j') \<in> set (all_entries fuel s (In_Node n))" for d' j' using assms(6) that by force
  then show ?thesis using assms(1,2,5) c by (auto simp: node_ok_def assms(3,4) split: prod.splits)
qed

text \<open>
  C17: \<^verbatim>\<open>mkdir\<close> keeps the tree well-formed: with the new node added, every lock is free, every entry of every
  directory leads to a node of the tree, and no entry has the empty name.
\<close>

theorem mkdir_keeps_tree:
  assumes "tree_ok N fuel s" and "nd \<in> N" "v_type (node s nd) = FS_DIRECTORY" and "name \<noteq> []"
    and "unused_entry s (all_entries fuel s (In_Node nd)) \<noteq> None" and "initrd_finddir fuel nd name s = Some 0"
    and "alloc SIZEOF_NODE (fs_heap s) = Some (new, h1)" and "alloc SIZEOF_DIR_BLOCK h1 = Some (blk, h2)"
    and "new \<noteq> 0" "new \<notin> N" "blk \<noteq> 0" "\<forall>n\<in>N. blk \<notin> fst ` set (all_entries fuel s (In_Node n))"
  shows "\<exists>s'. initrd_mkdir alloc free fuel nd name s = Some (new, s') \<and> tree_ok (insert new N) fuel s'"
proof -
  obtain d j where u: "unused_entry s (all_entries fuel s (In_Node nd)) = Some (d, j)" using assms(5) by auto
  have ch: "chain_ok fuel s (In_Node nd)" using assms(1-3) by (auto simp: tree_ok_def node_ok_def)
  then have f: "0 < fuel" by (cases fuel) auto
  have ne: "new \<noteq> nd" "blk \<notin> fst ` set (all_entries fuel s (In_Node nd))" using assms(2,10,12) by auto
  obtain s' where s': "initrd_mkdir alloc free fuel nd name s = Some (new, s')" "blists s' = blists s"
    "node s' = (node s)(new := new_dir blk)"
    "dirs s' = (dirs s)(blk := new_block new nd, d := (dirs s d)(j := \<lparr>d_name = cut_name name, d_node = new\<rparr>))"
    using mkdir_result [OF assms(3) ch u assms(6-9) ne(1) assms(11) ne(2), of free] by blast
  have "(d, j) \<in> set (all_entries fuel s (In_Node nd))" using u find_SomeD by (fastforce simp: unused_entry_find)
  then have "d \<noteq> blk" using ne(2) by force
  then have "node_ok (insert new N) fuel s' new"
    using assms(2,11) f by (intro new_dir_ok [where blk = blk and nd = nd]) (simp_all add: s'(3,4))
  moreover have "node_ok (insert new N) fuel s' n" if "n \<in> N" for n
    using assms(1,4,10,12) that
    by (intro old_dir_ok [OF _ _ s'(2,4)]) (auto simp: tree_ok_def s'(3) cut_name_def)
  ultimately show ?thesis using s'(1) by (auto simp: tree_ok_def)
qed

theorem mkdir_keeps_tree_witness:
  "\<exists>s'. initrd_mkdir bump (\<lambda>a h. Some h) 1 100 ''bin'' root_fs = Some (0x10000, s') \<and> tree_ok {0x10000, 100} 1 s'"
proof -
  have a: "bump SIZEOF_NODE (fs_heap root_fs) = Some (0x10000, 0x10074)" "bump SIZEOF_DIR_BLOCK 0x10074 = Some (0x10074, 0x110F4)"
    by (simp_all add: root_fields bump_def)
  have l: "initrd_finddir 1 100 ''bin'' root_fs = Some 0" by (rule root_lookup) simp_all
  have "\<forall>n\<in>{100}. (0x10074 :: addr) \<notin> fst ` set (all_entries 1 root_fs (In_Node n))"
    using root_entries(2) by auto
  moreover have "unused_entry root_fs (all_entries 1 root_fs (In_Node 100)) \<noteq> None" by (simp only: root_unused) simp
  ultimately show ?thesis using mkdir_keeps_tree [OF root_tree _ root_fields(1) _ _ l a] by simp
qed

section \<open>The calls of the kernel\<close>

text \<open>The file system on the kernel heap; \<open>d\<close> is the nesting of \<^verbatim>\<open>kmalloc\<close>, \<open>ke\<close> the end of the kernel image.\<close>

definition kernel_open_fs :: "nat \<Rightarrow> addr \<Rightarrow> u32 \<Rightarrow> nat \<Rightarrow> nat \<Rightarrow> fd \<Rightarrow> string option \<Rightarrow> 'a kheap_scheme fs
    \<Rightarrow> (int \<times> fd \<times> 'a kheap_scheme fs) option" where
  "kernel_open_fs d ke = open_fs (kmalloc d ke) kfree"

definition kernel_write_fs :: "nat \<Rightarrow> addr \<Rightarrow> u32 \<Rightarrow> nat \<Rightarrow> fd \<Rightarrow> addr \<Rightarrow> u32 \<Rightarrow> 'a kheap_scheme fs
    \<Rightarrow> (int \<times> fd \<times> 'a kheap_scheme fs) option" where
  "kernel_write_fs d ke = write_fs (kmalloc d ke)"

definition kernel_initrd_init :: "nat \<Rightarrow> addr \<Rightarrow> u32 \<Rightarrow> nat \<Rightarrow> addr \<Rightarrow> initrd_module list \<Rightarrow> 'a kheap_scheme fs
    \<Rightarrow> (int \<times> 'a kheap_scheme fs) option" where
  "kernel_initrd_init d ke = initrd_init (kmalloc d ke) kfree"

end
