(* ===== verification/Clock.thy ===== *)
theory Clock
  imports C_Printf
begin

text \<open>
  The clock of the kernel: the real-time clock and the date, \<^verbatim>\<open>devices/cmos_rtc.c\<close> and \<^verbatim>\<open>devices/date.c\<close>, the
  timer, \<^verbatim>\<open>devices/timer.c\<close>, and the random numbers, \<^verbatim>\<open>video/rand.c\<close>. The CMOS chip is an argument: \<open>hw n r\<close> is the
  byte that the \<open>n\<close>-th access reads from register \<open>r\<close>. A loop that waits for the hardware takes fuel.
\<close>

section \<open>The real-time clock\<close>

type_synonym cmos = "nat \<Rightarrow> u8 \<Rightarrow> u8"

record rtc =
  seconds :: u8
  minutes :: u8
  hours :: u8
  days :: u8
  months :: u8
  years :: u32
  century :: u8

definition CURRENT_YEAR :: u32 where [simp]: "CURRENT_YEAR = 2018"

text \<open>Writing the number of a register to one port and reading the other port is one access.\<close>

definition rtc_register :: "cmos \<Rightarrow> u8 \<Rightarrow> nat \<Rightarrow> u8 \<times> nat" where
  "rtc_register hw reg n = (hw n reg, Suc n)"

definition progress_flag_updates :: "cmos \<Rightarrow> nat \<Rightarrow> u8 \<times> nat" where
  "progress_flag_updates hw n = (let (b, n) = rtc_register hw 0x0A n in (b AND 0x80, n))"

fun wait_update :: "nat \<Rightarrow> cmos \<Rightarrow> nat \<Rightarrow> nat option" where
  "wait_update 0 hw n = None"
| "wait_update (Suc k) hw n =
     (let (b, n) = progress_flag_updates hw n in if b \<noteq> 0 then wait_update k hw n else Some n)"

text \<open>One reading of all registers; the century keeps its value when there is no register for it.\<close>

definition read_registers :: "cmos \<Rightarrow> u8 \<Rightarrow> u8 \<Rightarrow> nat \<Rightarrow> rtc \<times> nat" where
  "read_registers hw century_reg cent n =
     (let (s, n) = rtc_register hw 0x00 n;
          (mi, n) = rtc_register hw 0x02 n;
          (h, n) = rtc_register hw 0x04 n;
          (d, n) = rtc_register hw 0x07 n;
          (mo, n) = rtc_register hw 0x08 n;
          (y, n) = rtc_register hw 0x09 n;
          (c, n) = (if century_reg \<noteq> 0 then rtc_register hw century_reg n else (cent, n))
      in (\<lparr>seconds = s, minutes = mi, hours = h, days = d, months = mo, years = ucast y, century = c\<rparr>, n))"

text \<open>The registers are read again until two readings agree.\<close>

fun settle :: "nat \<Rightarrow> nat \<Rightarrow> cmos \<Rightarrow> u8 \<Rightarrow> rtc \<Rightarrow> nat \<Rightarrow> (rtc \<times> nat) option" where
  "settle 0 k hw century_reg old n = None"
| "settle (Suc j) k hw century_reg old n =
     (case wait_update k hw n of
        None \<Rightarrow> None
      | Some n \<Rightarrow>
          let (new, n) = read_registers hw century_reg (century old) n
          in if old \<noteq> new then settle j k hw century_reg new n else Some (new, n))"

definition bcd_to_binary :: "rtc \<Rightarrow> u8 \<Rightarrow> rtc" where
  "bcd_to_binary t century_reg =
     t\<lparr>seconds := (seconds t AND 0x0F) + (seconds t div 16) * 10,
       minutes := (minutes t AND 0x0F) + (minutes t div 16) * 10,
       hours := ((hours t AND 0x0F) + ((hours t AND 0x70) div 16) * 10) OR (hours t AND 0x80),
       days := (days t AND 0x0F) + (days t div 16) * 10,
       months := (months t AND 0x0F) + (months t div 16) * 10,
       years := (years t AND 0x0F) + (years t div 16) * 10,
       century := if century_reg \<noteq> 0 then (century t AND 0x0F) + (century t div 16) * 10 else century t\<rparr>"

definition full_year :: "rtc \<Rightarrow> u8 \<Rightarrow> u32" where
  "full_year t century_reg =
     (if century_reg \<noteq> 0 then years t + ucast (century t) * 100
      else let y = years t + (CURRENT_YEAR div 100) * 100 in if y < CURRENT_YEAR then y + 100 else y)"

definition convert_rtc :: "u8 \<Rightarrow> u8 \<Rightarrow> rtc \<Rightarrow> rtc" where
  "convert_rtc registerB century_reg t =
     (let t = (if registerB AND 0x04 = 0 then bcd_to_binary t century_reg else t);
          t = (if registerB AND 0x02 = 0 \<and> hours t AND 0x80 \<noteq> 0
               then t\<lparr>hours := ((hours t AND 0x7F) + 12) mod 24\<rparr> else t)
      in t\<lparr>years := full_year t century_reg\<rparr>)"

text \<open>
  The message about time travel is left out. The local \<^verbatim>\<open>century\<close> is a field of the result. \<open>k\<close> bounds the polls of
  the update flag, \<open>j\<close> the readings.
\<close>

definition read_rtc :: "nat \<Rightarrow> nat \<Rightarrow> cmos \<Rightarrow> u8 \<Rightarrow> nat \<Rightarrow> (rtc \<times> nat) option" where
  "read_rtc j k hw century_reg n =
     (case wait_update k hw n of
        None \<Rightarrow> None
      | Some n \<Rightarrow>
          let (t, n) = read_registers hw century_reg 0 n in
          (case settle j k hw century_reg t n of
             None \<Rightarrow> None
           | Some (t, n) \<Rightarrow>
               let (registerB, n) = rtc_register hw 0x0B n in Some (convert_rtc registerB century_reg t, n)))"

text \<open>The arguments of the format that \<^verbatim>\<open>date_time\<close> prints; it shows the hour after the one it has read.\<close>

datatype language = ENGLISH | GREEK | SPANISH

definition date_text :: "language \<Rightarrow> string" where
  "date_text l = (case l of
       GREEK \<Rightarrow> ''I ora kai imerominia twra einai:''
     | SPANISH \<Rightarrow> ''La  hora/fecha actual es:''
     | ENGLISH \<Rightarrow> ''Current time/date is:'')
   @ [CHR 0x0A] @ ''%02d:%02d:%02d'' @ [CHR 0x0A] @ ''%02d/%02d/%04d'' @ [CHR 0x0A]"

definition date_args :: "rtc \<Rightarrow> u32 list" where
  "date_args t = [ucast (hours t) + 1, ucast (minutes t), ucast (seconds t), ucast (days t), ucast (months t), years t]"

definition date_time :: "nat \<Rightarrow> nat \<Rightarrow> cmos \<Rightarrow> u8 \<Rightarrow> language \<Rightarrow> nat \<Rightarrow> (int \<times> string \<times> u32 list \<times> nat) option" where
  "date_time j k hw century_reg l n =
     map_option (\<lambda>(t, n). (0, date_text l, date_args t, n)) (read_rtc j k hw century_reg n)"

section \<open>The timer\<close>

definition TIMER_FREQ :: u32 where [simp]: "TIMER_FREQ = 100"
definition CLOCK_TICK_RATE :: u32 where [simp]: "CLOCK_TICK_RATE = 1193182"

definition LATCH :: "u32 \<Rightarrow> u32" where
  "LATCH f = (CLOCK_TICK_RATE + f div 2) div f"

text \<open>The bytes written to the ports of the timer chip, in order.\<close>

definition timer_init_ports :: "(u16 \<times> u8) list" where
  "timer_init_ports = [(0x43, 0x34), (0x40, ucast (LATCH TIMER_FREQ AND 0xFF)), (0x40, ucast (drop_bit 8 (LATCH TIMER_FREQ)))]"

definition get_clock_tick :: "u64 \<Rightarrow> u64" where
  "get_clock_tick timer_ticks = timer_ticks"

definition timer_handler :: "u64 \<Rightarrow> u64" where
  "timer_handler timer_ticks = timer_ticks + 1"

text \<open>
  The waiting loops; \<open>ticks i\<close> is the counter at the \<open>i\<close>-th look at it, which the interrupts advance meanwhile. The
  result is the number of the look that ended the loop.
\<close>

fun wait_until :: "nat \<Rightarrow> (nat \<Rightarrow> u64) \<Rightarrow> u64 \<Rightarrow> nat \<Rightarrow> nat option" where
  "wait_until 0 ticks final i = None"
| "wait_until (Suc k) ticks final i = (if ticks i < final then wait_until k ticks final (Suc i) else Some i)"

definition waitTicks :: "nat \<Rightarrow> (nat \<Rightarrow> u64) \<Rightarrow> u64 \<Rightarrow> nat option" where
  "waitTicks k ticks n = wait_until k ticks (ticks 0 + n) 1"

text \<open>The C comparison of the signed counter with the unsigned limit is one of 64-bit words.\<close>

fun wait_seconds :: "nat \<Rightarrow> (nat \<Rightarrow> u64) \<Rightarrow> u64 \<Rightarrow> u32 \<Rightarrow> nat \<Rightarrow> nat option" where
  "wait_seconds 0 ticks w secs i = None"
| "wait_seconds (Suc k) ticks w secs i =
     (let secs = (if ticks i mod ucast TIMER_FREQ = 0 then secs + 1 else secs)
      in if scast secs < w then wait_seconds k ticks w secs (Suc i) else Some (Suc i))"

definition waitForTime :: "nat \<Rightarrow> (nat \<Rightarrow> u64) \<Rightarrow> u64 \<Rightarrow> nat option" where
  "waitForTime k ticks w = wait_seconds k ticks w 0 0"

section \<open>Random numbers\<close>

definition rand :: "u32 \<Rightarrow> u32 \<times> u32" where
  "rand nxt = (let nxt = nxt * 1103515245 + 12345 in ((nxt div 65536) mod 32768, nxt))"

definition srand :: "u32 \<Rightarrow> u32" where
  "srand seed = seed"

section \<open>Reading the clock\<close>

definition to_bcd :: "nat \<Rightarrow> u8" where
  "to_bcd x = of_nat (x div 10 * 16 + x mod 10)"

definition all_below :: "nat \<Rightarrow> (nat \<Rightarrow> bool) \<Rightarrow> bool" where
  "all_below n P = list_all P [0..<n]"

lemma all_belowD: "all_below n P \<Longrightarrow> x < n \<Longrightarrow> P x"
  by (simp add: all_below_def list_all_iff)

text \<open>The two encodings of a register, binary and BCD, are undone by the conversion.\<close>

definition encode :: "u8 \<Rightarrow> nat \<Rightarrow> u8" where
  "encode registerB x = (if registerB AND 0x04 = 0 then to_bcd x else of_nat x)"

lemma bcd_byte: "x < 100 \<Longrightarrow> (to_bcd x AND 0x0F) + (to_bcd x div 16) * 10 = of_nat x"
proof -
  have "all_below 100 (\<lambda>x. (to_bcd x AND 0x0F) + (to_bcd x div 16) * 10 = of_nat x)" by code_simp
  then show "x < 100 \<Longrightarrow> ?thesis" by (rule all_belowD)
qed

lemma bcd_year: "x < 100 \<Longrightarrow> (ucast (to_bcd x) AND 0x0F) + (ucast (to_bcd x) div 16) * 10 = (of_nat x :: u32)"
proof -
  have "all_below 100 (\<lambda>x. (ucast (to_bcd x) AND 0x0F) + (ucast (to_bcd x) div 16) * 10 = (of_nat x :: u32))" by code_simp
  then show "x < 100 \<Longrightarrow> ?thesis" by (rule all_belowD)
qed

definition hour_flag :: "bool \<Rightarrow> u8" where
  "hour_flag pm = (if pm then 0x80 else 0)"

lemma bcd_hour:
  "x < 24 \<Longrightarrow> (((to_bcd x OR hour_flag pm) AND 0x0F) + (((to_bcd x OR hour_flag pm) AND 0x70) div 16) * 10)
     OR ((to_bcd x OR hour_flag pm) AND 0x80) = of_nat x OR hour_flag pm"
proof -
  have "all_below 24 (\<lambda>x. (((to_bcd x OR hour_flag True) AND 0x0F) + (((to_bcd x OR hour_flag True) AND 0x70) div 16) * 10)
     OR ((to_bcd x OR hour_flag True) AND 0x80) = of_nat x OR hour_flag True)" by code_simp
  moreover have "all_below 24 (\<lambda>x. (((to_bcd x OR hour_flag False) AND 0x0F) + (((to_bcd x OR hour_flag False) AND 0x70) div 16) * 10)
     OR ((to_bcd x OR hour_flag False) AND 0x80) = of_nat x OR hour_flag False)" by code_simp
  ultimately show "x < 24 \<Longrightarrow> ?thesis" by (cases pm) (auto dest: all_belowD)
qed

lemma hour_24:
  "x < 24 \<Longrightarrow> (of_nat x OR hour_flag pm) AND (0x80 :: u8) = hour_flag pm"
  "x < 24 \<Longrightarrow> ((of_nat x OR hour_flag True) AND 0x7F) + 12 = (of_nat (x + 12) :: u8)"
  "x < 24 \<Longrightarrow> (of_nat x OR hour_flag False) = (of_nat x :: u8)"
proof -
  have "all_below 24 (\<lambda>x. (of_nat x OR hour_flag True) AND (0x80 :: u8) = hour_flag True \<and>
      (of_nat x OR hour_flag False) AND (0x80 :: u8) = hour_flag False \<and>
      ((of_nat x OR hour_flag True) AND 0x7F) + 12 = (of_nat (x + 12) :: u8))" by code_simp
  then show "x < 24 \<Longrightarrow> (of_nat x OR hour_flag pm) AND (0x80 :: u8) = hour_flag pm"
    "x < 24 \<Longrightarrow> ((of_nat x OR hour_flag True) AND 0x7F) + 12 = (of_nat (x + 12) :: u8)"
    by (cases pm; auto dest: all_belowD)+
  show "x < 24 \<Longrightarrow> (of_nat x OR hour_flag False) = (of_nat x :: u8)" by (simp add: hour_flag_def)
qed

lemma hour_mod: "x < 24 \<Longrightarrow> (of_nat (x + 12) :: u8) mod 24 = of_nat ((x + 12) mod 24)"
proof -
  have "all_below 24 (\<lambda>x. (of_nat (x + 12) :: u8) mod 24 = of_nat ((x + 12) mod 24))" by code_simp
  then show "x < 24 \<Longrightarrow> ?thesis" by (rule all_belowD)
qed

text \<open>\<open>shows_time\<close>: the chip stands still and shows a time, in the encoding and with the clock that register B names.\<close>

definition shows_time :: "cmos \<Rightarrow> u8 \<Rightarrow> nat \<Rightarrow> nat \<Rightarrow> nat \<Rightarrow> bool \<Rightarrow> nat \<Rightarrow> nat \<Rightarrow> nat \<Rightarrow> nat \<Rightarrow> bool" where
  "shows_time hw B s mi h pm d mo y c \<longleftrightarrow>
     (\<forall>n. hw n 0x0A AND 0x80 = 0 \<and> hw n 0x0B = B \<and> hw n 0x00 = encode B s \<and> hw n 0x02 = encode B mi
        \<and> hw n 0x04 = encode B h OR hour_flag pm \<and> hw n 0x07 = encode B d \<and> hw n 0x08 = encode B mo \<and> hw n 0x09 = encode B y
        \<and> hw n 0x32 = encode B c)
     \<and> s < 100 \<and> mi < 100 \<and> h < 24 \<and> d < 100 \<and> mo < 100 \<and> y < 100 \<and> c < 100 \<and> (B AND 0x02 \<noteq> 0 \<longrightarrow> \<not> pm)"

lemma convert_shown:
  assumes "shows_time hw B s mi h pm d mo y c"
  shows "convert_rtc B 0x32 (\<lparr>seconds = encode B s, minutes = encode B mi, hours = encode B h OR hour_flag pm, days = encode B d,
      months = encode B mo, years = ucast (encode B y), century = encode B c\<rparr>)
    = \<lparr>seconds = of_nat s, minutes = of_nat mi, hours = of_nat (if pm then (h + 12) mod 24 else h), days = of_nat d,
        months = of_nat mo, years = of_nat (100 * c + y), century = of_nat c\<rparr>"
proof -
  let ?t = "\<lparr>seconds = of_nat s, minutes = of_nat mi, hours = of_nat h OR hour_flag pm, days = of_nat d,
        months = of_nat mo, years = of_nat y, century = of_nat c\<rparr>"
  have b: "s < 100" "mi < 100" "h < 24" "d < 100" "mo < 100" "y < 100" "c < 100" "B AND 0x02 \<noteq> 0 \<Longrightarrow> \<not> pm"
    using assms by (simp_all add: shows_time_def)
  have y: "ucast (of_nat n :: u8) = (of_nat n :: u32)" if "n < 100" for n
    using that by (simp add: word_unat_eq_iff unsigned_ucast_eq unat_of_nat take_bit_nat_eq_self)
  have conv: "(if B AND 0x04 = 0 then bcd_to_binary (\<lparr>seconds = encode B s, minutes = encode B mi, hours = encode B h OR hour_flag pm,
      days = encode B d, months = encode B mo, years = ucast (encode B y), century = encode B c\<rparr>) 0x32
     else \<lparr>seconds = encode B s, minutes = encode B mi, hours = encode B h OR hour_flag pm,
      days = encode B d, months = encode B mo, years = ucast (encode B y), century = encode B c\<rparr>) = ?t"
    using b by (simp add: bcd_to_binary_def encode_def bcd_byte bcd_year bcd_hour y)
  have cy: "of_nat y + ucast (of_nat c :: u8) * 100 = (of_nat (100 * c + y) :: u32)" using y [OF b(7)] by simp
  have "hours (if B AND 0x02 = 0 \<and> hours ?t AND 0x80 \<noteq> 0 then ?t\<lparr>hours := ((hours ?t AND 0x7F) + 12) mod 24\<rparr> else ?t)
      = of_nat (if pm then (h + 12) mod 24 else h)"
    using hour_24(1) [OF b(3), of pm] hour_24(2) [OF b(3)] hour_24(3) [OF b(3)] hour_mod [OF b(3)] b(8)
    by (cases pm) (auto simp: hour_flag_def)
  with cy show ?thesis unfolding convert_rtc_def conv by (simp add: Let_def full_year_def)
qed

lemma shown_update: "shows_time hw B s mi h pm d mo y c \<Longrightarrow> wait_update (Suc k) hw n = Some (Suc n)"
  by (simp add: shows_time_def progress_flag_updates_def rtc_register_def)

lemma shown_registers:
  "shows_time hw B s mi h pm d mo y c \<Longrightarrow> read_registers hw 0x32 cent n =
     (\<lparr>seconds = encode B s, minutes = encode B mi, hours = encode B h OR hour_flag pm, days = encode B d,
       months = encode B mo, years = ucast (encode B y), century = encode B c\<rparr>, n + 7)"
  by (simp add: shows_time_def read_registers_def rtc_register_def)

text \<open>
  C37: while the chip shows a time, in either encoding and in 12 or 24 hours, the kernel reads its seconds, minutes, day,
  month and the year with its century. The hour of a 12-hour clock is off at twelve: 12 PM is read as 0 and 12 AM as 12.
\<close>

theorem rtc_reads_time:
  assumes "shows_time hw B s mi h pm d mo y c"
  shows "read_rtc (Suc j) (Suc k) hw 0x32 n =
    Some (\<lparr>seconds = of_nat s, minutes = of_nat mi, hours = of_nat (if pm then (h + 12) mod 24 else h), days = of_nat d,
            months = of_nat mo, years = of_nat (100 * c + y), century = of_nat c\<rparr>, n + 17)"
proof -
  have B: "hw m 0x0B = B" for m using assms by (simp add: shows_time_def)
  show ?thesis
    using convert_shown [OF assms]
    by (simp add: read_rtc_def shown_update [OF assms] shown_registers [OF assms] rtc_register_def B Let_def
        del: wait_update.simps)
qed

definition sample_chip :: cmos where
  "sample_chip n r = (if r = 0 then 0x59 else if r = 2 then 0x07 else if r = 4 then 0x92 else if r = 7 then 0x31
     else if r = 8 then 0x12 else if r = 9 then 0x17 else if r = 0x32 then 0x20 else 0)"

lemma rtc_reads_time_witness:
  "shows_time sample_chip 0 59 7 12 True 31 12 17 20
   \<and> read_rtc 1 1 sample_chip 0x32 0 = Some (\<lparr>seconds = 59, minutes = 7, hours = 0, days = 31, months = 12,
       years = 2017, century = 20\<rparr>, 17)"
proof -
  have s: "shows_time sample_chip 0 59 7 12 True 31 12 17 20"
    by (simp add: shows_time_def sample_chip_def encode_def to_bcd_def hour_flag_def)
  from rtc_reads_time [OF s, of 0 0 0] s show ?thesis by simp
qed

section \<open>Waiting and random numbers\<close>

text \<open>Waiting for ticks ends at the first look that finds the counter at its goal, and not before.\<close>

lemma wait_until_end:
  assumes "\<And>m. i \<le> m \<Longrightarrow> m < i + d \<Longrightarrow> ticks m < final" and "\<not> ticks (i + d) < final"
  shows "wait_until (Suc (d + k)) ticks final i = Some (i + d)"
  using assms
proof (induction d arbitrary: i)
  case (Suc d)
  then show ?case using Suc.IH [of "Suc i"] by simp
qed simp

lemma wait_seconds_step:
  "ticks i mod 100 = 0 \<Longrightarrow> wait_seconds (Suc k) ticks w secs i =
     (if scast (secs + 1) < w then wait_seconds k ticks w (secs + 1) (Suc i) else Some (Suc i))"
  by (simp add: Let_def)

text \<open>Waiting for a time counts looks: on a counter that stands at a multiple of the frequency, each look is a second.\<close>

lemma wait_seconds_polls:
  assumes "\<And>i. ticks i mod 100 = 0" and "w < 2 ^ 31" and "m < w"
  shows "wait_seconds (Suc (w - m)) ticks (of_nat w) (of_nat m) i = Some (i + (w - m))"
  using assms(3)
proof (induction "w - m" arbitrary: m i)
  case 0
  then show ?case by simp
next
  case (Suc d)
  have "sint (of_nat (Suc m) :: u32) = int (Suc m)"
    using Suc.hyps(2) Suc.prems assms(2) by (simp add: signed_of_nat signed_take_bit_int_eq_self del: of_nat_Suc)
  then have u: "scast (of_nat (Suc m) :: u32) = (of_nat (Suc m) :: u64)"
    unfolding scast_eq by (simp del: of_nat_Suc)
  have w: "unat (of_nat w :: u64) = w" using assms(2) by (simp add: unat_of_nat take_bit_nat_eq_self)
  have m: "unat (of_nat (Suc m) :: u64) = Suc m"
    using assms(2) Suc.prems by (simp add: unat_of_nat take_bit_nat_eq_self del: of_nat_Suc)
  have s: "(of_nat m :: u32) + 1 = of_nat (Suc m)" by simp
  show ?case
  proof (cases "Suc m < w")
    case True
    then have "wait_seconds (Suc (w - Suc m)) ticks (of_nat w) (of_nat (Suc m)) (Suc i) = Some (Suc i + (w - Suc m))"
      using Suc.hyps(2) by (intro Suc.hyps(1)) auto
    moreover have k: "w - m = Suc (w - Suc m)" using Suc.prems by simp
    ultimately show ?thesis using True
      by (subst wait_seconds_step [OF assms(1)]) (simp add: s u k word_less_nat_alt w m del: of_nat_Suc wait_seconds.simps)
  next
    case False
    then show ?thesis using Suc.prems
      by (subst wait_seconds_step [OF assms(1)]) (simp add: s u word_less_nat_alt w m del: of_nat_Suc wait_seconds.simps)
  qed
qed

lemma waitForTime_polls:
  "(\<And>i. ticks i mod 100 = 0) \<Longrightarrow> 0 < w \<Longrightarrow> w < 2 ^ 31 \<Longrightarrow> waitForTime (Suc w) ticks (of_nat w) = Some w"
  using wait_seconds_polls [of ticks w 0 0] by (simp add: waitForTime_def)

lemma rand_bound: "fst (rand s) < 32768"
  by (simp add: rand_def Let_def word_less_nat_alt unat_mod_distrib)

end
