(* ===== verification/Cpu_Tables.thy ===== *)
theory Cpu_Tables
  imports Sched
begin

unbundle bit_operations_syntax

text \<open>
  The tables of the processor: the segment descriptors with the task state segment, \<^verbatim>\<open>cpu/gdt.c\<close>, the gates of the
  interrupts, \<^verbatim>\<open>cpu/idt.c\<close>, and who fills them, \<^verbatim>\<open>isrs_install\<close> of \<^verbatim>\<open>cpu/isrs.c\<close> and \<^verbatim>\<open>irq_install\<close> of \<^verbatim>\<open>cpu/irq.c\<close>.
  The addresses of the entry stubs in the assembler files and of the tables themselves are arguments.
\<close>

section \<open>State\<close>

record gdt_entry =
  limit_low :: u16
  base_low :: u16
  base_middle :: u8
  access :: u8
  granularity :: u8
  base_high :: u8

record idt_entry =
  base_lo :: u16
  sel :: u16
  always0 :: u8
  idt_flags :: u8
  base_hi :: u16

text \<open>The fields of the task state segment that the kernel sets; the others are zero.\<close>

record tss =
  esp0 :: u32
  ss0 :: u16
  tss_eflags :: u32
  tss_es :: u16
  tss_cs :: u16
  tss_ss :: u16
  tss_ds :: u16
  tss_fs :: u16
  tss_gs :: u16

text \<open>The functions that the kernel installs as handlers.\<close>

datatype handler = Fault_Handler | Fpu_Handler | Page_Fault_Handler | Timer_Handler | Keyboard_Handler | Apic_Err_Handler

text \<open>What the kernel tells the devices, in order: writes to ports, to device registers in memory and to model registers.\<close>

datatype device_write = Out u16 u8 | Mmio u32 u32 | Msr u32 u64

record tables = sys +
  gdt :: "gdt_entry list"
  gdtr :: "u16 \<times> addr"
  task_state_segment :: tss
  idt :: "idt_entry list"
  idtr :: "u16 \<times> addr"
  idt_initialized :: bool
  irq_routines :: "handler option list"
  device_writes :: "device_write list"

definition no_gdt_entry :: gdt_entry where
  "no_gdt_entry = \<lparr>limit_low = 0, base_low = 0, base_middle = 0, access = 0, granularity = 0, base_high = 0\<rparr>"

definition no_idt_entry :: idt_entry where
  "no_idt_entry = \<lparr>base_lo = 0, sel = 0, always0 = 0, idt_flags = 0, base_hi = 0\<rparr>"

definition no_tss :: tss where
  "no_tss = \<lparr>esp0 = 0, ss0 = 0, tss_eflags = 0, tss_es = 0, tss_cs = 0, tss_ss = 0, tss_ds = 0, tss_fs = 0, tss_gs = 0\<rparr>"

definition emit :: "device_write list \<Rightarrow> 'a tables_scheme \<Rightarrow> 'a tables_scheme" where
  "emit ws s = s\<lparr>device_writes := device_writes s @ ws\<rparr>"

section \<open>Segment descriptors\<close>

definition GDT_ENTRIES :: nat where [simp]: "GDT_ENTRIES = 6"
definition GDT_FLAG_DATASEG :: u8 where [simp]: "GDT_FLAG_DATASEG = 0x02"
definition GDT_FLAG_CODESEG :: u8 where [simp]: "GDT_FLAG_CODESEG = 0x0a"
definition GDT_FLAG_TSS :: u8 where [simp]: "GDT_FLAG_TSS = 0x09"
definition GDT_FLAG_SEGMENT :: u8 where [simp]: "GDT_FLAG_SEGMENT = 0x10"
definition GDT_FLAG_RING0 :: u8 where [simp]: "GDT_FLAG_RING0 = 0x00"
definition GDT_FLAG_RING3 :: u8 where [simp]: "GDT_FLAG_RING3 = 0x60"
definition GDT_FLAG_PRESENT :: u8 where [simp]: "GDT_FLAG_PRESENT = 0x80"
definition GDT_FLAG_4K_GRAN :: u8 where [simp]: "GDT_FLAG_4K_GRAN = 0x80"
definition GDT_FLAG_32_BIT :: u8 where [simp]: "GDT_FLAG_32_BIT = 0x40"
definition SIZEOF_TSS :: u32 where [simp]: "SIZEOF_TSS = 104"
definition SIZEOF_GDT_ENTRY :: u16 where [simp]: "SIZEOF_GDT_ENTRY = 8"

definition configure_gdt_entry :: "u32 \<Rightarrow> u32 \<Rightarrow> u8 \<Rightarrow> u8 \<Rightarrow> gdt_entry" where
  "configure_gdt_entry base limit acc gran =
     \<lparr>limit_low = ucast (limit AND 0xFFFF),
      base_low = ucast (base AND 0xFFFF),
      base_middle = ucast (drop_bit 16 base AND 0xFF),
      access = acc,
      granularity = ucast (drop_bit 16 limit AND 0x0F) OR (gran AND 0xF0),
      base_high = ucast (drop_bit 24 base AND 0xFF)\<rparr>"

definition gdt_set_gate :: "nat \<Rightarrow> u32 \<Rightarrow> u32 \<Rightarrow> u8 \<Rightarrow> u8 \<Rightarrow> 'a tables_scheme \<Rightarrow> 'a tables_scheme" where
  "gdt_set_gate num base limit acc gran s = s\<lparr>gdt := (gdt s)[num := configure_gdt_entry base limit acc gran]\<rparr>"

definition gdt_install :: "addr \<Rightarrow> addr \<Rightarrow> addr \<Rightarrow> 'a tables_scheme \<Rightarrow> 'a tables_scheme" where
  "gdt_install gdt_addr tss_addr boot_stack s =
     (let gran = GDT_FLAG_32_BIT OR GDT_FLAG_4K_GRAN; limit = 0xFFFFFFFF;
          s = s\<lparr>task_state_segment := no_tss\<rparr>;
          s = s\<lparr>gdtr := (SIZEOF_GDT_ENTRY * of_nat GDT_ENTRIES - 1, gdt_addr)\<rparr>;
          s = gdt_set_gate 0 0 0 0 0 s;
          s = gdt_set_gate 1 0 limit (GDT_FLAG_RING0 OR GDT_FLAG_SEGMENT OR GDT_FLAG_CODESEG OR GDT_FLAG_PRESENT) gran s;
          s = gdt_set_gate 2 0 limit (GDT_FLAG_RING0 OR GDT_FLAG_SEGMENT OR GDT_FLAG_DATASEG OR GDT_FLAG_PRESENT) gran s;
          s = gdt_set_gate 3 0 0xFFFFFFFF (GDT_FLAG_RING3 OR GDT_FLAG_SEGMENT OR GDT_FLAG_CODESEG OR GDT_FLAG_PRESENT)
                (GDT_FLAG_32_BIT OR GDT_FLAG_4K_GRAN) s;
          s = gdt_set_gate 4 0 limit (GDT_FLAG_RING3 OR GDT_FLAG_SEGMENT OR GDT_FLAG_DATASEG OR GDT_FLAG_PRESENT) gran s;
          s = s\<lparr>task_state_segment := (task_state_segment s)\<lparr>tss_eflags := 0x1202, ss0 := 0x10, esp0 := boot_stack - 0x10,
                  tss_cs := 0x0b, tss_ss := 0x13, tss_ds := 0x13, tss_es := 0x13, tss_fs := 0x13, tss_gs := 0x13\<rparr>\<rparr>
      in gdt_set_gate 5 tss_addr (SIZEOF_TSS - 1) (GDT_FLAG_PRESENT OR GDT_FLAG_TSS OR GDT_FLAG_RING0) gran s)"

text \<open>The stack that the processor switches to on an interrupt of a user task.\<close>

definition get_kernel_stack :: "'a sys_scheme \<Rightarrow> addr" where
  "get_kernel_stack s = stack (task_table s (current_id s)) + KERNEL_STACK_SIZE - 16"

definition set_kernel_stack :: "'a tables_scheme \<Rightarrow> 'a tables_scheme" where
  "set_kernel_stack s =
     s\<lparr>task_state_segment := (task_state_segment s)\<lparr>esp0 := stack (task_table s (current_id s)) + KERNEL_STACK_SIZE - 16\<rparr>\<rparr>"

section \<open>Interrupt gates\<close>

definition IDT_FLAG_PRESENT :: u8 where [simp]: "IDT_FLAG_PRESENT = 0x80"
definition IDT_FLAG_RING0 :: u8 where [simp]: "IDT_FLAG_RING0 = 0x00"
definition IDT_FLAG_RING3 :: u8 where [simp]: "IDT_FLAG_RING3 = 0x60"
definition IDT_FLAG_32BIT :: u8 where [simp]: "IDT_FLAG_32BIT = 0x08"
definition IDT_FLAG_INTTRAP :: u8 where [simp]: "IDT_FLAG_INTTRAP = 0x06"
definition IDT_FLAG_TRAPGATE :: u8 where [simp]: "IDT_FLAG_TRAPGATE = 0x07"
definition KERNEL_CODE_SELECTOR :: u16 where [simp]: "KERNEL_CODE_SELECTOR = 0x08"
definition INT_SYSCALL :: u8 where [simp]: "INT_SYSCALL = 0x80"
definition SIZEOF_IDT_ENTRY :: u16 where [simp]: "SIZEOF_IDT_ENTRY = 8"

definition configure_idt_entry :: "u32 \<Rightarrow> u16 \<Rightarrow> u8 \<Rightarrow> idt_entry" where
  "configure_idt_entry base selector flags =
     \<lparr>base_lo = ucast (base AND 0xFFFF), sel = selector, always0 = 0, idt_flags = flags,
      base_hi = ucast (drop_bit 16 base AND 0xFFFF)\<rparr>"

definition idt_set_gate :: "u8 \<Rightarrow> u32 \<Rightarrow> u16 \<Rightarrow> u8 \<Rightarrow> 'a tables_scheme \<Rightarrow> 'a tables_scheme" where
  "idt_set_gate num base selector flags s = s\<lparr>idt := (idt s)[unat num := configure_idt_entry base selector flags]\<rparr>"

definition idt_install :: "addr \<Rightarrow> addr \<Rightarrow> 'a tables_scheme \<Rightarrow> 'a tables_scheme" where
  "idt_install idt_addr isrsyscall s =
     (if \<not> idt_initialized s
      then idt_set_gate INT_SYSCALL isrsyscall KERNEL_CODE_SELECTOR
             (IDT_FLAG_PRESENT OR IDT_FLAG_RING3 OR IDT_FLAG_32BIT OR IDT_FLAG_TRAPGATE)
             (s\<lparr>idt_initialized := True, idtr := (SIZEOF_IDT_ENTRY * 256 - 1, idt_addr)\<rparr>)
      else s)"

section \<open>Handlers\<close>

definition MAX_HANDLERS :: u32 where [simp]: "MAX_HANDLERS = 256"

definition irq_install_handler :: "u32 \<Rightarrow> handler \<Rightarrow> 'a tables_scheme \<Rightarrow> int \<times> 'a tables_scheme" where
  "irq_install_handler irq h s =
     (if irq \<ge> MAX_HANDLERS then (- EINVAL, s) else (0, s\<lparr>irq_routines := (irq_routines s)[unat irq := Some h]\<rparr>))"

definition irq_uninstall_handler :: "u32 \<Rightarrow> 'a tables_scheme \<Rightarrow> int \<times> 'a tables_scheme" where
  "irq_uninstall_handler irq s =
     (if irq \<ge> MAX_HANDLERS then (- EINVAL, s) else (0, s\<lparr>irq_routines := (irq_routines s)[unat irq := None]\<rparr>))"

text \<open>\<open>isr\<close>, \<open>irq\<close> and \<open>apic\<close> number the stubs \<^verbatim>\<open>isr0\<close>, \<^verbatim>\<open>irq0\<close> and \<^verbatim>\<open>apic_timer\<close> and those after them.\<close>

definition set_kernel_gate :: "u8 \<times> addr \<Rightarrow> 'a tables_scheme \<Rightarrow> 'a tables_scheme" where
  "set_kernel_gate g = idt_set_gate (fst g) (snd g) KERNEL_CODE_SELECTOR
     (IDT_FLAG_PRESENT OR IDT_FLAG_RING0 OR IDT_FLAG_32BIT OR IDT_FLAG_INTTRAP)"

definition isrs_install :: "(nat \<Rightarrow> addr) \<Rightarrow> 'a tables_scheme \<Rightarrow> 'a tables_scheme" where
  "isrs_install isr s =
     (let s = fold set_kernel_gate (map (\<lambda>i. (of_nat i, isr i)) [0..<32]) s;
          s = fold (\<lambda>i s. snd (irq_install_handler (of_nat i) Fault_Handler s)) [0..<32] s;
          s = snd (irq_uninstall_handler 7 s)
      in snd (irq_install_handler 7 Fpu_Handler s))"

definition irq_remap :: "'a tables_scheme \<Rightarrow> 'a tables_scheme" where
  "irq_remap = emit [Out 0x20 0x11, Out 0xA0 0x11, Out 0x21 0x20, Out 0xA1 0x28, Out 0x21 0x04, Out 0xA1 0x02,
                     Out 0x21 0x01, Out 0xA1 0x01, Out 0x21 0x0, Out 0xA1 0x0]"

definition irq_install :: "(nat \<Rightarrow> addr) \<Rightarrow> (nat \<Rightarrow> addr) \<Rightarrow> 'a tables_scheme \<Rightarrow> 'a tables_scheme" where
  "irq_install irq apic s =
     (let s = irq_remap s;
          s = fold set_kernel_gate (map (\<lambda>i. (of_nat (32 + i), irq i)) [0..<24]) s
      in fold set_kernel_gate [(123, apic 0), (124, apic 1), (125, apic 2), (126, apic 3), (127, apic 4)] s)"

definition irq_init ::
  "addr \<Rightarrow> addr \<Rightarrow> (nat \<Rightarrow> addr) \<Rightarrow> (nat \<Rightarrow> addr) \<Rightarrow> (nat \<Rightarrow> addr) \<Rightarrow> 'a tables_scheme \<Rightarrow> int \<times> 'a tables_scheme" where
  "irq_init idt_addr isrsyscall isr irq apic s = (0, irq_install irq apic (isrs_install isr (idt_install idt_addr isrsyscall s)))"

section \<open>What the processor reads\<close>

text \<open>The descriptors as the processor decodes them.\<close>

definition segment_base :: "gdt_entry \<Rightarrow> u32" where
  "segment_base e = ucast (base_low e) OR push_bit 16 (ucast (base_middle e)) OR push_bit 24 (ucast (base_high e))"

definition segment_limit :: "gdt_entry \<Rightarrow> u32" where
  "segment_limit e = ucast (limit_low e) OR push_bit 16 (ucast (granularity e AND 0x0F))"

text \<open>The offset of the last byte: the limit counts pages when the granularity bit is set.\<close>

definition segment_last :: "gdt_entry \<Rightarrow> nat" where
  "segment_last e =
     (if granularity e AND GDT_FLAG_4K_GRAN \<noteq> 0 then (unat (segment_limit e) + 1) * 4096 - 1 else unat (segment_limit e))"

definition gate_address :: "idt_entry \<Rightarrow> u32" where
  "gate_address e = ucast (base_lo e) OR push_bit 16 (ucast (base_hi e))"

definition gate_present :: "idt_entry \<Rightarrow> bool" where
  "gate_present e \<longleftrightarrow> idt_flags e AND IDT_FLAG_PRESENT \<noteq> 0"

definition gate_ring :: "idt_entry \<Rightarrow> u8" where
  "gate_ring e = drop_bit 5 (idt_flags e) AND 3"

section \<open>Round trips\<close>

lemma low_masks:
  "b AND 0xFF = take_bit 8 b" "b AND 0xFFFF = take_bit 16 b" "b AND 0xF = take_bit 4 b" "b AND 0xFFFFF = take_bit 20 b" for b :: u32
  by (simp_all add: take_bit_eq_mask mask_numeral)

lemma split_base:
  "ucast (ucast (b AND 0xFFFF) :: u16) OR push_bit 16 (ucast (ucast (drop_bit 16 b AND 0xFF) :: u8))
     OR push_bit 24 (ucast (ucast (drop_bit 24 b AND 0xFF) :: u8)) = b" for b :: u32
proof (unfold low_masks, rule bit_word_eqI)
  fix n
  show "bit ((ucast (ucast (take_bit 16 b) :: u16) :: u32) OR push_bit 16 (ucast (ucast (take_bit 8 (drop_bit 16 b)) :: u8))
     OR push_bit 24 (ucast (ucast (take_bit 8 (drop_bit 24 b)) :: u8))) n = bit b n" if "n < LENGTH(32)"
    using that by (cases "24 \<le> n") (auto simp: bit_simps)
qed

lemma split_address:
  "ucast (ucast (b AND 0xFFFF) :: u16) OR push_bit 16 (ucast (ucast (drop_bit 16 b AND 0xFFFF) :: u16)) = b" for b :: u32
  unfolding low_masks by (rule bit_word_eqI) (auto simp: bit_simps)

lemma low_nibble: "(x OR (g AND 0xF0)) AND 0x0F = take_bit 4 x" for x :: u8
proof -
  have "(x OR (g AND 0xF0)) AND 0x0F = x AND 0x0F" by (simp add: bit.conj_disj_distrib2 and.assoc)
  then show ?thesis by (simp add: take_bit_eq_mask mask_numeral)
qed

lemma high_nibble: "(ucast (drop_bit 16 b AND 0x0F :: u32) OR (g AND 0xF0)) AND 0xF0 = g AND (0xF0 :: u8)"
proof -
  have "ucast (drop_bit 16 b AND 0x0F :: u32) AND (0xF0 :: u8) = 0"
  proof (unfold low_masks, rule bit_word_eqI)
    fix n
    have "n < 4 \<Longrightarrow> \<not> bit (0xF0 :: u8) n" by (auto simp: less_Suc_eq numeral_eq_Suc)
    then show "bit (ucast (take_bit 4 (drop_bit 16 b)) AND (0xF0 :: u8)) n = bit 0 n" by (auto simp: bit_simps)
  qed
  then show ?thesis by (simp add: bit.conj_disj_distrib2 and.assoc)
qed

lemma split_limit:
  "ucast (ucast (b AND 0xFFFF) :: u16) OR push_bit 16 (ucast ((ucast (drop_bit 16 b AND 0x0F) OR (g AND 0xF0)) AND 0x0F :: u8))
     = b AND 0xFFFFF" for b :: u32
  unfolding low_nibble unfolding low_masks by (rule bit_word_eqI) (auto simp: bit_simps)

lemma configured:
  "segment_base (configure_gdt_entry base limit acc gran) = base"
  "segment_limit (configure_gdt_entry base limit acc gran) = limit AND 0xFFFFF"
  "access (configure_gdt_entry base limit acc gran) = acc"
  "granularity (configure_gdt_entry base limit acc gran) AND 0xF0 = gran AND 0xF0"
  by (simp_all add: segment_base_def segment_limit_def configure_gdt_entry_def split_base split_limit high_nibble)

text \<open>
  The processor decodes of a configured descriptor the base that was given, the lower 20 bits of the limit, the
  access byte and the upper four flags.
\<close>

theorem gdt_entry_roundtrip:
  "segment_base (configure_gdt_entry base limit acc gran) = base \<and>
   segment_limit (configure_gdt_entry base limit acc gran) = limit AND 0xFFFFF \<and>
   access (configure_gdt_entry base limit acc gran) = acc \<and>
   granularity (configure_gdt_entry base limit acc gran) AND 0xF0 = gran AND 0xF0"
  by (simp add: configured)

lemma gate_address_configured: "gate_address (configure_idt_entry base selector flags) = base"
  by (simp add: gate_address_def configure_idt_entry_def split_address)

section \<open>The installed tables\<close>

lemma unat_u8: "n < 256 \<Longrightarrow> unat (of_nat n :: u8) = n"
  by (simp add: unat_of_nat take_bit_nat_eq_self)

lemma idt_set_kernel_gate [simp]:
  "idt (set_kernel_gate g s) = (idt s)[unat (fst g) := configure_idt_entry (snd g) KERNEL_CODE_SELECTOR 0x8E]"
  by (simp add: set_kernel_gate_def idt_set_gate_def)

lemma length_set_kernel_gates [simp]: "length (idt (fold set_kernel_gate gs s)) = length (idt s)"
  by (induction gs arbitrary: s) simp_all

lemma nth_fold_kernel_gates:
  assumes "\<forall>g \<in> set gs. unat (fst g) < length (idt s)"
  shows "idt (fold set_kernel_gate gs s) ! n =
    (case map_of (rev gs) (of_nat n) of
       Some a \<Rightarrow> if n < 256 then configure_idt_entry a KERNEL_CODE_SELECTOR 0x8E else idt s ! n
     | None \<Rightarrow> idt s ! n)"
  using assms
proof (induction gs rule: rev_induct)
  case (snoc g gs)
  have e: "of_nat n = fst g \<and> n < 256 \<longleftrightarrow> n = unat (fst g)"
    using unsigned_less [of "fst g", where ?'a = nat] unat_u8 [of n] by auto
  show ?case
  proof (cases "n = unat (fst g)")
    case True
    then show ?thesis using snoc.prems e by simp
  next
    case False
    then have o: "idt (set_kernel_gate g (fold set_kernel_gate gs s)) ! n = idt (fold set_kernel_gate gs s) ! n"
      by simp
    show ?thesis
      using snoc False e by (cases "of_nat n = fst g") (auto simp: o split: option.splits)
  qed
qed simp

definition kernel_gates :: "(nat \<Rightarrow> addr) \<Rightarrow> (nat \<Rightarrow> addr) \<Rightarrow> (nat \<Rightarrow> addr) \<Rightarrow> nat \<Rightarrow> addr option" where
  "kernel_gates isr irq apic n =
     (if n < 32 then Some (isr n) else if n < 56 then Some (irq (n - 32))
      else if 123 \<le> n \<and> n \<le> 127 then Some (apic (n - 123)) else None)"

lemma map_of_of_nat:
  "a + k \<le> 256 \<Longrightarrow> n < 256 \<Longrightarrow>
     map_of (rev (map (\<lambda>i. (of_nat (a + i) :: u8, f i)) [0..<k])) (of_nat n) = (if a \<le> n \<and> n < a + k then Some (f (n - a)) else None)"
proof (induction k)
  case (Suc k)
  have "(of_nat n :: u8) = of_nat (a + k) \<longleftrightarrow> n = a + k"
    using Suc.prems by (metis add_Suc_right less_eq_Suc_le unat_u8)
  then show ?case using Suc by (auto simp: rev_map)
qed simp

lemma nth_gates:
  "a + k \<le> 256 \<Longrightarrow> n < 256 \<Longrightarrow> length (idt s) = 256 \<Longrightarrow>
     idt (fold set_kernel_gate (map (\<lambda>i. (of_nat (a + i), f i)) [0..<k]) s) ! n =
       (if a \<le> n \<and> n < a + k then configure_idt_entry (f (n - a)) KERNEL_CODE_SELECTOR 0x8E else idt s ! n)"
  by (subst nth_fold_kernel_gates)
    (auto simp: map_of_of_nat unsigned_less [where ?'a = nat and ?'b = 8, simplified] simp del: of_nat_add)

lemma gates_idt_fields [simp]:
  "idt (irq_remap s) = idt s" "idt (snd (irq_install_handler i h s)) = idt s" "idt (snd (irq_uninstall_handler i s)) = idt s"
  "idt (fold (\<lambda>i s. snd (irq_install_handler (of_nat i) h s)) is s) = idt s"
  by (simp_all add: irq_remap_def emit_def irq_install_handler_def irq_uninstall_handler_def)
    (induction "is" arbitrary: s; simp add: irq_install_handler_def)

text \<open>
  C24: after \<^verbatim>\<open>irq_init\<close> on an empty table every gate leads where it should: 0 to 31 to the exceptions, 32 to 55 to the
  interrupt lines, 123 to 127 to the local APIC, 0x80 to the system calls, and no other is present; only the gate of the
  system calls can be called by a user task.
\<close>

theorem irq_init_gates:
  assumes "idt s = replicate 256 no_idt_entry" and "\<not> idt_initialized s" and "n < 256"
  shows "let g = idt (snd (irq_init idt_addr isrsyscall isr irq apic s)) ! n in
    (gate_present g \<longleftrightarrow> n = 0x80 \<or> kernel_gates isr irq apic n \<noteq> None)
    \<and> (gate_present g \<longrightarrow> gate_address g = (if n = 0x80 then isrsyscall else the (kernel_gates isr irq apic n)) \<and> sel g = 0x08)
    \<and> (gate_present g \<and> gate_ring g = 3 \<longleftrightarrow> n = 0x80)"
proof -
  let ?s = "idt_install idt_addr isrsyscall s"
  let ?apic = "[(123 :: u8, apic 0), (124, apic 1), (125, apic 2), (126, apic 3), (127, apic 4)]"
  let ?fs = "if n = 0x80 then configure_idt_entry isrsyscall 0x08 0xEF else no_idt_entry"
  have s1: "idt ?s ! n = ?fs" "length (idt ?s) = 256"
    using assms by (simp_all add: idt_install_def idt_set_gate_def nth_list_update)
  have apic: "?apic = map (\<lambda>i. (of_nat (123 + i), apic i)) [0..<5]" by (simp add: upt_rec numeral_eq_Suc)
  have g0: "idt (fold set_kernel_gate (map (\<lambda>i. (of_nat i, isr i)) [0..<32]) ?s) ! n =
      (if n < 32 then configure_idt_entry (isr n) KERNEL_CODE_SELECTOR 0x8E else ?fs)"
    using nth_gates [of 0 32 n ?s isr] assms(3) s1 by simp
  have "idt (snd (irq_init idt_addr isrsyscall isr irq apic s)) ! n =
      (if 123 \<le> n \<and> n < 123 + 5 then configure_idt_entry (apic (n - 123)) KERNEL_CODE_SELECTOR 0x8E
       else if 32 \<le> n \<and> n < 32 + 24 then configure_idt_entry (irq (n - 32)) KERNEL_CODE_SELECTOR 0x8E
       else if n < 32 then configure_idt_entry (isr n) KERNEL_CODE_SELECTOR 0x8E else ?fs)"
    unfolding irq_init_def irq_install_def isrs_install_def Let_def snd_conv apic
    using assms(3) g0 s1(2) by (simp add: nth_gates del: of_nat_add split del: if_split cong: if_cong)
  then have "idt (snd (irq_init idt_addr isrsyscall isr irq apic s)) ! n =
      (case kernel_gates isr irq apic n of None \<Rightarrow> ?fs | Some b \<Rightarrow> configure_idt_entry b 0x08 0x8E)"
    by (auto simp: kernel_gates_def)
  moreover have "kernel_gates isr irq apic 0x80 = None" by (simp add: kernel_gates_def)
  ultimately show ?thesis
    by (auto simp: gate_present_def gate_ring_def gate_address_configured Let_def split: option.splits)
       (simp_all add: configure_idt_entry_def no_idt_entry_def)
qed

text \<open>The state before anything is installed.\<close>

definition boot_tables :: tables where
  "boot_tables = sys.extend boot_sys
     (tables.fields (replicate 6 no_gdt_entry) (0, 0) no_tss (replicate 256 no_idt_entry) (0, 0) False (replicate 256 None) [])"

lemma boot_tables_fields [simp]:
  "gdt boot_tables = replicate 6 no_gdt_entry" "idt boot_tables = replicate 256 no_idt_entry" "\<not> idt_initialized boot_tables"
  "irq_routines boot_tables = replicate 256 None" "device_writes boot_tables = []" "task_table boot_tables = task_table boot_sys"
  "current_id boot_tables = current_id boot_sys" "sys.truncate boot_tables = boot_sys"
  by (simp_all add: boot_tables_def sys.defs tables.defs)

lemma irq_init_gates_witness:
  "let g = idt (snd (irq_init 0x1000 0x2000 of_nat (\<lambda>i. 0x100 + of_nat i) (\<lambda>i. 0x200 + of_nat i) boot_tables)) ! 33 in
     gate_present g \<and> gate_address g = 0x101 \<and> gate_ring g \<noteq> 3"
  using irq_init_gates [where s = boot_tables and n = 33 and idt_addr = "0x1000" and isrsyscall = "0x2000" and isr = of_nat
      and irq = "\<lambda>i. 0x100 + of_nat i" and apic = "\<lambda>i. 0x200 + of_nat i"]
  by (simp add: kernel_gates_def Let_def)

text \<open>The segments of the kernel and of the user tasks cover all of the address space.\<close>

lemma segment_last_configured:
  "segment_last (configure_gdt_entry base limit acc gran) =
     (if gran AND 0x80 \<noteq> 0 then (unat (limit AND 0xFFFFF) + 1) * 4096 - 1 else unat (limit AND 0xFFFFF))"
proof -
  have "x AND 0x80 = (x AND 0xF0) AND 0x80" for x :: u8 by (simp add: and.assoc)
  then have "granularity (configure_gdt_entry base limit acc gran) AND 0x80 = gran AND 0x80"
    by (metis configured(4))
  then show ?thesis by (simp add: segment_last_def configured)
qed

lemma gdt_install_flat:
  assumes "length (gdt s) = 6" and "n \<in> {1, 2, 3, 4}"
  shows "segment_base (gdt (gdt_install ga ta stk s) ! n) = 0 \<and> segment_last (gdt (gdt_install ga ta stk s) ! n) = 2 ^ 32 - 1"
  using assms
  by (auto simp: gdt_install_def gdt_set_gate_def configured segment_last_configured Let_def)

lemma tss_limit_counts_pages:
  assumes "length (gdt s) = 6"
  shows "segment_base (gdt (gdt_install ga ta stk s) ! 5) = ta \<and>
    segment_last (gdt (gdt_install ga ta stk s) ! 5) = unat SIZEOF_TSS * 4096 - 1"
  using assms
  by (auto simp: gdt_install_def gdt_set_gate_def configured segment_last_configured Let_def)

end

