(* ===== verification/Processor.thy ===== *)
theory Processor
  imports Cpu_Tables
begin

unbundle bit_operations_syntax

text \<open>
  The features of the processor, \<^verbatim>\<open>cpu/processor.c\<close> and \<^verbatim>\<open>include/lowlevel/processor.h\<close>: what \<^verbatim>\<open>cpuid\<close> reports, the
  switches in CR4, the barriers, the state of the floating point unit, and the frequency. The instruction \<^verbatim>\<open>cpuid\<close>, the
  time stamp counter and the tick counter are arguments.
\<close>

section \<open>State\<close>

datatype barrier = Default_Mb | Mfence | Lfence | Sfence

text \<open>The images that \<^verbatim>\<open>fnsave\<close> and \<^verbatim>\<open>fxsave\<close> write; the fields that the kernel initialises, and the rest as a whole.\<close>

record fpu_state =
  fpu_cwd :: u32
  fpu_swd :: u32
  fpu_twd :: u32
  fpu_fos :: u32
  fpu_mxcsr :: u32
  fpu_rest :: "nat \<Rightarrow> u32"

record cpu = tables +
  feature1 :: u32
  feature2 :: u32
  feature3 :: u32
  addr_width :: u32
  cpu_freq :: u32
  cr4 :: u32
  mb :: barrier
  rmb :: barrier
  wmb :: barrier
  fxsr :: bool
  task_fpu :: "u32 \<Rightarrow> fpu_state"
  fpu_regs :: fpu_state
  cr0_TS :: bool

type_synonym cpuid = "u32 \<Rightarrow> u32 \<times> u32 \<times> u32 \<times> u32"

section \<open>Features\<close>

definition CPU_FEATURE_FPU :: u32 where [simp]: "CPU_FEATURE_FPU = 2 ^ 0"
definition CPU_FEATURE_MSR :: u32 where [simp]: "CPU_FEATURE_MSR = 2 ^ 5"
definition CPU_FEATURE_APIC :: u32 where [simp]: "CPU_FEATURE_APIC = 2 ^ 9"
definition CPU_FEATURE_SEP :: u32 where [simp]: "CPU_FEATURE_SEP = 2 ^ 11"
definition CPU_FEATURE_PGE :: u32 where [simp]: "CPU_FEATURE_PGE = 2 ^ 13"
definition CPU_FEATURE_FXSR :: u32 where [simp]: "CPU_FEATURE_FXSR = 2 ^ 24"
definition CPU_FEATURE_SSE :: u32 where [simp]: "CPU_FEATURE_SSE = 2 ^ 25"
definition CPU_FEATURE_SSE2 :: u32 where [simp]: "CPU_FEATURE_SSE2 = 2 ^ 26"
definition CPU_FEATURE_X2APIC :: u32 where [simp]: "CPU_FEATURE_X2APIC = 2 ^ 21"
definition CPU_FEATURE_AVX :: u32 where [simp]: "CPU_FEATURE_AVX = 2 ^ 28"
definition CPU_FEATURE_HYPERVISOR :: u32 where [simp]: "CPU_FEATURE_HYPERVISOR = 2 ^ 31"
definition CPU_FEATURE_NX :: u32 where [simp]: "CPU_FEATURE_NX = 2 ^ 20"
definition CR4_PGE :: u32 where [simp]: "CR4_PGE = 2 ^ 7"
definition CR4_OSFXSR :: u32 where [simp]: "CR4_OSFXSR = 2 ^ 9"
definition CR4_OSXMMEXCPT :: u32 where [simp]: "CR4_OSXMMEXCPT = 2 ^ 10"

definition has_fpu :: "'a cpu_scheme \<Rightarrow> u32" where "has_fpu s = feature1 s AND CPU_FEATURE_FPU"
definition has_msr :: "'a cpu_scheme \<Rightarrow> u32" where "has_msr s = feature1 s AND CPU_FEATURE_MSR"
definition has_apic :: "'a cpu_scheme \<Rightarrow> u32" where "has_apic s = feature1 s AND CPU_FEATURE_APIC"
definition has_fxsr :: "'a cpu_scheme \<Rightarrow> u32" where "has_fxsr s = feature1 s AND CPU_FEATURE_FXSR"
definition has_sse :: "'a cpu_scheme \<Rightarrow> u32" where "has_sse s = feature1 s AND CPU_FEATURE_SSE"
definition has_sse2 :: "'a cpu_scheme \<Rightarrow> u32" where "has_sse2 s = feature1 s AND CPU_FEATURE_SSE2"
definition has_pge :: "'a cpu_scheme \<Rightarrow> u32" where "has_pge s = feature1 s AND CPU_FEATURE_PGE"
definition has_sep :: "'a cpu_scheme \<Rightarrow> u32" where "has_sep s = feature1 s AND CPU_FEATURE_SEP"
definition has_x2apic :: "'a cpu_scheme \<Rightarrow> u32" where "has_x2apic s = feature2 s AND CPU_FEATURE_X2APIC"
definition has_avx :: "'a cpu_scheme \<Rightarrow> u32" where "has_avx s = feature2 s AND CPU_FEATURE_AVX"
definition on_hypervisor :: "'a cpu_scheme \<Rightarrow> u32" where "on_hypervisor s = feature2 s AND CPU_FEATURE_HYPERVISOR"
definition has_nx :: "'a cpu_scheme \<Rightarrow> u32" where "has_nx s = feature3 s AND CPU_FEATURE_NX"

text \<open>The first part of \<^verbatim>\<open>cpu_detection\<close>: reading the features, unless they have been read.\<close>

definition read_features :: "cpuid \<Rightarrow> 'a cpu_scheme \<Rightarrow> 'a cpu_scheme" where
  "read_features cpuid s =
     (let (a, b, c, d) = cpuid 1;
          s = s\<lparr>feature2 := c, feature1 := d\<rparr>;
          family = drop_bit 8 (a AND 0x00000F00); model = drop_bit 4 (a AND 0x000000F0); stepping = a AND 0x0000000F;
          s = (if family = 6 \<and> model < 3 \<and> stepping < 3 then s\<lparr>feature1 := feature1 s AND NOT CPU_FEATURE_SEP\<rparr> else s);
          (_, _, _, d) = cpuid 0x80000001;
          s = s\<lparr>feature3 := d\<rparr>;
          (a, _, _, _) = cpuid 0x80000008
      in s\<lparr>addr_width := a\<rparr>)"

text \<open>
  The vendor of a hypervisor is read into a local buffer and not used. \<open>fninit\<close> stands for the state of the unit after
  that instruction.
\<close>

definition cpu_detection :: "cpuid \<Rightarrow> fpu_state \<Rightarrow> 'a cpu_scheme \<Rightarrow> int \<times> 'a cpu_scheme" where
  "cpu_detection cpuid fninit s =
     (let first_time = (feature1 s = 0);
          s = (if feature1 s = 0 then read_features cpuid s else s);
          cr = cr4 s;
          cr = (if has_fxsr s \<noteq> 0 then cr OR CR4_OSFXSR else cr);
          cr = (if has_sse s \<noteq> 0 then cr OR CR4_OSXMMEXCPT else cr);
          cr = (if has_pge s \<noteq> 0 then cr OR CR4_PGE else cr);
          s = s\<lparr>cr4 := cr\<rparr>;
          s = (if first_time \<and> has_sse s \<noteq> 0 then s\<lparr>wmb := Sfence\<rparr> else s);
          s = (if first_time \<and> has_sse2 s \<noteq> 0 then s\<lparr>rmb := Lfence, mb := Mfence\<rparr> else s);
          s = (if has_fpu s \<noteq> 0 \<and> first_time then s\<lparr>fpu_regs := fninit\<rparr> else s);
          s = (if first_time \<and> has_fxsr s \<noteq> 0 then s\<lparr>fxsr := True\<rparr> else s)
      in (0, s))"

section \<open>The floating point unit\<close>

definition zero_fpu :: fpu_state where
  "zero_fpu = \<lparr>fpu_cwd = 0, fpu_swd = 0, fpu_twd = 0, fpu_fos = 0, fpu_mxcsr = 0, fpu_rest = (\<lambda>_. 0)\<rparr>"

definition default_fpu_init :: fpu_state where
  "default_fpu_init = zero_fpu\<lparr>fpu_cwd := 0xffff037f, fpu_swd := 0xffff0000, fpu_twd := 0xffffffff, fpu_fos := 0xffff0000\<rparr>"

definition fpu_init_fxsr :: "'a cpu_scheme \<Rightarrow> fpu_state" where
  "fpu_init_fxsr s =
     (let fx = zero_fpu\<lparr>fpu_cwd := 0x37f\<rparr> in if has_sse s \<noteq> 0 then fx\<lparr>fpu_mxcsr := 0x1f80\<rparr> else fx)"

text \<open>The functions behind the pointers \<^verbatim>\<open>fpu_init\<close>, \<^verbatim>\<open>save_fpu_state\<close> and \<^verbatim>\<open>restore_fpu_state\<close>.\<close>

definition fpu_init :: "u32 \<Rightarrow> 'a cpu_scheme \<Rightarrow> 'a cpu_scheme" where
  "fpu_init t s = s\<lparr>task_fpu := (task_fpu s)(t := if fxsr s then fpu_init_fxsr s else default_fpu_init)\<rparr>"

text \<open>
  What the save leaves in the unit: \<^verbatim>\<open>fnsave\<close> initialises the control registers, \<^verbatim>\<open>fnclex\<close> clears the exception flags and the
  busy bit of the status word.
\<close>

definition default_save_fpu_state :: "fpu_state \<Rightarrow> fpu_state \<times> fpu_state" where
  "default_save_fpu_state r =
     (r, r\<lparr>fpu_cwd := 0xffff037f, fpu_swd := 0xffff0000, fpu_twd := 0xffffffff, fpu_fos := 0xffff0000\<rparr>)"

definition save_fpu_state_fxsr :: "fpu_state \<Rightarrow> fpu_state \<times> fpu_state" where
  "save_fpu_state_fxsr r = (r, r\<lparr>fpu_swd := fpu_swd r AND NOT 0x80FF\<rparr>)"

definition save_fpu_state :: "u32 \<Rightarrow> 'a cpu_scheme \<Rightarrow> 'a cpu_scheme" where
  "save_fpu_state t s =
     (let (image, regs) = (if fxsr s then save_fpu_state_fxsr else default_save_fpu_state) (fpu_regs s)
      in s\<lparr>task_fpu := (task_fpu s)(t := image), fpu_regs := regs\<rparr>)"

lemma save_fpu_state_image:
  "save_fpu_state t s = s\<lparr>task_fpu := (task_fpu s)(t := fpu_regs s), fpu_regs := fpu_regs (save_fpu_state t s)\<rparr>"
  by (simp add: save_fpu_state_def save_fpu_state_fxsr_def default_save_fpu_state_def)

lemma save_fpu_state_fields [simp]:
  "task_fpu (save_fpu_state t s) = (task_fpu s)(t := fpu_regs s)" "task_table (save_fpu_state t s) = task_table s"
  "current_id (save_fpu_state t s) = current_id s" "device_writes (save_fpu_state t s) = device_writes s"
  by (subst save_fpu_state_image; simp)+

definition restore_fpu_state :: "u32 \<Rightarrow> 'a cpu_scheme \<Rightarrow> 'a cpu_scheme" where
  "restore_fpu_state t s = s\<lparr>fpu_regs := task_fpu s t\<rparr>"

section \<open>The frequency\<close>

text \<open>A loop that looks at a counter until a condition fails; the result is the number of the look that ended it.\<close>

fun wait_while :: "nat \<Rightarrow> (nat \<Rightarrow> bool) \<Rightarrow> nat \<Rightarrow> nat option" where
  "wait_while 0 P i = None"
| "wait_while (Suc k) P i = (if P i then wait_while k P (Suc i) else Some i)"

text \<open>\<open>ticks i\<close> and \<open>tsc i\<close> are the tick counter and the time stamp counter at the \<open>i\<close>-th look at the tick counter.\<close>

definition detect_cpu_frequency ::
  "nat \<Rightarrow> (nat \<Rightarrow> u64) \<Rightarrow> (nat \<Rightarrow> u64) \<Rightarrow> 'a cpu_scheme \<Rightarrow> (u32 \<times> 'a cpu_scheme) option" where
  "detect_cpu_frequency k ticks tsc s =
     (if cpu_freq s > 0 then Some (cpu_freq s, s)
      else case wait_while k (\<lambda>i. ticks i - ticks 0 = 0) 1 of
        None \<Rightarrow> None
      | Some i \<Rightarrow>
          (case wait_while k (\<lambda>j. ticks j - ticks i < 100) (Suc i) of
             None \<Rightarrow> None
           | Some j \<Rightarrow>
               let start = tsc i; stop = tsc j;
                   diff = (if stop > start then stop - start else start - stop);
                   freq = ucast (diff div 1000000)
               in Some (freq, s\<lparr>cpu_freq := freq\<rparr>)))"

definition get_cpu_frequency ::
  "nat \<Rightarrow> (nat \<Rightarrow> u64) \<Rightarrow> (nat \<Rightarrow> u64) \<Rightarrow> 'a cpu_scheme \<Rightarrow> (u32 \<times> 'a cpu_scheme) option" where
  "get_cpu_frequency k ticks tsc s =
     (if cpu_freq s > 0 then Some (cpu_freq s, s) else detect_cpu_frequency k ticks tsc s)"

text \<open>The least significant bit, and 32 for zero; \<^verbatim>\<open>msb\<close> stands with the scheduler.\<close>

fun low_bit :: "nat \<Rightarrow> nat \<Rightarrow> u32 \<Rightarrow> nat" where
  "low_bit 0 n i = n"
| "low_bit (Suc k) n i = (if bit i n then n else low_bit k (Suc n) i)"

definition lsb :: "u32 \<Rightarrow> nat" where
  "lsb i = (if i = 0 then 32 else low_bit 32 0 i)"

text \<open>The processor at boot.\<close>

definition boot_cpu :: cpu where
  "boot_cpu = tables.extend boot_tables (cpu.fields 0 0 0 0 0 0 Default_Mb Default_Mb Default_Mb False (\<lambda>_. zero_fpu) zero_fpu False)"

end
