(* ===== verification/Apic.thy ===== *)
theory Apic
  imports Processor
begin

unbundle bit_operations_syntax

text \<open>
  The advanced interrupt controller, \<^verbatim>\<open>devices/apic.c\<close>. What the registers of the devices read as is the argument \<open>hw\<close>;
  what the kernel writes to them is the list of device writes. The tables of the firmware are read through the page
  tables, byte by byte; \<open>None\<close> is an access that faults, or one outside an array.
\<close>

section \<open>State\<close>

definition MAX_CORES :: nat where [simp]: "MAX_CORES = 4"

record apic = cpu +
  apic_processors :: "addr list"
  boot_processor :: nat
  apic_mp :: addr
  apic_config :: addr
  lapic :: addr
  ioapic :: addr
  icr :: u32
  ncores :: u32
  irq_redirect :: "u8 list"
  initialized :: bool
  lapic_msr :: bool

text \<open>Registers in memory, model registers, and the registers of the I/O APIC by the index written to its selector.\<close>

record hardware =
  mmio_in :: "addr \<Rightarrow> u32"
  msr_in :: "u32 \<Rightarrow> u64"
  ioapic_in :: "u32 \<Rightarrow> u32"

definition APIC_ID :: u32 where [simp]: "APIC_ID = 0x20"
definition APIC_VERSION :: u32 where [simp]: "APIC_VERSION = 0x30"
definition APIC_TPR :: u32 where [simp]: "APIC_TPR = 0x80"
definition APIC_EOI :: u32 where [simp]: "APIC_EOI = 0xB0"
definition APIC_SVR :: u32 where [simp]: "APIC_SVR = 0xF0"
definition APIC_ESR :: u32 where [simp]: "APIC_ESR = 0x280"
definition APIC_LVT_T :: u32 where [simp]: "APIC_LVT_T = 0x320"
definition APIC_LVT_TSR :: u32 where [simp]: "APIC_LVT_TSR = 0x330"
definition APIC_LVT_PMC :: u32 where [simp]: "APIC_LVT_PMC = 0x340"
definition APIC_LINT0 :: u32 where [simp]: "APIC_LINT0 = 0x350"
definition APIC_LINT1 :: u32 where [simp]: "APIC_LINT1 = 0x360"
definition APIC_LVT_ER :: u32 where [simp]: "APIC_LVT_ER = 0x370"
definition APIC_ICR :: u32 where [simp]: "APIC_ICR = 0x380"
definition APIC_CCR :: u32 where [simp]: "APIC_CCR = 0x390"
definition APIC_DCR :: u32 where [simp]: "APIC_DCR = 0x3E0"
definition IOAPIC_REG_VER :: u32 where [simp]: "IOAPIC_REG_VER = 1"
definition IOAPIC_REG_TABLE :: u32 where [simp]: "IOAPIC_REG_TABLE = 0x10"
definition MP_TABLE_SIG :: u32 where [simp]: "MP_TABLE_SIG = 0x5f504d5f"
definition PG_PCD :: u32 where [simp]: "PG_PCD = 0x10"

definition IOAPIC_ADDR :: "addr \<Rightarrow> addr" where "IOAPIC_ADDR kernel_start = kernel_start - 1 * PAGE_SIZE"
definition LAPIC_ADDR :: "addr \<Rightarrow> addr" where "LAPIC_ADDR kernel_start = kernel_start - 2 * PAGE_SIZE"

section \<open>Registers\<close>

definition lapic_read :: "hardware \<Rightarrow> u32 \<Rightarrow> 'a apic_scheme \<Rightarrow> u32" where
  "lapic_read hw a s =
     (if lapic_msr s then ucast (msr_in hw (0x800 + drop_bit 4 a)) else mmio_in hw (lapic s + a))"

definition lapic_write :: "u32 \<Rightarrow> u32 \<Rightarrow> 'a apic_scheme \<Rightarrow> 'a apic_scheme" where
  "lapic_write a v s =
     emit [if lapic_msr s then Msr (0x800 + drop_bit 4 a) (ucast v) else Mmio (lapic s + a) v] s"

definition ioapic_read :: "hardware \<Rightarrow> u32 \<Rightarrow> 'a apic_scheme \<Rightarrow> u32 \<times> 'a apic_scheme" where
  "ioapic_read hw reg s = (ioapic_in hw reg, emit [Mmio (ioapic s) reg] s)"

definition ioapic_write :: "u32 \<Rightarrow> u32 \<Rightarrow> 'a apic_scheme \<Rightarrow> 'a apic_scheme" where
  "ioapic_write reg v s = emit [Mmio (ioapic s) reg, Mmio (ioapic s + 16) v] s"

definition ioapic_version :: "hardware \<Rightarrow> 'a apic_scheme \<Rightarrow> u32 \<times> 'a apic_scheme" where
  "ioapic_version hw s =
     (if ioapic s \<noteq> 0 then let (v, s) = ioapic_read hw IOAPIC_REG_VER s in (v AND 0xFF, s) else (0, s))"

definition ioapic_max_redirection_entry :: "hardware \<Rightarrow> 'a apic_scheme \<Rightarrow> u32 \<times> 'a apic_scheme" where
  "ioapic_max_redirection_entry hw s =
     (if ioapic s \<noteq> 0 then let (v, s) = ioapic_read hw IOAPIC_REG_VER s in (drop_bit 16 v AND 0xFF, s) else (0, s))"

definition apic_eoi :: "'a apic_scheme \<Rightarrow> 'a apic_scheme" where
  "apic_eoi s = lapic_write APIC_EOI 0 s"

definition apic_is_enabled :: "'a apic_scheme \<Rightarrow> bool" where
  "apic_is_enabled s \<longleftrightarrow> lapic s \<noteq> 0 \<and> initialized s"

definition apic_cpu_id :: "hardware \<Rightarrow> 'a apic_scheme \<Rightarrow> u32" where
  "apic_cpu_id hw s = (if apic_is_enabled s then drop_bit 24 (lapic_read hw APIC_ID s) else 0)"

definition apic_set_cpu_id :: "u32 \<Rightarrow> 'a apic_scheme \<Rightarrow> 'a apic_scheme" where
  "apic_set_cpu_id i s = (if apic_is_enabled s then lapic_write APIC_ID (push_bit 24 i) s else s)"

definition apic_version :: "hardware \<Rightarrow> 'a apic_scheme \<Rightarrow> u32" where
  "apic_version hw s = (if lapic s \<noteq> 0 then lapic_read hw APIC_VERSION s AND 0xFF else 0)"

definition apic_lvt_entries :: "hardware \<Rightarrow> 'a apic_scheme \<Rightarrow> u32" where
  "apic_lvt_entries hw s = (if lapic s \<noteq> 0 then drop_bit 16 (lapic_read hw APIC_VERSION s) AND 0xFF else 0)"

section \<open>The timer of the local APIC\<close>

definition apic_disable_timer :: "'a apic_scheme \<Rightarrow> int \<times> 'a apic_scheme" where
  "apic_disable_timer s =
     (if \<not> apic_is_enabled s then (- EINVAL, s) else (0, lapic_write APIC_LVT_T 0x10000 s))"

definition apic_enable_timer :: "'a apic_scheme \<Rightarrow> int \<times> 'a apic_scheme" where
  "apic_enable_timer s =
     (if apic_is_enabled s \<and> icr s \<noteq> 0
      then (0, lapic_write APIC_ICR (icr s) (lapic_write APIC_LVT_T 0x2007B (lapic_write APIC_DCR 0xB s)))
      else (- EINVAL, s))"

definition lapic_reset :: "hardware \<Rightarrow> 'a apic_scheme \<Rightarrow> int \<times> 'a apic_scheme" where
  "lapic_reset hw s =
     (if lapic s = 0 then (- ENXIO, s)
      else let max_lvt = apic_lvt_entries hw s;
               s = lapic_write APIC_SVR 0x17F s;
               s = lapic_write APIC_TPR 0x00 s;
               s = (if icr s \<noteq> 0
                    then lapic_write APIC_ICR (icr s) (lapic_write APIC_LVT_T 0x2007B (lapic_write APIC_DCR 0xB s))
                    else lapic_write APIC_LVT_T 0x10000 s);
               s = (if max_lvt \<ge> 4 then lapic_write APIC_LVT_TSR 0x10000 s else s);
               s = (if max_lvt \<ge> 5 then lapic_write APIC_LVT_PMC 0x10000 s else s);
               s = lapic_write APIC_LINT0 0x7C s;
               s = lapic_write APIC_LINT1 0x7D s
           in (0, lapic_write APIC_LVT_ER 0x7E s))"

section \<open>Routing of the interrupt lines\<close>

text \<open>
  The two words of an entry of the redirection table. The bits that the code does not assign keep what the local variable
  holds: \<open>junk\<close> and \<open>junk2\<close>. The fields are vector (0 to 7), delivery mode (8 to 10), destination mode (11), polarity (13),
  trigger (15) and mask (16), and the physical destination (24 to 27) in the upper word.
\<close>

definition set_field :: "nat \<Rightarrow> nat \<Rightarrow> u32 \<Rightarrow> u32 \<Rightarrow> u32" where
  "set_field pos width v w = (w AND NOT (push_bit pos (mask width))) OR push_bit pos (take_bit width v)"

definition route_lower :: "u8 \<Rightarrow> u32 \<Rightarrow> u32 \<Rightarrow> u32" where
  "route_lower irq masked junk =
     (let w = set_field 11 1 0 junk;
          w = set_field 16 1 0 w;
          w = set_field 8 3 0 w;
          w = set_field 13 1 0 w;
          w = set_field 15 1 0 w;
          w = set_field 0 8 (0x20 + ucast irq) w
      in set_field 16 1 masked w)"

definition route_upper :: "u8 \<Rightarrow> u32 \<Rightarrow> u32" where
  "route_upper apicid junk = set_field 24 4 (ucast apicid) junk"

definition redirection_offset :: "u8 \<Rightarrow> 'a apic_scheme \<Rightarrow> u32" where
  "redirection_offset irq s = (if irq < 16 then ucast (irq_redirect s ! unat irq) * 2 else ucast irq * 2)"

definition ioapic_inton :: "hardware \<Rightarrow> u32 \<Rightarrow> u32 \<Rightarrow> u8 \<Rightarrow> u8 \<Rightarrow> 'a apic_scheme \<Rightarrow> int \<times> 'a apic_scheme" where
  "ioapic_inton hw junk junk2 irq apicid s =
     (if irq > 24 then (- EINVAL, s)
      else let off = redirection_offset irq s;
               s = ioapic_write (IOAPIC_REG_TABLE + off) (route_lower irq 0 junk) s;
               s = ioapic_write (IOAPIC_REG_TABLE + 1 + off) (route_upper apicid junk2) s;
               s = snd (ioapic_read hw (IOAPIC_REG_TABLE + 1 + off) s)
           in (0, snd (ioapic_read hw (IOAPIC_REG_TABLE + off) s)))"

definition ioapic_intoff :: "u32 \<Rightarrow> u32 \<Rightarrow> u8 \<Rightarrow> u8 \<Rightarrow> 'a apic_scheme \<Rightarrow> int \<times> 'a apic_scheme" where
  "ioapic_intoff junk junk2 irq apicid s =
     (if irq > 24 then (- EINVAL, s)
      else let off = redirection_offset irq s;
               s = ioapic_write (IOAPIC_REG_TABLE + off) (route_lower irq 1 junk) s
           in (0, ioapic_write (IOAPIC_REG_TABLE + 1 + off) (route_upper apicid junk2) s))"

section \<open>Reading memory\<close>

definition vbyte :: "'a mmu_scheme \<Rightarrow> addr \<Rightarrow> u8 option" where
  "vbyte s a = map_option (\<lambda>w. ucast (drop_bit (8 * (unat a mod 4)) w)) (vread s (a AND 0xFFFFFFFC))"

definition vhalf :: "'a mmu_scheme \<Rightarrow> addr \<Rightarrow> u16 option" where
  "vhalf s a = (case (vbyte s a, vbyte s (a + 1)) of
      (Some b0, Some b1) \<Rightarrow> Some (ucast b0 OR push_bit 8 (ucast b1)) | _ \<Rightarrow> None)"

definition vlong :: "'a mmu_scheme \<Rightarrow> addr \<Rightarrow> u32 option" where
  "vlong s a = (case (vhalf s a, vhalf s (a + 2)) of
      (Some h0, Some h1) \<Rightarrow> Some (ucast h0 OR push_bit 16 (ucast h1)) | _ \<Rightarrow> None)"

section \<open>Calibration\<close>

text \<open>
  \<open>ticks i\<close> is the tick counter at the \<open>i\<close>-th look. The firmware table holds the identification of the boot processor;
  the code reads outside its array when no processor is marked as such.
\<close>

definition boot_apic_id :: "'a apic_scheme \<Rightarrow> u8 option" where
  "boot_apic_id s =
     (if boot_processor s < length (apic_processors s) then vbyte s (apic_processors s ! boot_processor s + 1) else None)"

definition turn_on_lines :: "hardware \<Rightarrow> u32 \<Rightarrow> u32 \<Rightarrow> u8 \<Rightarrow> u32 \<Rightarrow> 'a apic_scheme \<Rightarrow> 'a apic_scheme" where
  "turn_on_lines hw junk junk2 apicid max_entry s =
     fold (\<lambda>i s. if i \<noteq> 2 then snd (ioapic_inton hw junk junk2 (of_nat i) apicid s) else s) [0..<unat max_entry + 1] s"

definition route_all ::
  "hardware \<Rightarrow> u32 \<Rightarrow> u32 \<Rightarrow> 'a apic_scheme \<Rightarrow> 'a apic_scheme option" where
  "route_all hw junk junk2 s =
     (if ioapic s = 0 then Some s
      else let (max_entry, s) = ioapic_max_redirection_entry hw s in
        (case boot_apic_id s of
           None \<Rightarrow> None
         | Some apicid \<Rightarrow>
             Some (snd (ioapic_intoff junk junk2 2 apicid (turn_on_lines hw junk junk2 apicid max_entry s)))))"

definition apic_calibration ::
  "nat \<Rightarrow> (nat \<Rightarrow> u64) \<Rightarrow> hardware \<Rightarrow> u32 \<Rightarrow> u32 \<Rightarrow> 'a apic_scheme
     \<Rightarrow> (int \<times> 'a apic_scheme) option" where
  "apic_calibration k ticks hw junk junk2 s =
     (if lapic s = 0 then Some (- ENXIO, s)
      else case wait_while k (\<lambda>i. ticks i - ticks 0 = 0) 1 of
        None \<Rightarrow> None
      | Some i \<Rightarrow>
          let s = lapic_write APIC_ICR 0xFFFFFFFF (lapic_write APIC_LVT_T 0x2007B (lapic_write APIC_DCR 0xB s)) in
          (case wait_while k (\<lambda>j. ticks j - ticks i < 3) (Suc i) of
             None \<Rightarrow> None
           | Some j \<Rightarrow>
               let s = s\<lparr>icr := (0xFFFFFFFF - lapic_read hw APIC_CCR s) div 3\<rparr>;
                   s = snd (lapic_reset hw s);
                   s = emit [Out 0xA1 0xFF, Out 0x21 0xFF] s
               in map_option (\<lambda>s. (0, s\<lparr>initialized := True\<rparr>)) (route_all hw junk junk2 s)))"

section \<open>The tables of the firmware\<close>

text \<open>
  The search for the floating pointer in one page, from \<open>vptr\<close> on, in at most \<open>n\<close> steps. \<open>Some 0\<close>: there is none here.
\<close>

fun scan_page :: "nat \<Rightarrow> addr \<Rightarrow> 'a mmu_scheme \<Rightarrow> addr option" where
  "scan_page 0 vptr s = Some 0"
| "scan_page (Suc n) vptr s =
     (if vptr = 0 then Some 0
      else case vlong s vptr of
        None \<Rightarrow> None
      | Some sig \<Rightarrow>
          if sig = MP_TABLE_SIG
          then (case (vbyte s (vptr + 9), vbyte s (vptr + 11)) of
                  (Some version, Some features) \<Rightarrow>
                    if \<not> (version > 4 \<or> features \<noteq> 0) then Some vptr else scan_page n (vptr + 4) s
                | _ \<Rightarrow> None)
          else scan_page n (vptr + 4) s)"

text \<open>\<open>k\<close> bounds the pages; \<open>vptr\<close> is the page that is mapped, or 0. The heap serves the nodes of the areas.\<close>

fun search_pages_mp ::
  "nat \<Rightarrow> addr \<Rightarrow> (u32 \<Rightarrow> 'a kheap_scheme \<Rightarrow> (addr \<times> 'a kheap_scheme) option) \<Rightarrow> addr \<Rightarrow> addr \<Rightarrow> addr \<Rightarrow> 'a kheap_scheme
     \<Rightarrow> (addr \<times> 'a kheap_scheme) option" where
  "search_pages_mp 0 ke heap limit ptr vptr s = None"
| "search_pages_mp (Suc k) ke heap limit ptr vptr s =
     (if ptr \<le> limit - 16
      then (case (if vptr \<noteq> 0 then page_unmap vptr 1 s else Some (0, s)) of
              None \<Rightarrow> None
            | Some (_, s) \<Rightarrow>
                (case page_map ke (ptr AND PAGE_MASK) (ptr AND PAGE_MASK) 1 (PG_GLOBAL OR PG_RW OR PG_PCD) s of
                   None \<Rightarrow> None
                 | Some (r, s) \<Rightarrow>
                     if r \<noteq> 0 then Some (0, s)
                     else (case scan_page 1020 (ptr AND PAGE_MASK) s of
                             None \<Rightarrow> None
                           | Some tmp \<Rightarrow>
                               if tmp \<noteq> 0
                               then map_option (\<lambda>(_, s). (tmp, s))
                                      (vma_add heap (ptr AND PAGE_MASK) ((ptr AND PAGE_MASK) + PAGE_SIZE) (VMA_READ OR VMA_WRITE) s)
                               else search_pages_mp k ke heap limit (ptr + PAGE_SIZE)
                                      (if ptr AND PAGE_MASK = 0 then 0 else (ptr AND PAGE_MASK) + 4080) s)))
      else map_option (\<lambda>(_, s). (0, s)) (if vptr \<noteq> 0 then page_unmap vptr 1 s else Some (0, s)))"

definition search_mptable ::
  "nat \<Rightarrow> addr \<Rightarrow> (u32 \<Rightarrow> 'a kheap_scheme \<Rightarrow> (addr \<times> 'a kheap_scheme) option) \<Rightarrow> addr \<Rightarrow> addr \<Rightarrow> 'a kheap_scheme
     \<Rightarrow> (addr \<times> 'a kheap_scheme) option" where
  "search_mptable k ke heap base limit s = search_pages_mp k ke heap limit (PAGE_CEIL base) 0 s"

text \<open>
  The first pass over the \<open>n\<close> entries of the configuration table, \<open>i\<close> the number of the entry at \<open>a\<close>: the number of the
  last entry that is a bus with the name ISA.
\<close>

fun find_isa :: "'a mmu_scheme \<Rightarrow> nat \<Rightarrow> nat \<Rightarrow> addr \<Rightarrow> int \<Rightarrow> int option" where
  "find_isa s 0 i a isa = Some isa"
| "find_isa s (Suc n) i a isa =
     (case vbyte s a of
        None \<Rightarrow> None
      | Some ty \<Rightarrow>
          if ty = 0 then find_isa s n (Suc i) (a + 20) isa
          else if ty = 1 then
            (case (vbyte s (a + 2), vbyte s (a + 3), vbyte s (a + 4)) of
               (Some c0, Some c1, Some c2) \<Rightarrow>
                 find_isa s n (Suc i) (a + 8) (if c0 = 0x49 \<and> c1 = 0x53 \<and> c2 = 0x41 then int i else isa)
             | _ \<Rightarrow> None)
          else find_isa s n (Suc i) (a + 8) isa)"

text \<open>The second pass; \<open>j\<close> processors are in the array and \<open>count\<close> are usable.\<close>

definition cpu_entry :: "u8 \<Rightarrow> addr \<Rightarrow> nat \<Rightarrow> u32 \<Rightarrow> 'a apic_scheme \<Rightarrow> nat \<times> u32 \<times> 'a apic_scheme" where
  "cpu_entry flags a j count s =
     (if flags AND 1 \<noteq> 0
      then if j < MAX_CORES
        then (j + 1, count + 1,
              s\<lparr>apic_processors := (apic_processors s)[j := a],
                boot_processor := if flags AND 2 \<noteq> 0 then j else boot_processor s\<rparr>)
        else (j, count + 1, s)
      else (j, count, s))"

definition ioapic_entry ::
  "addr \<Rightarrow> addr \<Rightarrow> (u32 \<Rightarrow> 'a apic_scheme \<Rightarrow> (addr \<times> 'a apic_scheme) option) \<Rightarrow> addr \<Rightarrow> 'a apic_scheme \<Rightarrow> 'a apic_scheme option" where
  "ioapic_entry kernel_start ke heap a s =
     (case vlong s (a + 4) of
        None \<Rightarrow> None
      | Some io \<Rightarrow>
          (case page_map ke (IOAPIC_ADDR kernel_start) (io AND PAGE_MASK) 1 (PG_GLOBAL OR PG_RW OR PG_PCD) (s\<lparr>ioapic := io\<rparr>) of
             None \<Rightarrow> None
           | Some (_, s) \<Rightarrow>
               map_option (\<lambda>(_, s). s\<lparr>ioapic := IOAPIC_ADDR kernel_start\<rparr>)
                 (vma_add heap (IOAPIC_ADDR kernel_start) (IOAPIC_ADDR kernel_start + PAGE_SIZE) (VMA_READ OR VMA_WRITE) s)))"

definition irq_entry :: "int \<Rightarrow> addr \<Rightarrow> 'a apic_scheme \<Rightarrow> 'a apic_scheme option" where
  "irq_entry isa a s =
     (case (vbyte s (a + 4), vbyte s (a + 5), vbyte s (a + 7)) of
        (Some src_bus, Some src_irq, Some dest_intin) \<Rightarrow>
          if uint src_bus = isa
          then if unat src_irq < length (irq_redirect s)
            then Some (s\<lparr>irq_redirect := (irq_redirect s)[unat src_irq := dest_intin]\<rparr>) else None
          else Some s
      | _ \<Rightarrow> None)"

fun read_entries ::
  "addr \<Rightarrow> addr \<Rightarrow> (u32 \<Rightarrow> 'a apic_scheme \<Rightarrow> (addr \<times> 'a apic_scheme) option) \<Rightarrow> int \<Rightarrow> nat \<Rightarrow> addr \<Rightarrow> nat \<Rightarrow> u32 \<Rightarrow> 'a apic_scheme
     \<Rightarrow> (u32 \<times> 'a apic_scheme) option" where
  "read_entries kernel_start ke heap isa 0 a j count s = Some (count, s)"
| "read_entries kernel_start ke heap isa (Suc n) a j count s =
     (case vbyte s a of
        None \<Rightarrow> None
      | Some ty \<Rightarrow>
          if ty = 0 then
            (case vbyte s (a + 3) of
               None \<Rightarrow> None
             | Some flags \<Rightarrow>
                 let (j, count, s) = cpu_entry flags a j count s
                 in read_entries kernel_start ke heap isa n (a + 20) j count s)
          else if ty = 2 then
            (case ioapic_entry kernel_start ke heap a s of
               None \<Rightarrow> None | Some s \<Rightarrow> read_entries kernel_start ke heap isa n (a + 8) j count s)
          else if ty = 3 then
            (case irq_entry isa a s of
               None \<Rightarrow> None | Some s \<Rightarrow> read_entries kernel_start ke heap isa n (a + 8) j count s)
          else read_entries kernel_start ke heap isa n (a + 8) j count s)"

definition SIZEOF_CONFIG_TABLE :: u32 where [simp]: "SIZEOF_CONFIG_TABLE = 44"

text \<open>From \<^verbatim>\<open>check_lapic\<close> on, and the two exits \<^verbatim>\<open>out\<close> and \<^verbatim>\<open>no_mp\<close>.\<close>

definition probe_out :: "'a apic_scheme \<Rightarrow> int \<times> 'a apic_scheme" where
  "probe_out s = (- ENXIO, s\<lparr>apic_mp := 0, apic_config := 0, lapic := 0, ncores := 1\<rparr>)"

definition check_lapic ::
  "hardware \<Rightarrow> addr \<Rightarrow> addr \<Rightarrow> (u32 \<Rightarrow> 'a apic_scheme \<Rightarrow> (addr \<times> 'a apic_scheme) option) \<Rightarrow> 'a apic_scheme
     \<Rightarrow> (int \<times> 'a apic_scheme) option" where
  "check_lapic hw kernel_start ke heap s =
     (case (if apic_config s \<noteq> 0 then map_option (\<lambda>v. s\<lparr>lapic := v\<rparr>) (vlong s (apic_config s + 36))
            else if has_apic s \<noteq> 0 then Some (s\<lparr>lapic := 0xFEE00000\<rparr>) else Some s) of
        None \<Rightarrow> None
      | Some s \<Rightarrow>
          if lapic s = 0 then Some (probe_out s)
          else (case (if has_x2apic s \<noteq> 0
                      then Some ((emit [Msr 0x1B (ucast (lapic s) OR 0xD00)] s)\<lparr>lapic_msr := True\<rparr>)
                      else (case page_map ke (LAPIC_ADDR kernel_start) (lapic s AND PAGE_MASK) 1 (PG_GLOBAL OR PG_RW OR PG_PCD) s of
                              None \<Rightarrow> None
                            | Some (_, s) \<Rightarrow>
                                map_option (\<lambda>(_, s). s\<lparr>lapic := LAPIC_ADDR kernel_start\<rparr>)
                                  (vma_add heap (LAPIC_ADDR kernel_start) (LAPIC_ADDR kernel_start + PAGE_SIZE)
                                     (VMA_READ OR VMA_WRITE) s))) of
                  None \<Rightarrow> None
                | Some s \<Rightarrow>
                    if drop_bit 4 (apic_version hw s) = 0 then Some (probe_out s)
                    else if apic_lvt_entries hw s < 3 then Some (probe_out s)
                    else Some (0, s)))"

definition no_mp :: "'a apic_scheme \<Rightarrow> 'a apic_scheme" where
  "no_mp s = s\<lparr>apic_mp := 0, apic_config := 0, ncores := 1\<rparr>"

text \<open>\<open>read_config\<close> is the part from \<^verbatim>\<open>found_mp\<close> on when a floating pointer was found; \<open>None\<close> inside is \<^verbatim>\<open>goto no_mp\<close>.\<close>

definition read_config ::
  "addr \<Rightarrow> addr \<Rightarrow> (u32 \<Rightarrow> 'a apic_scheme \<Rightarrow> (addr \<times> 'a apic_scheme) option) \<Rightarrow> 'a apic_scheme \<Rightarrow> (bool \<times> 'a apic_scheme) option" where
  "read_config kernel_start ke heap s =
     (case (vbyte s (apic_mp s + 11), vlong s (apic_mp s + 4)) of
        (Some features, Some config) \<Rightarrow>
          if features \<noteq> 0 then Some (False, s)
          else (case (if config AND PAGE_MASK \<noteq> apic_mp s AND PAGE_MASK
                      then (case page_map ke (config AND PAGE_MASK) (config AND PAGE_MASK) 1 (PG_GLOBAL OR PG_RW OR PG_PCD)
                              (s\<lparr>apic_config := config\<rparr>) of
                              None \<Rightarrow> None
                            | Some (_, s) \<Rightarrow>
                                map_option snd (vma_add heap (config AND PAGE_MASK) ((config AND PAGE_MASK) + PAGE_SIZE)
                                  (VMA_READ OR VMA_WRITE) s))
                      else Some (s\<lparr>apic_config := config\<rparr>)) of
                  None \<Rightarrow> None
                | Some s \<Rightarrow>
                    if config = 0 then Some (False, s)
                    else (case (vlong s config, vhalf s (config + 34)) of
                            (Some sig, Some entry_count) \<Rightarrow>
                              if sig \<noteq> 0x504D4350 then Some (False, s)
                              else (case find_isa s (unat entry_count) 0 (config + SIZEOF_CONFIG_TABLE) (- 1) of
                                      None \<Rightarrow> None
                                    | Some isa \<Rightarrow>
                                        map_option (\<lambda>(count, s).
                                            if count > of_nat MAX_CORES then (False, s) else (True, s\<lparr>ncores := count\<rparr>))
                                          (read_entries kernel_start ke heap isa (unat entry_count)
                                             (config + SIZEOF_CONFIG_TABLE) 0 0 s))
                          | _ \<Rightarrow> None))
      | _ \<Rightarrow> None)"

definition apic_probe ::
  "nat \<Rightarrow> hardware \<Rightarrow> addr \<Rightarrow> addr \<Rightarrow> (u32 \<Rightarrow> 'a apic_scheme \<Rightarrow> (addr \<times> 'a apic_scheme) option) \<Rightarrow> 'a apic_scheme
     \<Rightarrow> (int \<times> 'a apic_scheme) option" where
  "apic_probe k hw kernel_start ke heap s =
     (case search_mptable k ke heap 0xF0000 0x100000 s of
        None \<Rightarrow> None
      | Some (mp, s) \<Rightarrow>
          (case (if mp \<noteq> 0 then Some (mp, s) else search_mptable k ke heap 0x9F000 0xA0000 s) of
             None \<Rightarrow> None
           | Some (mp, s) \<Rightarrow>
               let s = s\<lparr>apic_mp := mp\<rparr> in
               (case (if mp = 0 then Some (False, s) else read_config kernel_start ke heap s) of
                  None \<Rightarrow> None
                | Some (ok, s) \<Rightarrow> check_lapic hw kernel_start ke heap (if ok then s else no_mp s))))"

text \<open>The message about the error register is left out of the handler.\<close>

definition apic_err_handler :: "hardware \<Rightarrow> 'a apic_scheme \<Rightarrow> u32" where
  "apic_err_handler hw s = lapic_read hw APIC_ESR s"

definition apic_init ::
  "nat \<Rightarrow> hardware \<Rightarrow> addr \<Rightarrow> addr \<Rightarrow> (u32 \<Rightarrow> 'a apic_scheme \<Rightarrow> (addr \<times> 'a apic_scheme) option) \<Rightarrow> 'a apic_scheme
     \<Rightarrow> (int \<times> 'a apic_scheme) option" where
  "apic_init k hw kernel_start ke heap s =
     (case apic_probe k hw kernel_start ke heap s of
        None \<Rightarrow> None
      | Some (ret, s) \<Rightarrow> if ret \<noteq> 0 then Some (ret, s) else Some (0, snd (irq_install_handler 126 Apic_Err_Handler s)))"

section \<open>The redirection table\<close>

text \<open>The registers of the I/O APIC after the writes of the kernel: the selector and the value go to different addresses.\<close>

definition ioapic_step :: "addr \<Rightarrow> device_write \<Rightarrow> u32 \<times> (u32 \<Rightarrow> u32) \<Rightarrow> u32 \<times> (u32 \<Rightarrow> u32)" where
  "ioapic_step base w r =
     (case w of
        Mmio a v \<Rightarrow> if a = base then (v, snd r) else if a = base + 16 then (fst r, (snd r)(fst r := v)) else r
      | _ \<Rightarrow> r)"

definition ioapic_regs :: "'a apic_scheme \<Rightarrow> (u32 \<Rightarrow> u32) \<Rightarrow> u32 \<Rightarrow> u32" where
  "ioapic_regs s regs = snd (fold (ioapic_step (ioapic s)) (device_writes s) (0, regs))"

lemma ioapic_regs_simps [simp]:
  "ioapic_regs (ioapic_write r v s) regs = (ioapic_regs s regs)(r := v)"
  "ioapic_regs (snd (ioapic_read hw r s)) regs = ioapic_regs s regs"
  "ioapic (ioapic_write r v s) = ioapic s" "ioapic (snd (ioapic_read hw r s)) = ioapic s"
  "irq_redirect (ioapic_write r v s) = irq_redirect s" "irq_redirect (snd (ioapic_read hw r s)) = irq_redirect s"
  by (simp_all add: ioapic_regs_def ioapic_write_def ioapic_read_def emit_def ioapic_step_def)

text \<open>The pin that a line is connected to.\<close>

definition pin :: "'a apic_scheme \<Rightarrow> nat \<Rightarrow> u8" where
  "pin s i = (if i < 16 then irq_redirect s ! i else of_nat i)"

definition low_reg :: "u8 \<Rightarrow> u32" where
  "low_reg p = IOAPIC_REG_TABLE + 2 * ucast p"

lemma low_reg_inj: "low_reg p = low_reg q \<longleftrightarrow> p = q" and low_high_reg: "low_reg p \<noteq> 1 + low_reg q"
proof -
  have u: "unat (low_reg p) = 16 + 2 * unat p" for p
  proof -
    have "unat p < 256" using unsigned_less [of p, where ?'a = nat] by simp
    then show ?thesis by (simp add: low_reg_def unat_word_ariths unsigned_ucast_eq take_bit_nat_eq_self)
  qed
  show "low_reg p = low_reg q \<longleftrightarrow> p = q" using u [of p] u [of q] by (auto simp: word_unat_eq_iff)
  have "unat (1 + low_reg q) = 17 + 2 * unat q"
    using u [of q] unsigned_less [of q, where ?'a = nat] by (simp add: unat_word_ariths)
  then have "unat (low_reg p) \<noteq> unat (1 + low_reg q)" using u [of p] by presburger
  then show "low_reg p \<noteq> 1 + low_reg q" by auto
qed

lemma bit_set_field: "n < 32 \<Longrightarrow> bit (set_field pos width v w) n =
    (if pos \<le> n \<and> n < pos + width then bit v (n - pos) else bit w n)" for w :: u32
  by (auto simp: set_field_def bit_simps)

lemma route_lower_mask: "bit (route_lower irq m junk) 16 = bit m 0"
  by (simp add: route_lower_def bit_set_field Let_def)

lemma route_lower_vector:
  assumes "irq \<le> 24"
  shows "take_bit 8 (route_lower irq m junk) = 0x20 + ucast irq"
proof -
  have "unat irq \<le> 24" using assms by (simp add: word_le_nat_alt)
  then have small: "take_bit 8 (0x20 + ucast irq :: u32) = 0x20 + ucast irq"
    by (simp add: word_unat_eq_iff unsigned_take_bit_eq unat_word_ariths unsigned_ucast_eq take_bit_nat_eq_self)
  have "take_bit 8 (route_lower irq m junk) = take_bit 8 (0x20 + ucast irq :: u32)"
    by (rule bit_word_eqI) (auto simp: route_lower_def bit_set_field Let_def bit_simps)
  then show ?thesis using small by simp
qed

lemma redirection_offset_pin: "i < 256 \<Longrightarrow> IOAPIC_REG_TABLE + redirection_offset (of_nat i) s = low_reg (pin s i)"
  by (auto simp: redirection_offset_def low_reg_def pin_def unat_of_nat take_bit_nat_eq_self word_less_nat_alt)

lemma inton_regs:
  assumes "i \<le> 24"
  shows "ioapic_regs (snd (ioapic_inton hw junk junk2 (of_nat i) apicid s)) regs =
      (ioapic_regs s regs)(low_reg (pin s i) := route_lower (of_nat i) 0 junk, 1 + low_reg (pin s i) := route_upper apicid junk2)"
    and "irq_redirect (snd (ioapic_inton hw junk junk2 (of_nat i) apicid s)) = irq_redirect s"
proof -
  have l: "\<not> (of_nat i :: u8) > 24" using assms by (simp add: word_less_nat_alt unat_of_nat take_bit_nat_eq_self)
  have o: "IOAPIC_REG_TABLE + redirection_offset (of_nat i) s = low_reg (pin s i)"
    using assms by (intro redirection_offset_pin) simp
  then have o1: "IOAPIC_REG_TABLE + 1 + redirection_offset (of_nat i) s = 1 + low_reg (pin s i)"
    by (metis add.assoc add.commute)
  show "ioapic_regs (snd (ioapic_inton hw junk junk2 (of_nat i) apicid s)) regs =
      (ioapic_regs s regs)(low_reg (pin s i) := route_lower (of_nat i) 0 junk, 1 + low_reg (pin s i) := route_upper apicid junk2)"
    unfolding ioapic_inton_def if_not_P [OF l] Let_def o o1 by simp
  show "irq_redirect (snd (ioapic_inton hw junk junk2 (of_nat i) apicid s)) = irq_redirect s"
    unfolding ioapic_inton_def if_not_P [OF l] Let_def by simp
qed

lemma intoff_regs:
  "ioapic_regs (snd (ioapic_intoff junk junk2 2 apicid s)) regs =
     (ioapic_regs s regs)(low_reg (pin s 2) := route_lower 2 1 junk, 1 + low_reg (pin s 2) := route_upper apicid junk2)"
proof -
  have o: "IOAPIC_REG_TABLE + redirection_offset 2 s = low_reg (pin s 2)" using redirection_offset_pin [of 2 s] by simp
  then have o1: "IOAPIC_REG_TABLE + 1 + redirection_offset 2 s = 1 + low_reg (pin s 2)" by (metis add.assoc add.commute)
  show ?thesis unfolding ioapic_intoff_def Let_def o o1 by simp
qed

text \<open>The registers after the first \<open>n\<close> lines have been turned on.\<close>

lemma turned_on:
  assumes "n \<le> 25" and "inj_on (pin s) ({..<n} - {2})"
  shows "let s' = fold (\<lambda>i s. if i \<noteq> 2 then snd (ioapic_inton hw junk junk2 (of_nat i) apicid s) else s) [0..<n] s in
    irq_redirect s' = irq_redirect s \<and>
    (\<forall>i < n. i \<noteq> 2 \<longrightarrow> ioapic_regs s' regs (low_reg (pin s i)) = route_lower (of_nat i) 0 junk
       \<and> ioapic_regs s' regs (1 + low_reg (pin s i)) = route_upper apicid junk2)"
  using assms
proof (induction n)
  case (Suc n)
  let ?s = "fold (\<lambda>i s. if i \<noteq> 2 then snd (ioapic_inton hw junk junk2 (of_nat i) apicid s) else s) [0..<n] s"
  have sub: "inj_on (pin s) ({..<n} - {2})" using Suc.prems(2) by (rule inj_on_subset) auto
  have IH: "irq_redirect ?s = irq_redirect s" "\<And>i. i < n \<Longrightarrow> i \<noteq> 2 \<Longrightarrow>
      ioapic_regs ?s regs (low_reg (pin s i)) = route_lower (of_nat i) 0 junk \<and>
      ioapic_regs ?s regs (1 + low_reg (pin s i)) = route_upper apicid junk2"
    using Suc.IH [OF _ sub] Suc.prems(1) by (auto simp: Let_def)
  have p: "pin ?s = pin s" by (simp add: pin_def IH(1) fun_eq_iff)
  have ne: "pin s i \<noteq> pin s n" if "i < n" "i \<noteq> 2" "n \<noteq> 2" for i
    using inj_onD [OF Suc.prems(2), of i n] that by auto
  have step: "fold (\<lambda>i s. if i \<noteq> 2 then snd (ioapic_inton hw junk junk2 (of_nat i) apicid s) else s) [0..<Suc n] s =
      (if n \<noteq> 2 then snd (ioapic_inton hw junk junk2 (of_nat n) apicid ?s) else ?s)" by simp
  show ?case
  proof (cases "n = 2")
    case True
    then show ?thesis unfolding step using IH by (simp add: Let_def less_Suc_eq)
  next
    case False
    then show ?thesis unfolding step
      using IH ne Suc.prems(1)
      by (auto simp: Let_def less_Suc_eq inton_regs p low_reg_inj low_high_reg low_high_reg [symmetric])
  qed
qed simp

lemma boot_apic_id_emit: "boot_apic_id (emit ws s) = boot_apic_id s"
proof -
  have "translate (emit ws s) a = translate s a" for a by (simp add: translate_def emit_def Let_def)
  then have "vbyte (emit ws s) a = vbyte s a" for a
    by (simp add: vbyte_def vread_def) (simp add: emit_def split: option.split)
  then show ?thesis by (simp add: boot_apic_id_def) (simp add: emit_def)
qed

text \<open>
  C27: with an I/O APIC of 24 lines whose pins, that of line 2 apart, are distinct, the routing masks the pin of line 2 and
  connects the pin of every other line to the interrupt 32 plus its number at the boot processor. A line that is redirected
  to the pin of line 2, as the timer usually is, is therefore masked with it.
\<close>

theorem route_all_lines:
  assumes "route_all hw junk junk2 s = Some s'" and "ioapic s \<noteq> 0" and "boot_apic_id s = Some apicid"
    and "drop_bit 16 (ioapic_in hw IOAPIC_REG_VER) AND 0xFF = 23" and "inj_on (pin s) ({..<24} - {2})"
  shows "bit (ioapic_regs s' regs (low_reg (pin s 2))) 16 \<and>
    (\<forall>i < 24. i \<noteq> 2 \<longrightarrow>
       (if pin s i = pin s 2 then bit (ioapic_regs s' regs (low_reg (pin s i))) 16
        else \<not> bit (ioapic_regs s' regs (low_reg (pin s i))) 16
          \<and> take_bit 8 (ioapic_regs s' regs (low_reg (pin s i))) = 0x20 + of_nat i
          \<and> take_bit 4 (drop_bit 24 (ioapic_regs s' regs (1 + low_reg (pin s i)))) = take_bit 4 (ucast apicid)))"
proof -
  let ?e = "emit [Mmio (ioapic s) 1] s"
  let ?s = "turn_on_lines hw junk junk2 apicid 23 ?e"
  have b: "boot_apic_id ?e = Some apicid"
    using assms(3) by (simp add: boot_apic_id_emit)
  have s': "s' = snd (ioapic_intoff junk junk2 2 apicid ?s)"
    using assms(1,2,4) b
    by (simp add: route_all_def ioapic_max_redirection_entry_def ioapic_read_def Let_def split_beta)
  have e: "irq_redirect ?e = irq_redirect s" by (simp add: emit_def)
  have p0: "pin ?e = pin s" by (simp add: pin_def emit_def fun_eq_iff)
  have t: "?s = fold (\<lambda>i s. if i \<noteq> 2 then snd (ioapic_inton hw junk junk2 (of_nat i) apicid s) else s) [0..<24] ?e"
    by (simp add: turn_on_lines_def)
  have inj: "inj_on (pin ?e) ({..<24} - {2})" using assms(5) p0 by simp
  have on: "irq_redirect ?s = irq_redirect s" "\<And>i. i < 24 \<Longrightarrow> i \<noteq> 2 \<Longrightarrow>
      ioapic_regs ?s regs (low_reg (pin s i)) = route_lower (of_nat i) 0 junk \<and>
      ioapic_regs ?s regs (1 + low_reg (pin s i)) = route_upper apicid junk2"
    using turned_on [of 24 ?e hw junk junk2 apicid regs, OF _ inj] unfolding t by (simp_all add: p0 e Let_def)
  have p: "pin ?s = pin s" by (simp add: pin_def on(1) fun_eq_iff)
  have up: "take_bit 4 (drop_bit 24 (route_upper apicid junk2)) = take_bit 4 (ucast apicid)"
    by (rule bit_word_eqI) (auto simp: route_upper_def bit_set_field bit_simps)
  have v: "take_bit 8 (route_lower (of_nat i) 0 junk) = 0x20 + of_nat i" if "i < 24" for i
  proof -
    have "(of_nat i :: u8) \<le> 24" using that by (simp add: word_le_nat_alt unat_of_nat take_bit_nat_eq_self)
    moreover have "ucast (of_nat i :: u8) = (of_nat i :: u32)"
      using that by (simp add: word_unat_eq_iff unsigned_ucast_eq unat_of_nat take_bit_nat_eq_self)
    ultimately show ?thesis by (simp add: route_lower_vector)
  qed
  show ?thesis
    using on(2) by (auto simp: s' intoff_regs p low_reg_inj low_high_reg low_high_reg [symmetric] route_lower_mask v up)
qed

text \<open>The controller at boot, and one whose table of the firmware, at 0x100, names a processor with the identification 5.\<close>

definition boot_apic :: apic where
  "boot_apic = cpu.extend boot_cpu (apic.fields [0, 0, 0, 0] MAX_CORES 0 0 0 0 0 1 (map of_nat [0..<16]) False False)"

definition routed_apic :: apic where
  "routed_apic = boot_apic\<lparr>ioapic := 0x7000, boot_processor := 0, apic_processors := [0x100, 0, 0, 0], cr3 := 1,
     phys := (\<lambda>f w. if f = 1 \<and> w = 0 then 0x2001 else if f = 2 \<and> w = 0 then 0x3001 else if f = 3 \<and> w = 64 then 0x0500 else 0)\<rparr>"

lemma routed_pin: "i < 24 \<Longrightarrow> pin routed_apic i = of_nat i"
  by (simp add: pin_def routed_apic_def boot_apic_def apic.defs cpu.defs)

lemma route_all_lines_witness:
  "\<exists>s'. route_all (\<lparr>mmio_in = (\<lambda>_. 0), msr_in = (\<lambda>_. 0), ioapic_in = (\<lambda>_. 0x170011)\<rparr>) 0 0 routed_apic = Some s'
    \<and> bit (ioapic_regs s' (\<lambda>_. 0) 0x14) 16 \<and> \<not> bit (ioapic_regs s' (\<lambda>_. 0) 0x10) 16
    \<and> take_bit 8 (ioapic_regs s' (\<lambda>_. 0) 0x12) = 0x21"
proof -
  let ?hw = "\<lparr>mmio_in = (\<lambda>_. 0), msr_in = (\<lambda>_. 0), ioapic_in = (\<lambda>_. 0x170011)\<rparr> :: hardware"
  have i: "boot_apic_id routed_apic = Some 5"
    by (simp add: boot_apic_id_def routed_apic_def vbyte_def vread_def translate_def entry_frame_def has_flag_def)
  have io: "ioapic routed_apic \<noteq> 0" by (simp add: routed_apic_def)
  have inj: "inj_on (pin routed_apic) ({..<24} - {2})"
  proof (rule inj_onI)
    fix i j :: nat
    assume a: "i \<in> {..<24} - {2}" "j \<in> {..<24} - {2}" and eq: "pin routed_apic i = pin routed_apic j"
    from a have ij: "i < 24" "j < 24" by simp_all
    have "unat (of_nat i :: u8) = unat (of_nat j :: u8)" using eq unfolding routed_pin [OF ij(1)] routed_pin [OF ij(2)] by (rule arg_cong)
    then show "i = j" using unat_u8 [of i] unat_u8 [of j] ij by linarith
  qed
  obtain s' where s': "route_all ?hw 0 0 routed_apic = Some s'"
    by (simp add: route_all_def ioapic_max_redirection_entry_def ioapic_read_def boot_apic_id_emit i io)
  note r = route_all_lines [OF s' io i _ inj, of "\<lambda>_. 0", simplified routed_pin low_reg_def]
  show ?thesis
    using s' r r [THEN conjunct2, rule_format, of 0] r [THEN conjunct2, rule_format, of 1] by (simp add: low_reg_def routed_pin)
qed

text \<open>Number 24 passes the check although the table of 24 lines ends at register 0x3F.\<close>

lemma inton_24_outside:
  "ioapic_regs (snd (ioapic_inton hw junk junk2 24 apicid s)) regs =
     (ioapic_regs s regs)(0x40 := route_lower 24 0 junk, 0x41 := route_upper apicid junk2)"
  by (simp add: ioapic_inton_def redirection_offset_def Let_def)

text \<open>
  A table with a processor, a bus 0 and the ISA bus as bus 1: the entries that connect the ISA lines name bus 1, but the
  code compares with the number of the entry of the bus, 2, and so ignores them.
\<close>

lemma isa_redirect_lost:
  assumes "vbyte s a = Some 0" and "vbyte s (a + 20) = Some 1"
    and "vbyte s (a + 22) = Some 0x50" and "vbyte s (a + 23) = Some 0x43" and "vbyte s (a + 24) = Some 0x49"
    and "vbyte s (a + 28) = Some 1" and "vbyte s (a + 29) = Some 1"
    and "vbyte s (a + 30) = Some 0x49" and "vbyte s (a + 31) = Some 0x53" and "vbyte s (a + 32) = Some 0x41"
    and "vbyte s (e + 4) = vbyte s (a + 29)" and "vbyte s (e + 5) = Some l" and "vbyte s (e + 7) = Some d"
  shows "find_isa s 3 0 a (- 1) = Some 2 \<and> irq_entry 2 e s = Some s"
proof -
  have adr: "22 + a = a + 22" "23 + a = a + 23" "24 + a = a + 24" "30 + a = a + 30" "31 + a = a + 31" "32 + a = a + 32"
    "a + 20 + 8 = a + 28" by simp_all
  show ?thesis using assms unfolding numeral_3_eq_3 by (simp add: adr irq_entry_def)
qed

text \<open>A calibration that returns 0 has masked the old controller and put the new one to use.\<close>

lemma route_all_keeps: "route_all hw junk junk2 s = Some s' \<Longrightarrow> lapic s' = lapic s"
proof -
  have l: "lapic (snd (ioapic_inton hw junk junk2 i a s)) = lapic s" "lapic (snd (ioapic_intoff junk junk2 i a s)) = lapic s"
    for i a and s :: "'a apic_scheme"
    by (simp_all add: ioapic_inton_def ioapic_intoff_def ioapic_write_def ioapic_read_def emit_def Let_def)
  have f: "lapic (fold (\<lambda>i s. if i \<noteq> 2 then snd (ioapic_inton hw junk junk2 (of_nat i) a s) else s) is s) = lapic s"
    for "is" a and s :: "'a apic_scheme"
    by (induction "is" arbitrary: s) (simp_all add: l)
  show "route_all hw junk junk2 s = Some s' \<Longrightarrow> lapic s' = lapic s"
    by (auto simp: route_all_def ioapic_max_redirection_entry_def ioapic_read_def emit_def turn_on_lines_def l f
        split: if_splits option.splits)
qed

lemma lapic_write_keeps [simp]:
  "lapic (lapic_write r v s) = lapic s" "lapic (emit ws s) = lapic s" "icr (lapic_write r v s) = icr s"
  by (simp_all add: lapic_write_def emit_def)

lemma lapic_reset_keeps: "lapic (snd (lapic_reset hw s)) = lapic s"
  by (simp add: lapic_reset_def Let_def)

lemma calibration_enables:
  assumes "apic_calibration k ticks hw junk junk2 s = Some (0, s')"
  shows "apic_is_enabled s'"
  using assms
  by (auto simp: apic_calibration_def Let_def lapic_reset_keeps apic_is_enabled_def dest!: route_all_keeps split: option.splits if_splits)

end
