(* ===== verification/Interrupts.thy ===== *)
theory Interrupts
  imports Apic Terminal Clock
begin

unbundle bit_operations_syntax

text \<open>
  Serving an interrupt: \<^verbatim>\<open>irq_handler\<close> of \<^verbatim>\<open>cpu/irq.c\<close> with the handlers of \<^verbatim>\<open>cpu/isrs.c\<close>, \<^verbatim>\<open>devices/timer.c\<close>,
  \<^verbatim>\<open>mm/page.c\<close>, \<^verbatim>\<open>devices/apic.c\<close> and the keyboard, on a state that holds all they touch.
\<close>

section \<open>State\<close>

record machine = apic +
  timer_ticks :: u64
  con :: console

text \<open>
  What came of a handler or of an interrupt: it returned a value (the task whose stack pointer the stub has to save, if
  any), or the running task was aborted and another one runs.
\<close>

datatype ('r, 's) served = Returned 'r 's | Aborted 's

text \<open>What the handlers read from the processor and the devices.\<close>

record irq_input =
  esp :: addr
  cr2 :: addr
  port60 :: u8

section \<open>Handlers\<close>

definition fpu_handler :: "'a cpu_scheme \<Rightarrow> 'a cpu_scheme" where
  "fpu_handler s =
     (let t = current_id s; s = s\<lparr>cr0_TS := False\<rparr>;
          s = (if t_flags (task_table s t) AND TASK_FPU_INIT = 0
               then upd_task t (\<lambda>x. x\<lparr>t_flags := t_flags x OR TASK_FPU_INIT\<rparr>) (fpu_init t s) else s)
      in upd_task t (\<lambda>x. x\<lparr>t_flags := t_flags x OR TASK_FPU_USED\<rparr>) (restore_fpu_state t s))"

text \<open>The messages are left out.\<close>

definition fault_handler ::
  "addr \<Rightarrow> u32 \<Rightarrow> 'a tables_scheme \<Rightarrow> (unit, 'a tables_scheme) served option" where
  "fault_handler sp int_no s =
     (if int_no < 32 then map_option Aborted (do_exit sp (emit [Out 0x20 0x20] s)) else Some (Returned () s))"

definition run_handler ::
  "addr \<Rightarrow> irq_input \<Rightarrow> handler \<Rightarrow> u32 \<Rightarrow> 'a machine_scheme \<Rightarrow> (unit, 'a machine_scheme) served option" where
  "run_handler ke inp h int_no s =
     (case h of
        Fault_Handler \<Rightarrow> fault_handler (esp inp) int_no s
      | Fpu_Handler \<Rightarrow> Some (Returned () (fpu_handler s))
      | Page_Fault_Handler \<Rightarrow> map_option (Returned ()) (page_fault_handler ke (cr2 inp) s)
      | Timer_Handler \<Rightarrow> Some (Returned () (s\<lparr>timer_ticks := timer_handler (timer_ticks s)\<rparr>))
      | Keyboard_Handler \<Rightarrow> Some (Returned () (s\<lparr>con := keyboard_handler (port60 inp) (con s)\<rparr>))
      | Apic_Err_Handler \<Rightarrow> Some (Returned () s))"

section \<open>The common entry\<close>

definition end_of_interrupt :: "u32 \<Rightarrow> 'a apic_scheme \<Rightarrow> 'a apic_scheme" where
  "end_of_interrupt int_no s =
     (if apic_is_enabled s \<or> int_no \<ge> 123 then apic_eoi s
      else let s = (if int_no \<ge> 40 then emit [Out 0xA0 0x20] s else s) in emit [Out 0x20 0x20] s)"

text \<open>
  \<^verbatim>\<open>scheduler\<close> with the registers of the floating point unit, which it saves for a task that has used them and is ready.
\<close>

definition scheduler_fpu :: "'a cpu_scheme \<Rightarrow> (u32 option \<times> 'a cpu_scheme) option" where
  "scheduler_fpu s =
     map_option (\<lambda>(r, s').
       (r, case r of
             None \<Rightarrow> s'
           | Some old \<Rightarrow>
               if t_flags (task_table s old) AND TASK_FPU_USED \<noteq> 0 \<and> status (task_table s' old) = TASK_READY
               then save_fpu_state old s' else s')) (scheduler s)"

definition leave_handler :: "u32 \<Rightarrow> 'a cpu_scheme \<Rightarrow> (u32 option \<times> 'a cpu_scheme) option" where
  "leave_handler int_no s =
     (if int_no = 32 then scheduler_fpu s
      else if int_no \<ge> 32 \<and> get_highest_priority s > unat (prio (task_table s (current_id s))) then scheduler_fpu s
      else Some (None, s))"

definition irq_handler ::
  "addr \<Rightarrow> irq_input \<Rightarrow> u32 \<Rightarrow> 'a machine_scheme \<Rightarrow> (u32 option, 'a machine_scheme) served option" where
  "irq_handler ke inp int_no s =
     (case (if int_no < MAX_HANDLERS
            then (case irq_routines s ! unat int_no of
                    Some h \<Rightarrow> run_handler ke inp h int_no s | None \<Rightarrow> Some (Returned () s))
            else Some (Returned () s)) of
        None \<Rightarrow> None
      | Some (Aborted s) \<Rightarrow> Some (Aborted s)
      | Some (Returned _ s) \<Rightarrow>
          map_option (\<lambda>(r, s). Returned r s) (leave_handler int_no (end_of_interrupt int_no s)))"

text \<open>
  What the stub in \<^verbatim>\<open>asm/usermodetask.s\<close> does when the handler names a task: it saves the stack pointer, loads the new
  stack and page tables, sets the task switched flag and the kernel stack and finishes the switch.
\<close>

definition common_switch :: "addr \<Rightarrow> u32 \<Rightarrow> 'a machine_scheme \<Rightarrow> 'a machine_scheme option" where
  "common_switch sp old s =
     finish_task_switch (set_kernel_stack ((snd (get_current_stack (upd_task old (\<lambda>x. x\<lparr>last_stack_pointer := sp\<rparr>) s)))\<lparr>cr0_TS := True\<rparr>))"

definition common_stub ::
  "addr \<Rightarrow> irq_input \<Rightarrow> u32 \<Rightarrow> 'a machine_scheme \<Rightarrow> 'a machine_scheme option" where
  "common_stub ke inp int_no s =
     (case irq_handler ke inp int_no s of
        None \<Rightarrow> None
      | Some (Aborted s) \<Rightarrow> Some s
      | Some (Returned None s) \<Rightarrow> Some s
      | Some (Returned (Some old) s) \<Rightarrow> common_switch (esp inp) old s)"

section \<open>Installing the handlers\<close>

text \<open>The waits between the bytes for the timer chip are left out.\<close>

definition timer_init :: "'a tables_scheme \<Rightarrow> int \<times> 'a tables_scheme" where
  "timer_init s =
     (let s = snd (irq_install_handler 32 Timer_Handler s);
          s = snd (irq_install_handler 123 Timer_Handler s)
      in (0, emit (map (\<lambda>(p, b). Out p b) timer_init_ports) s))"

definition keyboard_install :: "'a tables_scheme \<Rightarrow> 'a tables_scheme" where
  "keyboard_install s = snd (irq_install_handler 33 Keyboard_Handler s)"

section \<open>What an interrupt leaves alone\<close>

lemma writes_sched [simp]:
  "device_writes (retire s) = device_writes s" "device_writes (preempt s) = device_writes s"
  "device_writes (clear_fpu t s) = device_writes s" "device_writes (upd_task t f s) = device_writes s"
  "device_writes (save_fpu_state t u) = device_writes u"
  by (simp_all add: retire_def preempt_def clear_fpu_def upd_task_def)




section \<open>End of interrupt\<close>










section \<open>Time slices\<close>

definition tick :: "u32 \<Rightarrow> 'a machine_scheme \<Rightarrow> 'a machine_scheme" where
  "tick int_no s = end_of_interrupt int_no (s\<lparr>timer_ticks := timer_handler (timer_ticks s)\<rparr>)"

lemma tick_fields:
  "nx (tick n s) = nx s" "pv (tick n s) = pv s" "st (tick n s) = st s" "pri (tick n s) = pri s"
  "rq_first (tick n s) = rq_first s" "rq_last (tick n s) = rq_last s" "rq_bitmap (tick n s) = rq_bitmap s"
  "rq_old (tick n s) = rq_old s" "current_id (tick n s) = current_id s" "rq_idle (tick n s) = rq_idle s"
  "task_table (tick n s) = task_table s"
  by (auto simp: tick_def end_of_interrupt_def apic_eoi_def lapic_write_def emit_def Let_def nx_def pv_def st_def pri_def)

lemma timer_irq:
  assumes "int_no < 256" and "irq_routines s ! unat int_no = Some Timer_Handler"
  shows "irq_handler ke inp int_no s = map_option (\<lambda>(r, s). Returned r s) (leave_handler int_no (tick int_no s))"
  using assms by (simp add: irq_handler_def run_handler_def tick_def)

lemma scheduler_fpu_switch:
  "scheduler s = Some (r, s') \<Longrightarrow> \<exists>s2. scheduler_fpu s = Some (r, s2) \<and> current_id s2 = current_id s' \<and> task_table s2 = task_table s'"
  by (auto simp: scheduler_fpu_def split: option.splits)

text \<open>
  C11: when a task runs and others of its own priority are ready, and none of a higher one, a tick of the old timer, interrupt
  32, gives the processor to the first of them; a tick of the local APIC timer, interrupt 123, which replaces it after the
  calibration, only counts: the running task keeps the processor for as long as it likes.
\<close>

theorem apic_timer_no_time_slice:
  assumes "mid s Q" and "rq_old s = None" and "st s (current_id s) = TASK_RUNNING"
    and "msb (rq_bitmap s) = unat (pri s (current_id s))" and "Q (pri s (current_id s)) = t # ts"
    and "irq_routines s ! 32 = Some Timer_Handler" and "irq_routines s ! 123 = Some Timer_Handler"
  shows "(\<exists>s'. irq_handler ke inp 32 s = Some (Returned (Some (current_id s)) s') \<and> current_id s' = t)
    \<and> irq_handler ke inp 123 s = Some (Returned None (tick 123 s))"
proof -
  let ?p = "pri s (current_id s)"
  have "mid (tick 32 s) Q = mid s Q" by (rule mid_cong) (simp_all add: tick_fields)
  with assms(1) have m: "mid (tick 32 s) Q" by simp
  have p: "valid_prio ?p" using assms(1) [unfolded mid_def] assms(3) by blast
  have ready: "t \<noteq> current_id s"
    using not_queued [OF midE(1) [OF assms(1)], of "current_id s" ?p] assms(3,5) p by auto
  have ne: "\<not> (\<forall>p. valid_prio p \<longrightarrow> Q p = [])" using p assms(5) by auto
  have old: "rq_old (tick 32 s) = None" using assms(2) by (simp add: tick_fields)
  have keep: "\<not> unat ?p > msb (rq_bitmap s)" and hd: "hd (Q (of_nat (msb (rq_bitmap s)))) = t"
    using assms(4,5) by simp_all
  obtain r s' where "scheduler (tick 32 s) = Some (r, s')" "current_id s' = t" "r = Some (current_id s)"
    using scheduler_mid [OF m old] keep hd ready unfolding if_not_P [OF ne] tick_fields
    by (elim exE conjE) (auto intro: that)
  then have "\<exists>s'. irq_handler ke inp 32 s = Some (Returned (Some (current_id s)) s') \<and> current_id s' = t"
    using scheduler_fpu_switch [of "tick 32 s"] assms(6) by (fastforce simp: timer_irq leave_handler_def)
  moreover have "irq_handler ke inp 123 s = Some (Returned None (tick 123 s))"
    using assms(4,7) by (simp add: timer_irq leave_handler_def get_highest_priority_def tick_fields pri_def)
  ultimately show ?thesis by blast
qed

text \<open>The machine at boot, and one in which task 3 runs, task 1 of the same priority is ready and the timers are installed.\<close>

definition no_input :: irq_input where
  "no_input = \<lparr>esp = 0, cr2 = 0, port60 = 0\<rparr>"

definition boot_machine :: machine where
  "boot_machine = apic.extend boot_apic (machine.fields 0 blank_screen)"

definition busy_machine :: machine where
  "busy_machine =
     (let s = upd_task 3 (\<lambda>x. x\<lparr>status := TASK_RUNNING, prio := 8\<rparr>) (snd (timer_init boot_machine));
          s = upd_task 1 (\<lambda>x. x\<lparr>status := TASK_READY, prio := 8\<rparr>) (s\<lparr>current_id := 3\<rparr>)
      in set_bit_of 8 (set_last 8 (Some 1) (set_first 8 (Some 1) s)))"

lemma boot_machine_fields [simp]:
  "task_table boot_machine = boot_tasks" "rq_old boot_machine = None" "rq_idle boot_machine = 0" "rq_bitmap boot_machine = 0"
  "rq_first boot_machine = (\<lambda>_. None)" "rq_last boot_machine = (\<lambda>_. None)" "current_id boot_machine = 0"
  "irq_routines boot_machine = replicate 256 None" "device_writes boot_machine = []"
  "lapic boot_machine = 0" "\<not> initialized boot_machine" "\<not> lapic_msr boot_machine"
  by (simp_all add: boot_machine_def boot_apic_def boot_cpu_def boot_tables_def boot_sys_def kheap.defs sys.defs tables.defs
      cpu.defs apic.defs machine.defs no_heap_def)

lemma timer_init_fields [simp]:
  "task_table (snd (timer_init s)) = task_table s" "rq_old (snd (timer_init s)) = rq_old s"
  "rq_idle (snd (timer_init s)) = rq_idle s" "rq_bitmap (snd (timer_init s)) = rq_bitmap s"
  "rq_first (snd (timer_init s)) = rq_first s" "rq_last (snd (timer_init s)) = rq_last s"
  "current_id (snd (timer_init s)) = current_id s"
  "irq_routines (snd (timer_init s)) = (irq_routines s)[32 := Some Timer_Handler, 123 := Some Timer_Handler]"
  by (simp_all add: timer_init_def irq_install_handler_def emit_def Let_def)

lemma busy_machine_fields:
  "current_id busy_machine = 3" "rq_old busy_machine = None" "rq_idle busy_machine = 0" "rq_bitmap busy_machine = 256"
  "rq_first busy_machine = (\<lambda>_. None)(8 := Some 1)" "rq_last busy_machine = (\<lambda>_. None)(8 := Some 1)"
  "nx busy_machine = (\<lambda>_. None)" "pv busy_machine = (\<lambda>_. None)"
  "pri busy_machine = (\<lambda>_. 0)(3 := 8, 1 := 8)"
  "st busy_machine = (\<lambda>i. if i = 0 then TASK_IDLE else TASK_INVALID)(3 := TASK_RUNNING, 1 := TASK_READY)"
  "irq_routines busy_machine = (replicate 256 None)[32 := Some Timer_Handler, 123 := Some Timer_Handler]"
  by (auto simp: busy_machine_def Let_def upd_task_def set_bit_of_def set_first_def set_last_def nx_def pv_def pri_def st_def
      boot_tasks_def fun_eq_iff)

lemma busy_machine_mid: "mid busy_machine ((\<lambda>_. [])(8 := [1]))"
proof -
  have "bit (rq_bitmap busy_machine) i \<longleftrightarrow> (\<exists>p. valid_prio p \<and> unat p = i \<and> ((\<lambda>_. [])(8 := [1 :: u32])) p \<noteq> [])" for i
    unfolding busy_machine_fields bit_256 by (auto simp: valid_prio_def)
  then have "sched_ok busy_machine ((\<lambda>_. [])(8 := [1]))"
    unfolding sched_ok_def by (simp add: queue_ok_def busy_machine_fields)
  then show ?thesis by (auto simp: mid_def busy_machine_fields valid_prio_def)
qed


lemma apic_timer_no_time_slice_witness:
  "(\<exists>s'. irq_handler 0 no_input 32 busy_machine = Some (Returned (Some 3) s') \<and> current_id s' = 1)
    \<and> irq_handler 0 no_input 123 busy_machine = Some (Returned None (tick 123 busy_machine))"
proof -
  have m: "msb 256 = 8" by code_simp
  show ?thesis
    using apic_timer_no_time_slice [OF busy_machine_mid, of 1 "[]" 0 no_input] by (simp add: busy_machine_fields m)
qed

section \<open>The floating point state of a task\<close>

definition initf :: "'a sys_scheme \<Rightarrow> u32 \<Rightarrow> u8" where
  "initf s t = t_flags (task_table s t) AND TASK_FPU_INIT"

lemma fpu_sched:
  "fpu_regs (retire s) = fpu_regs s" "fpu_regs (preempt s) = fpu_regs s" "fpu_regs (clear_fpu t s) = fpu_regs s"
  "initf (retire u) = initf u" "initf (preempt u) = initf u"
  by (auto simp: retire_def preempt_def clear_fpu_def upd_task_def initf_def fun_eq_iff)

lemma initf_clear_fpu: "initf (clear_fpu t u) = initf u"
proof -
  have "(x AND NOT TASK_FPU_USED) AND TASK_FPU_INIT = x AND TASK_FPU_INIT" for x :: u8
    by (simp add: and.assoc)
  then show ?thesis by (auto simp: clear_fpu_def upd_task_def initf_def fun_eq_iff)
qed

lemma initf_current [simp]: "initf (s\<lparr>current_id := t\<rparr>) = initf s"
  by (simp add: initf_def fun_eq_iff)

lemma fpu_take_first: "take_first p s = Some (t, s') \<Longrightarrow> fpu_regs s' = fpu_regs s"
  by (auto simp: take_first_def Let_def set_first_def set_last_def clear_bit_of_def upd_task_def split: option.splits if_splits)

lemma initf_take_first: "take_first p s = Some (t, s') \<Longrightarrow> initf s' = initf s"
  by (auto simp: take_first_def Let_def set_first_def set_last_def clear_bit_of_def upd_task_def initf_def fun_eq_iff
      split: option.splits if_splits)

lemma fpu_scheduler: "scheduler s = Some (r, s') \<Longrightarrow> fpu_regs s' = fpu_regs s"
  unfolding scheduler_steps Let_def
  by (auto split: option.splits if_splits dest: fpu_take_first simp: fpu_sched)

lemma initf_scheduler: "scheduler s = Some (r, s') \<Longrightarrow> initf s' = initf s"
  unfolding scheduler_steps Let_def
  by (auto split: option.splits if_splits dest: initf_take_first simp: fpu_sched initf_clear_fpu)

text \<open>
  C26: when the scheduler takes the processor from a ready task that has used the floating point unit, the registers are
  saved, and they are what the task finds when it uses the unit next, whatever the others do to the unit in between, as
  long as its saved state and its flags stay.
\<close>

theorem fpu_state_restored:
  assumes "scheduler_fpu s = Some (Some c, s1)" and "t_flags (task_table s c) AND TASK_FPU_USED \<noteq> 0"
    and "t_flags (task_table s c) AND TASK_FPU_INIT \<noteq> 0" and "status (task_table s1 c) = TASK_READY"
    and "task_fpu s2 c = task_fpu s1 c" and "t_flags (task_table s2 c) = t_flags (task_table s1 c)" and "current_id s2 = c"
  shows "fpu_regs (fpu_handler s2) = fpu_regs s"
proof -
  obtain s' where s': "scheduler s = Some (Some c, s')"
    "s1 = (if status (task_table s' c) = TASK_READY then save_fpu_state c s' else s')"
    using assms(1,2) by (auto simp: scheduler_fpu_def)
  then have s1: "s1 = save_fpu_state c s'" using assms(4) by (auto split: if_splits)
  then have "task_fpu s2 c = fpu_regs s" using assms(5) fpu_scheduler [OF s'(1)] by simp
  moreover have "initf s2 c = initf s c"
    using assms(6) s1 initf_scheduler [OF s'(1)] by (simp add: initf_def fun_eq_iff)
  ultimately show ?thesis
    using assms(3,7) by (simp add: fpu_handler_def restore_fpu_state_def upd_task_def initf_def)
qed

definition fpu_machine :: machine where
  "fpu_machine = upd_task 3 (\<lambda>x. x\<lparr>t_flags := 3\<rparr>) busy_machine\<lparr>fpu_regs := default_fpu_init\<rparr>"

lemma fpu_state_restored_witness:
  "\<exists>s1. scheduler_fpu fpu_machine = Some (Some 3, s1)
    \<and> fpu_regs (fpu_handler (s1\<lparr>current_id := 3, fpu_regs := zero_fpu\<rparr>)) = default_fpu_init"
proof -
  have m: "msb 256 = 8" by code_simp
  have f: "current_id fpu_machine = 3" "rq_bitmap fpu_machine = 256" "rq_first fpu_machine = (\<lambda>_. None)(8 := Some 1)"
    "status (task_table fpu_machine 3) = TASK_RUNNING" "prio (task_table fpu_machine 3) = 8"
    "t_next (task_table fpu_machine 1) = None" "t_flags (task_table fpu_machine 3) = 3" "fpu_regs fpu_machine = default_fpu_init"
    by (simp_all add: fpu_machine_def upd_task_def busy_machine_fields)
       (simp_all add: busy_machine_def Let_def upd_task_def set_bit_of_def set_first_def set_last_def boot_tasks_def)
  obtain s1 where s1: "scheduler_fpu fpu_machine = Some (Some 3, s1)" "status (task_table s1 3) = TASK_READY"
    by (simp add: scheduler_fpu_def scheduler_def take_first_def Let_def f m upd_task_def set_first_def set_last_def
        clear_bit_of_def)
  have "fpu_regs (fpu_handler (s1\<lparr>current_id := 3, fpu_regs := zero_fpu\<rparr>)) = fpu_regs fpu_machine"
    by (rule fpu_state_restored [OF s1(1) _ _ s1(2)]) (simp_all add: f)
  then show ?thesis using s1(1) by (auto simp: f(8))
qed

lemma saved_take_first: "take_first p s = Some (t, s') \<Longrightarrow> task_fpu s' = task_fpu s"
  by (auto simp: take_first_def Let_def set_first_def set_last_def clear_bit_of_def upd_task_def split: option.splits if_splits)

lemma saved_scheduler: "scheduler s = Some (r, s') \<Longrightarrow> task_fpu s' = task_fpu s"
proof -
  have f: "task_fpu (retire s) = task_fpu s" "task_fpu (preempt s) = task_fpu s" "task_fpu (clear_fpu t s) = task_fpu s"
    for s :: "'a cpu_scheme" and t
    by (auto simp: retire_def preempt_def clear_fpu_def upd_task_def)
  show "scheduler s = Some (r, s') \<Longrightarrow> task_fpu s' = task_fpu s"
    unfolding scheduler_steps Let_def by (auto split: option.splits if_splits dest: saved_take_first simp: f)
qed

text \<open>A task that has blocked itself keeps the state saved before; the registers it had are lost.\<close>

lemma fpu_blocked_lost:
  "scheduler_fpu s = Some (Some c, s1) \<Longrightarrow> status (task_table s1 c) \<noteq> TASK_READY \<Longrightarrow> task_fpu s1 c = task_fpu s c"
proof -
  assume a: "scheduler_fpu s = Some (Some c, s1)" "status (task_table s1 c) \<noteq> TASK_READY"
  then obtain s' where s': "scheduler s = Some (Some c, s')"
    "s1 = (if t_flags (task_table s c) AND TASK_FPU_USED \<noteq> 0 \<and> status (task_table s' c) = TASK_READY then save_fpu_state c s' else s')"
    by (auto simp: scheduler_fpu_def)
  have "task_table s1 = task_table s'" unfolding s'(2) by simp
  then have "s1 = s'" using a(2) by (subst s'(2)) simp
  then show ?thesis using saved_scheduler [OF s'(1)] by simp
qed

end
