(* ===== verification/Pci.thy ===== *)
theory Pci
  imports Kernel_Prelude
begin

unbundle bit_operations_syntax

text \<open>
  The PCI bus, \<^verbatim>\<open>devices/pci.c\<close>. The state holds what the kernel keeps and the configuration registers of the devices, by the
  address written to the selector port; how a register takes a written value is the argument \<open>accept\<close>. \<^verbatim>\<open>pci_show_dev\<close> and the
  table of names are compiled only when a macro is set that the repository does not set.
\<close>

section \<open>State\<close>

definition MAX_BUS :: nat where [simp]: "MAX_BUS = 16"
definition MAX_SLOTS :: nat where [simp]: "MAX_SLOTS = 32"
definition PCI_CFID :: u32 where [simp]: "PCI_CFID = 0"
definition PCI_CBIO :: u32 where [simp]: "PCI_CBIO = 0x10"
definition PCI_CFIT :: u32 where [simp]: "PCI_CFIT = 0x3c"
definition PCI_IO_CONF_START :: u32 where [simp]: "PCI_IO_CONF_START = 0xc000"

record pci =
  mechanism :: u32
  adapters :: "nat \<Rightarrow> nat \<Rightarrow> u32"
  conf_addr :: u32
  config :: "u32 \<Rightarrow> u32"
  io_config :: "u32 \<Rightarrow> u32"

text \<open>\<open>accept a old new\<close>: what the register at \<open>a\<close> holds when \<open>new\<close> is written over \<open>old\<close>.\<close>

type_synonym accept = "u32 \<Rightarrow> u32 \<Rightarrow> u32 \<Rightarrow> u32"

definition write_addr_reg :: "u32 \<Rightarrow> pci \<Rightarrow> pci" where
  "write_addr_reg a s = s\<lparr>conf_addr := a\<rparr>"

definition write_data_reg :: "accept \<Rightarrow> u32 \<Rightarrow> pci \<Rightarrow> pci" where
  "write_data_reg accept v s =
     s\<lparr>config := (config s)(conf_addr s := accept (conf_addr s) (config s (conf_addr s)) v)\<rparr>"

definition read_data_reg :: "pci \<Rightarrow> u32" where
  "read_data_reg s = config s (conf_addr s)"

definition conf_address :: "u32 \<Rightarrow> u32 \<Rightarrow> u32 \<Rightarrow> u32" where
  "conf_address bus slot off = 0x80000000 OR push_bit 16 bus OR push_bit 11 slot OR off"

definition io_address :: "u32 \<Rightarrow> u32 \<Rightarrow> u32" where
  "io_address slot off = PCI_IO_CONF_START OR push_bit 8 slot OR off"

section \<open>Configuration\<close>

definition pci_config_write :: "accept \<Rightarrow> u32 \<Rightarrow> u32 \<Rightarrow> u32 \<Rightarrow> u32 \<Rightarrow> pci \<Rightarrow> pci" where
  "pci_config_write accept bus slot off val s =
     (if mechanism s = 1
      then let s = write_addr_reg 0xf0 (write_addr_reg bus s); a = io_address slot off
           in s\<lparr>io_config := (io_config s)(a := accept a (io_config s a) val)\<rparr>
      else write_data_reg accept val (write_addr_reg (conf_address bus slot off) s))"

definition pci_config_read :: "u32 \<Rightarrow> u32 \<Rightarrow> u32 \<Rightarrow> pci \<Rightarrow> u32 \<times> pci" where
  "pci_config_read bus slot off s =
     (let s = write_addr_reg (conf_address bus slot off) s; data = read_data_reg s in
      if data = 0xffffffff \<and> slot < 0x10
      then let s = write_addr_reg 0xf0 (write_addr_reg bus s); data = io_config s (io_address slot off) in
           if data = 0xffffffff then (data, s)
           else if mechanism s = 0 then (data, s\<lparr>mechanism := 1\<rparr>) else (data, s)
      else if mechanism s = 0 then (data, s\<lparr>mechanism := 2\<rparr>) else (data, s))"

definition pci_irq :: "u32 \<Rightarrow> u32 \<Rightarrow> pci \<Rightarrow> u8 \<times> pci" where
  "pci_irq bus slot s = (let (d, s) = pci_config_read bus slot PCI_CFIT s in (ucast (d AND 0xFF), s))"

definition pci_iobase :: "u32 \<Rightarrow> u32 \<Rightarrow> u32 \<Rightarrow> pci \<Rightarrow> u32 \<times> pci" where
  "pci_iobase bus slot nr s = (let (d, s) = pci_config_read bus slot (PCI_CBIO + nr * 4) s in (d AND 0xFFFFFFFC, s))"

definition pci_type :: "u32 \<Rightarrow> u32 \<Rightarrow> u32 \<Rightarrow> pci \<Rightarrow> u32 \<times> pci" where
  "pci_type bus slot nr s = (let (d, s) = pci_config_read bus slot (PCI_CBIO + nr * 4) s in (d AND 1, s))"

definition pci_size :: "accept \<Rightarrow> u32 \<Rightarrow> u32 \<Rightarrow> u32 \<Rightarrow> pci \<Rightarrow> u32 \<times> pci" where
  "pci_size accept bus slot nr s =
     (let (tmp, s) = pci_config_read bus slot (PCI_CBIO + nr * 4) s;
          s = pci_config_write accept bus slot (PCI_CBIO + nr * 4) 0xFFFFFFFF s;
          (r, s) = pci_config_read bus slot (PCI_CBIO + nr * 4) s
      in (NOT r + 1, pci_config_write accept bus slot (PCI_CBIO + nr * 4) tmp s))"

text \<open>All pairs of a bus and a slot, in the order of the loops.\<close>

definition pci_slots :: "(nat \<times> nat) list" where
  "pci_slots = concat (map (\<lambda>bus. map (Pair bus) [0..<MAX_SLOTS]) [0..<MAX_BUS])"

definition pci_init :: "pci \<Rightarrow> int \<times> pci" where
  "pci_init s =
     (0, fold (\<lambda>(bus, slot) s.
            let (d, s) = pci_config_read (of_nat bus) (of_nat slot) PCI_CFID s
            in s\<lparr>adapters := (adapters s)(bus := (adapters s bus)(slot := d))\<rparr>) pci_slots s)"

section \<open>Searching a device\<close>

record pci_info =
  info_slot :: u8
  info_bus :: u8
  info_irq :: u8
  info_base :: "u32 list"
  info_size :: "u32 list"
  info_type :: "u8 list"

definition read_bar :: "accept \<Rightarrow> u32 \<Rightarrow> u32 \<Rightarrow> nat \<Rightarrow> pci_info \<times> pci \<Rightarrow> pci_info \<times> pci" where
  "read_bar accept bus slot i r =
     (let (info, s) = r;
          (b, s) = pci_iobase bus slot (of_nat i) s;
          info = info\<lparr>info_base := (info_base info)[i := b]\<rparr>;
          (ty, s) = pci_type bus slot (of_nat i) s;
          info = info\<lparr>info_type := (info_type info)[i := ucast ty]\<rparr>;
          (sz, s) = (if b \<noteq> 0 then pci_size accept bus slot (of_nat i) s else (0, s))
      in (info\<lparr>info_size := (info_size info)[i := sz]\<rparr>, s))"

definition read_device :: "accept \<Rightarrow> nat \<Rightarrow> nat \<Rightarrow> pci_info \<Rightarrow> pci \<Rightarrow> pci_info \<times> pci" where
  "read_device accept bus slot info s =
     (let info = info\<lparr>info_slot := of_nat slot, info_bus := of_nat bus\<rparr>;
          (info, s) = fold (read_bar accept (of_nat bus) (of_nat slot)) [0..<6] (info, s);
          (i, s) = pci_irq (of_nat bus) (of_nat slot) s
      in (info\<lparr>info_irq := i\<rparr>, s))"

definition is_device :: "u32 \<Rightarrow> u32 \<Rightarrow> u32 \<Rightarrow> bool" where
  "is_device vendor_id device_id a \<longleftrightarrow>
     a \<noteq> 0xFFFFFFFF \<and> a AND 0xffff = vendor_id \<and> drop_bit 16 (a AND 0xffff0000) = device_id"

fun search_device ::
  "accept \<Rightarrow> u32 \<Rightarrow> u32 \<Rightarrow> u32 \<Rightarrow> (nat \<times> nat) list \<Rightarrow> pci_info \<Rightarrow> pci \<Rightarrow> int \<times> pci_info \<times> pci" where
  "search_device accept vendor_id device_id base [] info s = (- EINVAL, info, s)"
| "search_device accept vendor_id device_id base ((bus, slot) # rest) info s =
     (if is_device vendor_id device_id (adapters s bus slot)
      then let (info, s) = read_device accept bus slot info s in
           if base \<noteq> 0 \<and> info_base info ! 0 \<noteq> base
           then search_device accept vendor_id device_id base rest info s
           else (0, info, s)
      else search_device accept vendor_id device_id base rest info s)"

definition pci_dev_info :: "accept \<Rightarrow> u32 \<Rightarrow> u32 \<Rightarrow> u32 \<Rightarrow> pci_info option \<Rightarrow> pci \<Rightarrow> int \<times> pci_info option \<times> pci" where
  "pci_dev_info accept vendor_id device_id base info s =
     (case info of
        None \<Rightarrow> (- EINVAL, None, s)
      | Some info \<Rightarrow>
          let s = (if mechanism s = 0 then snd (pci_init s) else s);
              (r, info, s) = search_device accept vendor_id device_id base pci_slots info s
          in (r, Some info, s))"

section \<open>Sizes\<close>

lemma read_present:
  assumes "mechanism s = 2" and "config s (conf_address bus slot off) \<noteq> 0xFFFFFFFF"
  shows "pci_config_read bus slot off s =
    (config s (conf_address bus slot off), s\<lparr>conf_addr := conf_address bus slot off\<rparr>)"
  using assms by (simp add: pci_config_read_def write_addr_reg_def read_data_reg_def Let_def)

lemma write_present:
  assumes "mechanism s = 2"
  shows "pci_config_write accept bus slot off v s =
    s\<lparr>conf_addr := conf_address bus slot off,
      config := (config s)(conf_address bus slot off :=
        accept (conf_address bus slot off) (config s (conf_address bus slot off)) v)\<rparr>"
  using assms by (simp add: pci_config_write_def write_addr_reg_def write_data_reg_def Let_def)

lemma negated_mask: "(mask k AND NOT f) + 1 = 2 ^ k - (f :: u32)" if "f AND NOT (mask k) = 0"
proof -
  have f: "mask k AND f = f"
  proof (rule bit_word_eqI)
    fix n show "bit (mask k AND f) n = bit f n"
      using that bit_imp_le_length [of f n] by (auto simp: bit_eq_iff bit_simps)
  qed
  have "mask k AND NOT f = mask k - f"
  proof -
    have "(mask k AND NOT f) + (mask k AND f) = mask k"
      by (subst disjunctive_add) (auto simp: bit_simps intro!: bit_word_eqI)
    then show ?thesis by (simp add: f eq_diff_eq)
  qed
  then show ?thesis by (simp add: mask_eq_exp_minus_1)
qed

text \<open>
  C36: a base address register of a device that decodes 2 to the power of \<open>k\<close> bytes, with the flags \<open>f\<close> in its lower bits,
  has its old contents after \<^verbatim>\<open>pci_size\<close>, and so has every other register; but the result is too small by the flags: only
  memory that is not prefetchable, where they are 0, is measured correctly.
\<close>

theorem pci_size_flags:
  assumes "mechanism s = 2"
    and "\<And>old new. accept (conf_address bus slot (PCI_CBIO + nr * 4)) old new = (new AND NOT (mask k)) OR f"
    and "f AND NOT (mask k) = 0" and "NOT (mask k) OR f \<noteq> 0xFFFFFFFF"
    and "config s (conf_address bus slot (PCI_CBIO + nr * 4)) = b OR f" and "b AND mask k = 0" and "b OR f \<noteq> 0xFFFFFFFF"
  shows "\<exists>s'. pci_size accept bus slot nr s = (2 ^ k - f, s') \<and> config s' = config s \<and> adapters s' = adapters s
    \<and> mechanism s' = mechanism s"
proof -
  let ?a = "conf_address bus slot (PCI_CBIO + nr * 4)"
  have "(b OR f) AND NOT (mask k) OR f = b OR f"
  proof (rule bit_word_eqI)
    fix n show "bit ((b OR f) AND NOT (mask k) OR f) n = bit (b OR f) n"
      using assms(3,6) bit_imp_le_length [of f n] bit_imp_le_length [of b n] by (auto simp: bit_eq_iff bit_simps)
  qed
  moreover have "0xFFFFFFFF AND x = x" for x :: u32
  proof -
    have "(0xFFFFFFFF :: u32) = - 1" by simp
    then show ?thesis by (simp only: and.left_neutral)
  qed
  then have "accept ?a (b OR f) 0xFFFFFFFF = NOT (mask k) OR f" by (simp add: assms(2) del: PCI_CBIO_def)
  ultimately show ?thesis
    using assms by (simp add: pci_size_def read_present write_present Let_def negated_mask fun_eq_iff del: PCI_CBIO_def)
qed

lemma pci_size_flags_witness:
  "\<exists>s'. pci_size (\<lambda>a old new. (new AND NOT (mask 5)) OR 1) 0 3 0
      (\<lparr>mechanism = 2, adapters = (\<lambda>_ _. 0), conf_addr = 0, config = (\<lambda>_. 0xC041), io_config = (\<lambda>_. 0)\<rparr>) = (31, s')
    \<and> config s' = (\<lambda>_. 0xC041)"
proof -
  have m: "mask 5 = (0x1F :: u32)" by (simp add: mask_eq_exp_minus_1)
  show ?thesis
    using pci_size_flags [where k = 5 and f = 1 and b = "0xC040" and bus = 0 and slot = 3 and nr = 0
        and accept = "\<lambda>a old new. (new AND NOT (mask 5)) OR 1"
        and s = "\<lparr>mechanism = 2, adapters = (\<lambda>_ _. 0), conf_addr = 0, config = (\<lambda>_. 0xC041), io_config = (\<lambda>_. 0)\<rparr>"]
    by (auto simp: m)
qed

section \<open>The first device\<close>

lemma read_bar_slot: "info_slot (fst (fold (read_bar accept b sl) is r)) = info_slot (fst r)
    \<and> info_bus (fst (fold (read_bar accept b sl) is r)) = info_bus (fst r)"
  by (induction "is" arbitrary: r) (simp_all add: read_bar_def Let_def split_beta)

text \<open>A search for any address finds the first device with the identification, and fails only if there is none.\<close>

lemma search_device_first:
  "case find (\<lambda>(b, sl). is_device v d (adapters s b sl)) slots of
     None \<Rightarrow> search_device accept v d 0 slots info s = (- EINVAL, info, s)
   | Some (b, sl) \<Rightarrow> \<exists>info' s'. search_device accept v d 0 slots info s = (0, info', s')
       \<and> info_bus info' = of_nat b \<and> info_slot info' = of_nat sl"
  by (induction slots) (auto simp: read_device_def Let_def split_beta read_bar_slot split: option.split)

end

