(* ===== verification/Syscalls.thy ===== *)
theory Syscalls
  imports Interrupts
begin

unbundle bit_operations_syntax

text \<open>
  The system calls, \<^verbatim>\<open>sys/syscall.c\<close>, on the machine with the console and the tasks. The buffers of the calls are in a
  flat memory of bytes, as the string routines see it. What the keyboard delivers while a read waits is the argument \<open>ports\<close>.
\<close>

section \<open>State\<close>

record user = machine +
  user_mem :: mem
  buffer_num :: int

definition NR_exit :: u32 where [simp]: "NR_exit = 0"
definition NR_write :: u32 where [simp]: "NR_write = 1"
definition NR_open :: u32 where [simp]: "NR_open = 2"
definition NR_close :: u32 where [simp]: "NR_close = 3"
definition NR_read :: u32 where [simp]: "NR_read = 4"
definition NR_sbrk :: u32 where [simp]: "NR_sbrk = 11"

section \<open>Reading and writing\<close>

definition sys_write :: "u32 \<Rightarrow> addr \<Rightarrow> u32 \<Rightarrow> 'a user_scheme \<Rightarrow> int \<times> 'a user_scheme" where
  "sys_write fd buf len s =
     (if buf = 0 then (- EINVAL, s)
      else (sint len, s\<lparr>con := fold (\<lambda>i. monPut (user_mem s (buf + of_nat i))) [0..<unat len] (con s)\<rparr>))"

text \<open>
  The loop of \<^verbatim>\<open>sys_read\<close>; each round waits for a key. The size 5 is the one in the code. The result is a signed counter of 32
  bits, whose overflow is \<open>None\<close>.
\<close>

fun read_keys ::
  "(arrow \<Rightarrow> console \<Rightarrow> console) \<Rightarrow> nat \<Rightarrow> addr \<Rightarrow> int \<Rightarrow> u8 list \<Rightarrow> 'a user_scheme \<Rightarrow> (int \<times> u8 list \<times> 'a user_scheme) option" where
  "read_keys keys 0 buf ret ports s = Some (ret, ports, s)"
| "read_keys keys (Suc n) buf ret ports s =
     (case getChar keys ports (con s) of
        None \<Rightarrow> None
      | Some (c, ports, t) \<Rightarrow>
          let (m, b, _) = addToBuffer (user_mem s) (buffer_num s) buf 5 c
          in if ret \<ge> 2 ^ 31 - 1 then None else read_keys keys n buf (ret + 1) ports (s\<lparr>con := t, user_mem := m, buffer_num := b\<rparr>))"

text \<open>The message \<^verbatim>\<open>"error"\<close> with a newline is given by its bytes.\<close>

definition sys_read ::
  "(arrow \<Rightarrow> console \<Rightarrow> console) \<Rightarrow> u32 \<Rightarrow> addr \<Rightarrow> u32 \<Rightarrow> u8 list \<Rightarrow> 'a user_scheme \<Rightarrow> (int \<times> u8 list \<times> 'a user_scheme) option" where
  "sys_read keys fd buf len ports s =
     (if fd = 0 then Some (1, ports, s\<lparr>con := monWrite [101, 114, 114, 111, 114, 10] (con s)\<rparr>)
      else read_keys keys (unat len) buf 1 ports s)"

section \<open>The heap of a task\<close>

text \<open>Without a heap the task is aborted.\<close>

definition sys_sbrk :: "addr \<Rightarrow> u32 \<Rightarrow> 'a sys_scheme \<Rightarrow> (int, 'a sys_scheme) served option" where
  "sys_sbrk sp incr s =
     (let heap = task_heap s (current_id s) in
      if heap = 0 then map_option Aborted (do_exit sp s)
      else let ret = v_end (vma_at s heap);
               s = upd_vma heap (\<lambda>v. v\<lparr>v_end := v_end v + incr\<rparr>) s;
               s = (if v_end (vma_at s heap) < v_start (vma_at s heap)
                    then upd_vma heap (\<lambda>v. v\<lparr>v_end := v_start v\<rparr>) s else s)
           in Some (Returned (sint ret) s))"

section \<open>Dispatch\<close>

text \<open>The result of a call, the rest of the key codes and the state.\<close>

definition syscall_handler ::
  "(arrow \<Rightarrow> console \<Rightarrow> console) \<Rightarrow> addr \<Rightarrow> u32 \<Rightarrow> u32 \<Rightarrow> u32 \<Rightarrow> u32 \<Rightarrow> u8 list \<Rightarrow> 'a user_scheme
     \<Rightarrow> (int \<times> u8 list, 'a user_scheme) served option" where
  "syscall_handler keys sp sys_nr a0 a1 a2 ports s =
     (if sys_nr = NR_exit then map_option Aborted (sys_exit sp (uint a0) s)
      else if sys_nr = NR_write then (let (r, s) = sys_write a0 a1 a2 s in Some (Returned (r, ports) s))
      else if sys_nr = NR_read then
        map_option (\<lambda>(r, ports, s). Returned (r, ports) s) (sys_read keys a0 a1 a2 ports s)
      else if sys_nr = NR_open \<or> sys_nr = NR_close then Some (Returned (0, ports) s)
      else if sys_nr = NR_sbrk then
        map_option (\<lambda>r. case r of Returned v s \<Rightarrow> Returned (v, ports) s | Aborted s \<Rightarrow> Aborted s) (sys_sbrk sp a0 s)
      else Some (Returned (- ENOSYS, ports) s))"

section \<open>Facts\<close>

lemma negative_wraps:
  fixes e i :: u32
  assumes "sint i < 0" and "uint e + sint i < 0"
  shows "e < e + i"
proof -
  have "(word_of_int (sint i) :: u32) = i" by simp
  moreover have "- (2 ^ 31) \<le> sint i" using sint_ge [of i] by simp
  ultimately have "uint i = sint i + 2 ^ 32"
    using assms(1) uint_word_of_int_eq [where ?'a = 32, of "sint i"]
    by (simp add: take_bit_eq_mod) (smt (verit) mod_add_self2 mod_pos_pos_trivial)
  then have "uint (e + i) = uint e + uint i"
    using assms \<open>- (2 ^ 31) \<le> sint i\<close> uint_ge_0 [of e] by (simp add: uint_word_ariths mod_pos_pos_trivial)
  then show ?thesis
    using \<open>uint i = _\<close> \<open>- (2 ^ 31) \<le> sint i\<close> by (simp add: word_less_def)
qed

lemma sys_sbrk_eq:
  assumes "task_heap s (current_id s) \<noteq> 0"
  shows "sys_sbrk sp incr s =
    (let h = task_heap s (current_id s); v = vma_at s h
     in Some (Returned (sint (v_end v)) (s\<lparr>vma_at := (vma_at s)(h := v\<lparr>v_end := max (v_start v) (v_end v + incr)\<rparr>)\<rparr>)))"
  using assms by (simp add: sys_sbrk_def Let_def upd_vma_def max_def not_le [symmetric])

text \<open>
  C28: for a task with a heap, \<^verbatim>\<open>sbrk\<close> returns the old end of the heap and moves the end by the increment in 32-bit
  arithmetic, never below the start, and changes nothing else. An increment that would lead below zero therefore wraps:
  the heap then ends higher than before.
\<close>

theorem sbrk_moves_end:
  assumes "task_heap s (current_id s) = h" and "h \<noteq> 0"
  shows "\<exists>s'. sys_sbrk sp incr s = Some (Returned (sint (v_end (vma_at s h))) s')
    \<and> v_end (vma_at s' h) = max (v_start (vma_at s h)) (v_end (vma_at s h) + incr)
    \<and> v_start (vma_at s' h) = v_start (vma_at s h)
    \<and> s' = s\<lparr>vma_at := (vma_at s)(h := vma_at s' h)\<rparr>
    \<and> (sint incr < 0 \<and> uint (v_end (vma_at s h)) + sint incr < 0 \<longrightarrow> v_end (vma_at s h) < v_end (vma_at s' h))"
  using assms negative_wraps [of incr "v_end (vma_at s h)"]
  by (auto simp: sys_sbrk_eq Let_def less_max_iff_disj)

definition heap_task :: user where
  "heap_task = machine.extend (boot_machine\<lparr>task_heap := (\<lambda>_. 0x5000),
     vma_at := (\<lambda>_. \<lparr>v_start = 0x1000, v_end = 0x2000, v_flags = 0, v_next = 0, v_prev = 0\<rparr>)\<rparr>) (user.fields (\<lambda>_. 1) 0)"

lemma heap_task_fields [simp]:
  "task_heap heap_task = (\<lambda>_. 0x5000)" "user_mem heap_task = (\<lambda>_. 1)" "buffer_num heap_task = 0" "con heap_task = blank_screen"
  "vma_at heap_task = (\<lambda>_. \<lparr>v_start = 0x1000, v_end = 0x2000, v_flags = 0, v_next = 0, v_prev = 0\<rparr>)"
  by (simp_all add: heap_task_def boot_machine_def machine.defs user.defs apic.defs)

lemma sbrk_moves_end_witness:
  "(\<exists>s'. sys_sbrk 0 (- 0x3000) heap_task = Some (Returned 0x2000 s') \<and> v_end (vma_at s' 0x5000) = 0xFFFFF000)
    \<and> (\<exists>s'. sys_sbrk 0 0x1000 heap_task = Some (Returned 0x2000 s') \<and> v_end (vma_at s' 0x5000) = 0x3000)"
  using sbrk_moves_end [of heap_task "0x5000" 0 "- 0x3000"] sbrk_moves_end [of heap_task "0x5000" 0 "0x1000"]
  by (auto simp: max_def)

text \<open>What storing one key does to the buffer.\<close>

lemma addToBuffer_step:
  assumes "addToBuffer m b buf 5 c = (m', b', r)" and "0 \<le> b"
  shows "b' = (if b < 5 then b + 1 else b)"
    and "a \<notin> set (map (\<lambda>i. buf + of_nat i) [0..<5]) \<Longrightarrow> m' a = m a"
    and "b < 5 \<Longrightarrow> m' (buf + 4) = 0"
    and "\<not> b < 5 \<Longrightarrow> m' = m"
proof -
  show "b' = (if b < 5 then b + 1 else b)" "b < 5 \<Longrightarrow> m' (buf + 4) = 0" "\<not> b < 5 \<Longrightarrow> m' = m"
    using assms by (auto simp: addToBuffer_def Let_def)
  assume a: "a \<notin> set (map (\<lambda>i. buf + of_nat i) [0..<5])"
  have "a \<noteq> buf + of_int b" if "b < 5"
  proof
    assume "a = buf + of_int b"
    then have "a = buf + of_nat (nat b)" using assms(2) by simp
    moreover have "nat b \<in> set [0..<5]" using that assms(2) by auto
    ultimately show False using a by simp
  qed
  moreover have "buf + 4 \<in> set (map (\<lambda>i. buf + of_nat i) [0..<5])" by (simp add: image_iff) (rule bexI [of _ 4]; simp)
  then have "a \<noteq> buf + 4" using a by blast
  ultimately show "m' a = m a" using assms by (auto simp: addToBuffer_def Let_def split: if_splits)
qed

lemma read_keys_bounds:
  assumes "read_keys keys n buf ret ports s = Some (r, rest, s')" and "0 \<le> buffer_num s"
  shows "r = ret + int n \<and> buffer_num s' = max (buffer_num s) (min 5 (buffer_num s + int n))
    \<and> (\<forall>a. a \<notin> set (map (\<lambda>i. buf + of_nat i) [0..<5]) \<longrightarrow> user_mem s' a = user_mem s a)
    \<and> (buffer_num s < 5 \<and> 0 < n \<longrightarrow> user_mem s' (buf + 4) = 0)
    \<and> (5 \<le> buffer_num s \<longrightarrow> user_mem s' = user_mem s)"
  using assms
proof (induction n arbitrary: ret ports s)
  case (Suc n)
  obtain c ports' t where c: "getChar keys ports (con s) = Some (c, ports', t)"
    using Suc.prems(1) by (auto split: option.splits)
  obtain m b x where b: "addToBuffer (user_mem s) (buffer_num s) buf 5 c = (m, b, x)" by (metis prod_cases3)
  note step = addToBuffer_step [OF b Suc.prems(2)]
  let ?s = "s\<lparr>con := t, user_mem := m, buffer_num := b\<rparr>"
  have rest: "read_keys keys n buf (ret + 1) ports' ?s = Some (r, rest, s')" using Suc.prems(1) by (simp add: c b split: if_splits)
  moreover have "0 \<le> buffer_num ?s" using Suc.prems(2) step(1) by simp
  ultimately have "r = ret + 1 + int n \<and> buffer_num s' = max b (min 5 (b + int n))
    \<and> (\<forall>a. a \<notin> set (map (\<lambda>i. buf + of_nat i) [0..<5]) \<longrightarrow> user_mem s' a = m a)
    \<and> (b < 5 \<and> 0 < n \<longrightarrow> user_mem s' (buf + 4) = 0) \<and> (5 \<le> b \<longrightarrow> user_mem s' = m)"
    using Suc.IH by simp
  then show ?case
    using step rest by (cases "n = 0") (auto split: if_splits)
qed auto

text \<open>
  C38: \<^verbatim>\<open>read\<close> of descriptor 0 takes no key, stores nothing and returns 1. Of any other descriptor it waits for as many keys as
  it is asked for and returns one more than that, but takes the buffer to have 5 bytes: it writes within them, a 0 at the
  last one even if the buffer is shorter, and counts the stored keys across all calls: after the fifth key no later call
  stores anything.
\<close>

theorem sys_read_five_bytes:
  assumes "sys_read keys fd buf len ports s = Some (r, rest, s')" and "0 \<le> buffer_num s"
  shows "if fd = 0 then r = 1 \<and> rest = ports \<and> user_mem s' = user_mem s \<and> buffer_num s' = buffer_num s
    else r = 1 + int (unat len) \<and> buffer_num s' = max (buffer_num s) (min 5 (buffer_num s + int (unat len)))
    \<and> (\<forall>a. a \<notin> set (map (\<lambda>i. buf + of_nat i) [0..<5]) \<longrightarrow> user_mem s' a = user_mem s a)
    \<and> (buffer_num s < 5 \<and> 0 < len \<longrightarrow> user_mem s' (buf + 4) = 0)
    \<and> (5 \<le> buffer_num s \<longrightarrow> user_mem s' = user_mem s)"
proof (cases "fd = 0")
  case True
  then show ?thesis using assms(1) by (auto simp: sys_read_def)
next
  case False
  then have "read_keys keys (unat len) buf 1 ports s = Some (r, rest, s')" using assms(1) by (simp add: sys_read_def)
  from read_keys_bounds [OF this assms(2)] show ?thesis unfolding if_not_P [OF False] by (simp add: unat_gt_0 word_neq_0_conv)
qed

lemma sys_read_five_bytes_witness:
  "\<exists>s'. sys_read cursor_keys 1 0x100 1 [0x1e] heap_task = Some (2, [], s') \<and> buffer_num s' = 1
    \<and> user_mem s' 0x104 = 0 \<and> user_mem s' 0x105 = 1"
proof -
  obtain t where "getChar cursor_keys [0x1e] blank_screen = Some (97, [], t)"
    using getChar_shift [of "[]" "0x1e" cursor_keys "[]" blank_screen] by (auto simp: shift_after_def kbdus_def)
  then have "\<exists>r s'. sys_read cursor_keys 1 0x100 1 [0x1e] heap_task = Some (r, [], s')"
    by (simp add: sys_read_def addToBuffer_def)
  then obtain r s' where s': "sys_read cursor_keys 1 0x100 1 [0x1e] heap_task = Some (r, [], s')" by blast
  from sys_read_five_bytes [OF this] show ?thesis
    using s' by (auto simp: upt_rec)
qed

end
