(* ===== verification/Byte_Words.thy ===== *)
theory Byte_Words
  imports C_String
begin

unbundle bit_operations_syntax

text \<open>
  Words in the byte memory of the string routines, with their low byte first, as the processor stores them, and facts on regions
  of that memory that the theories above share.
\<close>

section \<open>Words in the byte memory\<close>

definition get16 :: "mem \<Rightarrow> addr \<Rightarrow> u16" where
  "get16 m a = ucast (m a) OR push_bit 8 (ucast (m (a + 1)))"

definition get32 :: "mem \<Rightarrow> addr \<Rightarrow> u32" where
  "get32 m a = ucast (m a) OR push_bit 8 (ucast (m (a + 1))) OR push_bit 16 (ucast (m (a + 2))) OR push_bit 24 (ucast (m (a + 3)))"

definition put32 :: "addr \<Rightarrow> u32 \<Rightarrow> mem \<Rightarrow> mem" where
  "put32 a v m = m(a := ucast v, a + 1 := ucast (drop_bit 8 v), a + 2 := ucast (drop_bit 16 v), a + 3 := ucast (drop_bit 24 v))"

section \<open>Reading what was stored\<close>

lemma split_word:
  "ucast (ucast v :: u8) OR push_bit 8 (ucast (ucast (drop_bit 8 v) :: u8)) OR push_bit 16 (ucast (ucast (drop_bit 16 v) :: u8))
     OR push_bit 24 (ucast (ucast (drop_bit 24 v) :: u8)) = v" for v :: u32
proof (rule bit_word_eqI)
  fix n assume n: "n < LENGTH(32)"
  then have "n < 8 \<or> 8 \<le> n \<and> n < 16 \<or> 16 \<le> n \<and> n < 24 \<or> 24 \<le> n" by linarith
  then show "bit ((ucast (ucast v :: u8) :: u32) OR push_bit 8 (ucast (ucast (drop_bit 8 v) :: u8))
      OR push_bit 16 (ucast (ucast (drop_bit 16 v) :: u8)) OR push_bit 24 (ucast (ucast (drop_bit 24 v) :: u8))) n = bit v n"
    using n by (elim disjE conjE) (simp_all add: bit_simps less_diff_conv2)
qed

lemma get32_put32: "get32 (put32 a v m) a = v"
  by (simp add: get32_def put32_def split_word)

lemma put32_other: "\<forall>i<4. a \<noteq> p + of_nat i \<Longrightarrow> put32 p v m a = m a"
  by (simp add: put32_def eval_nat_numeral All_less_Suc)

lemma get32_cong: "\<forall>i<4. m' (p + of_nat i) = m (p + of_nat i) \<Longrightarrow> get32 m' p = get32 m p"
  by (simp add: get32_def eval_nat_numeral All_less_Suc)

text \<open>Within a region all addresses are different, even when the region wraps around.\<close>

lemma region_eq: "x < 2 ^ 32 \<Longrightarrow> y < 2 ^ 32 \<Longrightarrow> (b + of_nat x = (b + of_nat y :: addr)) = (x = y)"
  by (auto simp: word_of_nat_eq_iff take_bit_nat_eq_self)

lemma put32_region:
  assumes "x < 2 ^ 32" and "j + 4 \<le> 2 ^ 32" and "x < j \<or> j + 4 \<le> x"
  shows "put32 (b + of_nat j) v m (b + of_nat x) = m (b + of_nat x)"
proof (rule put32_other, intro allI impI)
  fix i :: nat assume "i < 4"
  then have "b + of_nat x \<noteq> b + of_nat (j + i)"
    using assms by (subst region_eq) auto
  then show "b + of_nat x \<noteq> b + of_nat j + of_nat i" by (simp add: add.assoc)
qed

lemma get32_put32_region:
  assumes "j + 4 \<le> 2 ^ 32" and "k + 4 \<le> 2 ^ 32" and "k + 4 \<le> j \<or> j + 4 \<le> k"
  shows "get32 (put32 (b + of_nat j) v m) (b + of_nat k) = get32 m (b + of_nat k)"
proof (rule get32_cong, intro allI impI)
  fix i :: nat assume "i < 4"
  then show "put32 (b + of_nat j) v m (b + of_nat k + of_nat i) = m (b + of_nat k + of_nat i)"
    using put32_region [of "k + i" j b v m] assms by (simp add: add.assoc) (use \<open>i < 4\<close> in linarith)
qed

section \<open>Strings in regions\<close>

lemma cstr_moved:
  "\<forall>i\<le>length bs. m' (q + of_nat i) = m (p + of_nat i) \<Longrightarrow> cstr m' q bs = cstr m p bs"
proof (induction bs arbitrary: p q)
  case (Cons b bs)
  have "\<forall>i\<le>length bs. m' (q + 1 + of_nat i) = m (p + 1 + of_nat i)"
  proof (intro allI impI)
    fix i assume "i \<le> length bs"
    then show "m' (q + 1 + of_nat i) = m (p + 1 + of_nat i)"
      using Cons.prems [rule_format, of "Suc i"] by (simp add: add.assoc)
  qed
  from Cons.IH [OF this] show ?case using Cons.prems [rule_format, of 0] by simp
qed simp

lemma separate_below:
  assumes "unat q + k \<le> unat p" and "unat p + n \<le> 2 ^ 32"
  shows "separate p n q k"
  unfolding separate_def
proof (intro allI impI notI)
  fix i j assume "i < n" "j < k" and eq: "p + of_nat i = q + of_nat j"
  have "unat (p + of_nat i) = unat p + i" "unat (q + of_nat j) = unat q + j"
    using assms \<open>i < n\<close> \<open>j < k\<close> by (auto intro!: addr_no_wrap)
  then show False using eq assms(1) \<open>j < k\<close> by simp
qed

lemma memset_range:
  "fst (memset m p v n) a = (if \<exists>i<unat n. a = p + of_nat i then ucast v else m a)"
proof -
  have "fold (\<lambda>i m. m(p + of_nat i := ucast v)) [0..<k] m a = (if \<exists>i<k. a = p + of_nat i then ucast v else m a)" for k
    by (induction k) (auto simp: less_Suc_eq)
  then show ?thesis by (simp add: memset_def)
qed

lemma memset_outside: "\<forall>i<unat n. a \<noteq> p + of_nat i \<Longrightarrow> fst (memset m p v n) a = m a"
  by (auto simp: memset_range)

lemma separate_sym: "separate p n q k \<Longrightarrow> separate q k p n"
  by (auto simp: separate_def) metis

end
