(* ===== verification/Program_Args.thy ===== *)
theory Program_Args
  imports Byte_Words
begin

unbundle bit_operations_syntax

text \<open>
  The arguments of a program, from \<^verbatim>\<open>create_user_task\<close>, which packs them into a block of the heap, to \<^verbatim>\<open>load_task\<close>, which
  lays them out on the stack of the program (\<^verbatim>\<open>sys/tasksp.c\<close>).
\<close>

section \<open>From the arguments to the stack\<close>

definition DEFAULT_STACK_SIZE :: u32 where [simp]: "DEFAULT_STACK_SIZE = 16 * 1024"
definition MAX_ARGS :: u32 where [simp]: "MAX_ARGS = PAGE_SIZE - 2 * 4 - 4"

text \<open>
  \<^verbatim>\<open>load_args_t\<close> in memory: the node, \<^verbatim>\<open>argc\<close>, \<^verbatim>\<open>envc\<close> and the strings from offset 12 on. \<open>push_pointers\<close> is each of the two
  loops that store the pointers to the strings; \<open>None\<close> if no NUL follows.
\<close>

fun push_pointers :: "addr \<Rightarrow> u32 \<Rightarrow> nat list \<Rightarrow> u32 \<Rightarrow> mem \<Rightarrow> (u32 \<times> mem) option" where
  "push_pointers stk offset [] idx m = Some (idx, m)"
| "push_pointers stk offset (i # is) idx m =
     (let m = put32 (stk + offset + 4 * of_nat i) (stk + idx) m in
      case strlen_from m stk idx of None \<Rightarrow> None
      | Some idx \<Rightarrow> push_pointers stk offset is (idx + 1) m)"

definition push_args :: "addr \<Rightarrow> addr \<Rightarrow> mem \<Rightarrow> (u32 \<times> mem) option" where
  "push_args stk largs m =
     (let argc = get32 m (largs + 4); envc = get32 m (largs + 8);
          offset = DEFAULT_STACK_SIZE - 8;
          m = fst (memset m (stk + offset) 0 4);
          offset = offset - MAX_ARGS;
          m = fst (memcpy m (stk + offset) (largs + 12) MAX_ARGS);
          idx = offset;
          offset = offset - argc * 4
      in case push_pointers stk offset [0..<unat argc] idx m of None \<Rightarrow> None
      | Some (idx, m) \<Rightarrow>
          let offset = offset - (envc + 1) * 4 in
          (case push_pointers stk offset [0..<unat envc] idx m of None \<Rightarrow> None
          | Some (idx, m) \<Rightarrow>
              let m = put32 (stk + offset + 4 * envc) 0 m;
                  offset = offset - 4;
                  m = (if envc = 0 then put32 (stk + offset) 0 m else put32 (stk + offset) (stk + offset + 4) m);
                  offset = offset - 4;
                  m = put32 (stk + offset) (stk + offset + 2 * 4 + (envc + 1) * 4) m;
                  offset = offset - 4
              in Some (offset, put32 (stk + offset) argc m)))"

section \<open>From the caller to the block\<close>

partial_function (option) count_args :: "mem \<Rightarrow> addr \<Rightarrow> u32 \<Rightarrow> u32 \<Rightarrow> (u32 \<times> u32) option" where
  "count_args m argv argc buffer_size =
     (let p = get32 m (argv + 4 * argc) in
      if p \<noteq> 0 then (case strlen m p of None \<Rightarrow> None
        | Some n \<Rightarrow> count_args m argv (argc + 1) (buffer_size + (n + 1)))
      else Some (argc, buffer_size))"

partial_function (option) copy_arg :: "addr \<Rightarrow> addr \<Rightarrow> mem \<Rightarrow> (addr \<times> mem) option" where
  "copy_arg dest src m =
     (let c = m src; m = m(dest := c) in if c \<noteq> 0 then copy_arg (dest + 1) (src + 1) m else Some (dest + 1, m))"

fun copy_args :: "addr \<Rightarrow> nat list \<Rightarrow> addr \<Rightarrow> mem \<Rightarrow> mem option" where
  "copy_args argv [] dest m = Some m"
| "copy_args argv (i # is) dest m =
     (case copy_arg dest (get32 m (argv + 4 * of_nat i)) m of None \<Rightarrow> None
      | Some (dest, m) \<Rightarrow> copy_args argv is dest m)"

section \<open>Consecutive strings\<close>

fun args_at :: "mem \<Rightarrow> addr \<Rightarrow> u8 list list \<Rightarrow> bool" where
  "args_at m p [] \<longleftrightarrow> True"
| "args_at m p (a # as) \<longleftrightarrow> cstr m p a \<and> args_at m (p + of_nat (Suc (length a))) as"

definition args_size :: "u8 list list \<Rightarrow> nat" where
  "args_size as = sum_list (map (\<lambda>a. Suc (length a)) as)"

lemma args_size_simps [simp]: "args_size [] = 0" "args_size (a # as) = Suc (length a) + args_size as"
  by (simp_all add: args_size_def)

lemma args_at_moved:
  "\<forall>x<args_size as. m' (q + of_nat x) = m (p + of_nat x) \<Longrightarrow> args_at m' q as = args_at m p as"
proof (induction as arbitrary: p q)
  case (Cons a as)
  have "cstr m' q a = cstr m p a" using Cons.prems by (intro cstr_moved) auto
  moreover have "args_at m' (q + of_nat (Suc (length a))) as = args_at m (p + of_nat (Suc (length a))) as"
  proof (rule Cons.IH, intro allI impI)
    fix x assume "x < args_size as"
    then show "m' (q + of_nat (Suc (length a)) + of_nat x) = m (p + of_nat (Suc (length a)) + of_nat x)"
      using Cons.prems [rule_format, of "Suc (length a) + x"]
      by (simp only: args_size_simps of_nat_add add.assoc nat_add_left_cancel_less simp_thms)
  qed
  ultimately show ?case by simp
qed simp

lemma args_at_nth:
  "args_at m p as \<Longrightarrow> i < length as \<Longrightarrow> cstr m (p + of_nat (args_size (take i as))) (as ! i)"
proof (induction as arbitrary: p i)
  case (Cons a as)
  then show ?case
  proof (cases i)
    case (Suc j)
    then show ?thesis using Cons.prems Cons.IH [of "p + of_nat (Suc (length a))" j]
      by (simp add: of_nat_add [symmetric] add.assoc del: of_nat_Suc of_nat_add)
  qed simp
qed simp

lemma args_size_take: "i < length as \<Longrightarrow> args_size (take i as) + Suc (length (as ! i)) \<le> args_size as"
proof (induction as arbitrary: i)
  case (Cons a as)
  then show ?case by (cases i) auto
qed simp

lemma length_le_args_size: "length as \<le> args_size as"
  by (induction as) auto

section \<open>The pointers\<close>

lemma strlen_from_region: "cstr m (stk + of_nat k) a \<Longrightarrow> strlen_from m stk (of_nat k) = Some (of_nat (k + length a))"
  using strlen_from_cstr [of m stk "of_nat k" a] by simp

text \<open>
  Storing the pointers to \<open>as\<close> from index \<open>i\<close> on: the array is at offset \<open>j\<close>, the strings are at offset \<open>k\<close> behind it.
\<close>

lemma push_pointers_args:
  assumes "args_at m (stk + of_nat k) as" and "j + 4 * (i + length as) \<le> k" and "k + args_size as < 2 ^ 32"
  shows "\<exists>m'. push_pointers stk (of_nat j) [i..<i + length as] (of_nat k) m = Some (of_nat (k + args_size as), m')
    \<and> (\<forall>q<length as. get32 m' (stk + of_nat (j + 4 * (i + q))) = stk + of_nat (k + args_size (take q as)))
    \<and> (\<forall>x<2 ^ 32. x < j + 4 * i \<or> j + 4 * (i + length as) \<le> x \<longrightarrow> m' (stk + of_nat x) = m (stk + of_nat x))"
  using assms
proof (induction as arbitrary: i k m)
  case Nil
  then show ?case by simp
next
  case (Cons a as)
  let ?p = "j + 4 * i" and ?k = "k + Suc (length a)"
  let ?m = "put32 (stk + of_nat ?p) (stk + of_nat k) m"
  have bound: "?p + 4 + 4 * length as \<le> k" "?k + args_size as < 2 ^ 32" using Cons.prems by simp_all
  have keep: "?m (stk + of_nat x) = m (stk + of_nat x)" if "x < 2 ^ 32" "x < ?p \<or> ?p + 4 \<le> x" for x
    using put32_region [of x ?p] that bound by auto
  have same: "args_at ?m (stk + of_nat k) (a # as)"
  proof (subst args_at_moved, intro allI impI)
    fix x assume "x < args_size (a # as)"
    then show "?m (stk + of_nat k + of_nat x) = m (stk + of_nat k + of_nat x)"
      using keep [of "k + x"] bound by (simp add: add.assoc del: of_nat_Suc)
  qed (rule Cons.prems)
  then have a: "cstr ?m (stk + of_nat k) a" and rest: "args_at ?m (stk + of_nat ?k) as"
    by (simp_all add: ac_simps)
  have "j + 4 * (Suc i + length as) \<le> ?k" using bound by simp
  from Cons.IH [OF rest this bound(2)] obtain m' where
    m': "push_pointers stk (of_nat j) [Suc i..<Suc i + length as] (of_nat ?k) ?m = Some (of_nat (?k + args_size as), m')"
    and ptrs: "\<forall>q<length as. get32 m' (stk + of_nat (j + 4 * (Suc i + q))) = stk + of_nat (?k + args_size (take q as))"
    and rest: "\<forall>x<2 ^ 32. x < j + 4 * Suc i \<or> j + 4 * (Suc i + length as) \<le> x \<longrightarrow> m' (stk + of_nat x) = ?m (stk + of_nat x)"
    by blast
  have "[i..<i + length (a # as)] = i # [Suc i..<Suc i + length as]" by (subst upt_conv_Cons) (simp_all del: upt_Suc)
  then have "push_pointers stk (of_nat j) [i..<i + length (a # as)] (of_nat k) m = Some (of_nat (k + args_size (a # as)), m')"
    using m' strlen_from_region [OF a] by (simp add: Let_def add.assoc add.commute add.left_commute)
  moreover have "get32 m' (stk + of_nat ?p) = get32 ?m (stk + of_nat ?p)"
  proof (rule get32_cong, intro allI impI)
    fix y :: nat assume "y < 4"
    then show "m' (stk + of_nat ?p + of_nat y) = ?m (stk + of_nat ?p + of_nat y)"
      using rest [rule_format, of "?p + y"] bound by (simp add: add.assoc)
  qed
  then have "get32 m' (stk + of_nat (j + 4 * (i + q))) = stk + of_nat (k + args_size (take q (a # as)))"
    if "q < length (a # as)" for q
    using that ptrs [rule_format, of "q - 1"] by (cases q) (simp_all add: get32_put32 add.assoc)
  moreover have "m' (stk + of_nat x) = m (stk + of_nat x)"
    if "x < 2 ^ 32" "x < j + 4 * i \<or> j + 4 * (i + length (a # as)) \<le> x" for x
    using rest [rule_format, of x] keep [of x] that by auto
  ultimately show ?case by blast
qed

text \<open>What the program finds at its stack pointer: the number of its arguments, their array, and no environment.\<close>

definition args_on_stack :: "mem \<Rightarrow> addr \<Rightarrow> u8 list list \<Rightarrow> bool" where
  "args_on_stack m sp as \<longleftrightarrow>
     get32 m sp = of_nat (length as) \<and> get32 m (sp + 8) = 0 \<and>
     (\<forall>i<length as. cstr m (get32 m (get32 m (sp + 4) + 4 * of_nat i)) (as ! i))"

text \<open>The four words below the array, with the pointer array at offset \<open>n + 16\<close>.\<close>

lemma four_words:
  assumes "n + 16 \<le> 2 ^ 32"
    and "m' = put32 (stk + of_nat n) c (put32 (stk + of_nat (n + 4)) v
               (put32 (stk + of_nat (n + 8)) 0 (put32 (stk + of_nat (n + 12)) 0 m)))"
  shows "get32 m' (stk + of_nat n) = c" "get32 m' (stk + of_nat (n + 4)) = v" "get32 m' (stk + of_nat (n + 8)) = 0"
    and "\<And>x. x < 2 ^ 32 \<Longrightarrow> x < n \<or> n + 16 \<le> x \<Longrightarrow> m' (stk + of_nat x) = m (stk + of_nat x)"
    and "\<And>x. x + 4 \<le> 2 ^ 32 \<Longrightarrow> n + 16 \<le> x \<Longrightarrow> get32 m' (stk + of_nat x) = get32 m (stk + of_nat x)"
proof -
  show "get32 m' (stk + of_nat n) = c" using assms(2) by (simp add: get32_put32)
  show "get32 m' (stk + of_nat (n + 4)) = v"
    unfolding assms(2) using assms(1) by (subst get32_put32_region) (simp_all add: get32_put32)
  show "get32 m' (stk + of_nat (n + 8)) = 0"
    unfolding assms(2) using assms(1)
    by (subst get32_put32_region; (simp del: of_nat_add)?; subst get32_put32_region; (simp del: of_nat_add add: get32_put32)?)
  show "m' (stk + of_nat x) = m (stk + of_nat x)" if "x < 2 ^ 32" "x < n \<or> n + 16 \<le> x" for x
    unfolding assms(2) using that assms(1) by (auto simp: put32_region simp del: of_nat_add)
  show "get32 m' (stk + of_nat x) = get32 m (stk + of_nat x)" if "x + 4 \<le> 2 ^ 32" "n + 16 \<le> x" for x
    unfolding assms(2) using that assms(1) by (auto simp: get32_put32_region simp del: of_nat_add)
qed

text \<open>The memory after the strings are copied: they lie at offset 12292 of the stack, and only the stack is written.\<close>

lemma copied_args:
  assumes "args_at m (largs + 12) as" and "args_size as \<le> 4084" and "separate stk 16384 largs 4096"
    and "m' = fst (memcpy (fst (memset m (stk + of_nat 16376) 0 4)) (stk + of_nat 12292) (largs + 12) MAX_ARGS)"
  shows "args_at m' (stk + of_nat 12292) as"
    and "\<And>a. \<forall>x<16384. a \<noteq> stk + of_nat x \<Longrightarrow> m' a = m a"
proof -
  let ?m = "fst (memset m (stk + of_nat 16376) 0 4)"
  have m': "m' = copy_up (stk + of_nat 12292) (largs + 12) 4084 ?m" using assms(4) by (simp add: memcpy_def)
  have cleared: "?m b = m b" if b: "\<forall>x<16384. b \<noteq> stk + of_nat x" for b
  proof (rule memset_outside, intro allI impI)
    fix i assume "i < unat (4 :: u32)"
    then show "b \<noteq> stk + of_nat 16376 + of_nat i"
      using b [rule_format, of "16376 + i"] by (simp add: add.assoc)
  qed
  have sep: "separate (stk + of_nat 12292) 4084 (largs + 12) 4084"
    unfolding separate_def
  proof (intro allI impI)
    fix i j :: nat assume "i < 4084" "j < 4084"
    then show "stk + of_nat 12292 + of_nat i \<noteq> largs + 12 + of_nat j"
      using separateD [OF assms(3), of "12292 + i" "12 + j"] by (simp add: add.assoc)
  qed
  have moved: "m' (stk + of_nat 12292 + of_nat x) = m (largs + 12 + of_nat x)" if x: "x < args_size as" for x
  proof -
    have "m' (stk + of_nat 12292 + of_nat x) = ?m (largs + 12 + of_nat x)"
      using copy_up_separate(1) [OF sep order_refl, of x ?m] x assms(2) by (simp add: m')
    moreover have "\<forall>y<16384. largs + 12 + of_nat x \<noteq> stk + of_nat y"
    proof (intro allI impI)
      fix y :: nat assume "y < 16384"
      then show "largs + 12 + of_nat x \<noteq> stk + of_nat y"
        using separateD [OF assms(3), of y "12 + x"] x assms(2) by (simp add: add.assoc)
    qed
    ultimately show ?thesis using cleared by simp
  qed
  then show "args_at m' (stk + of_nat 12292) as" using args_at_moved [of as m' _ m "largs + 12"] assms(1) by blast
  show "m' a = m a" if a: "\<forall>x<16384. a \<noteq> stk + of_nat x" for a
  proof -
    have "\<forall>i<4084. a \<noteq> stk + of_nat 12292 + of_nat i"
    proof (intro allI impI)
      fix i :: nat assume "i < 4084"
      then show "a \<noteq> stk + of_nat 12292 + of_nat i" using a [rule_format, of "12292 + i"] by (simp add: add.assoc)
    qed
    then show ?thesis using copy_up_separate(2) [OF sep order_refl, of a ?m] cleared [OF a] by (simp add: m')
  qed
qed

lemma push_args_layout:
  assumes "args_at m (largs + 12) as" and "args_size as \<le> 4084" and "length as \<le> 3000"
    and "get32 m (largs + 4) = of_nat (length as)" and "get32 m (largs + 8) = 0"
    and "separate stk 16384 largs 4096"
  shows "\<exists>sp m'. push_args stk largs m = Some (sp, m') \<and> args_on_stack m' (stk + sp) as
    \<and> (\<forall>a. (\<forall>x<16384. a \<noteq> stk + of_nat x) \<longrightarrow> m' a = m a)"
proof -
  define n where "n = 12276 - 4 * length as"
  have n: "n + 16 + 4 * length as = 12292" using assms(3) by (simp add: n_def)
  define m1 where "m1 = fst (memcpy (fst (memset m (stk + of_nat 16376) 0 4)) (stk + of_nat 12292) (largs + 12) MAX_ARGS)"
  note m1 = copied_args [OF assms(1,2,6) m1_def]
  obtain m2 where m2: "push_pointers stk (of_nat (n + 16)) [0..<0 + length as] (of_nat 12292) m1 = Some (of_nat (12292 + args_size as), m2)"
    and ptrs: "\<forall>q<length as. get32 m2 (stk + of_nat (n + 16 + 4 * (0 + q))) = stk + of_nat (12292 + args_size (take q as))"
    and keep: "\<forall>x<2 ^ 32. x < n + 16 + 4 * 0 \<or> n + 16 + 4 * (0 + length as) \<le> x \<longrightarrow> m2 (stk + of_nat x) = m1 (stk + of_nat x)"
    using push_pointers_args [OF m1(1), of "n + 16" 0] n assms(2) by auto
  define m3 where "m3 = put32 (stk + of_nat n) (of_nat (length as)) (put32 (stk + of_nat (n + 4)) (stk + of_nat (n + 16))
    (put32 (stk + of_nat (n + 8)) 0 (put32 (stk + of_nat (n + 12)) 0 m2)))"
  have small: "n + 16 \<le> 2 ^ 32" using n by simp
  note m3 = four_words [OF small m3_def]
  have offset: "12292 - of_nat (length as) * 4 = (of_nat (n + 16) :: u32)"
    using arg_cong [OF n, of "of_nat :: nat \<Rightarrow> u32"] by (simp add: algebra_simps)
  have m3_eq: "m3 = put32 (stk + of_nat n) (of_nat (length as)) (put32 (stk + (4 + of_nat n)) (16 + (stk + of_nat n))
    (put32 (stk + (8 + of_nat n)) 0 (put32 (stk + (12 + of_nat n)) 0 m2)))"
    by (simp add: m3_def ac_simps)
  have run: "push_args stk largs m = Some (of_nat n, m3)"
    using m2 assms(3) by (simp add: push_args_def Let_def assms(4,5) m1_def [simplified, symmetric] offset unat_of_nat
        take_bit_nat_eq_self m3_eq)
  have "cstr m3 (get32 m3 (get32 m3 (stk + of_nat n + 4) + 4 * of_nat i)) (as ! i)" if i: "i < length as" for i
  proof -
    have "get32 m3 (stk + of_nat (n + 16 + 4 * i)) = stk + of_nat (12292 + args_size (take i as))"
      using m3(5) [of "n + 16 + 4 * i"] ptrs i n by simp
    then have p: "get32 m3 (get32 m3 (stk + of_nat n + 4) + 4 * of_nat i) = stk + of_nat 12292 + of_nat (args_size (take i as))"
      using m3(2) by (simp add: ac_simps)
    have "args_at m3 (stk + of_nat 12292) as = args_at m1 (stk + of_nat 12292) as"
    proof (rule args_at_moved, intro allI impI)
      fix x assume "x < args_size as"
      then show "m3 (stk + of_nat 12292 + of_nat x) = m1 (stk + of_nat 12292 + of_nat x)"
        using m3(4) [of "12292 + x"] keep [rule_format, of "12292 + x"] n assms(2) by (simp add: add.assoc)
    qed
    then show ?thesis unfolding p using args_at_nth m1(1) i by blast
  qed
  then have "args_on_stack m3 (stk + of_nat n) as"
    using m3(1,3) by (simp add: args_on_stack_def add.assoc)
  moreover have "m3 a = m a" if "\<forall>x<16384. a \<noteq> stk + of_nat x" for a
  proof -
    define x where "x = unat (a - stk)"
    have a: "a = stk + of_nat x" by (simp add: x_def)
    have "x < 2 ^ 32" using unsigned_less [of "a - stk", where ?'a = nat] by (simp add: x_def)
    moreover have "16384 \<le> x" using that a by (metis not_le)
    ultimately show ?thesis
      using m3(4) [of x] keep [rule_format, of x] m1(2) [OF that] n by (simp add: a)
  qed
  ultimately show ?thesis using run by blast
qed

section \<open>The block of the arguments\<close>

lemma copy_arg_cstr:
  assumes "cstr m src a" and "separate dest (Suc (length a)) src (Suc (length a))"
  shows "copy_arg dest src m = Some (dest + of_nat (Suc (length a)), copy_up dest src (Suc (length a)) m)"
  using assms
proof (induction a arbitrary: m dest src)
  case Nil
  then show ?case by (simp add: copy_arg.simps [of dest] copy_up_def fun_eq_iff)
next
  case (Cons b a)
  let ?m = "m(dest := m src)"
  have "cstr ?m (src + 1) a"
  proof (subst cstr_cong)
    fix i assume "i \<le> length a"
    then show "?m (src + 1 + of_nat i) = m (src + 1 + of_nat i)"
      using separateD [OF Cons.prems(2), of 0 "Suc i"] by (auto simp: add.assoc)
  qed (use Cons.prems in simp)
  have "copy_arg dest src m = copy_arg (dest + 1) (src + 1) ?m"
    using Cons.prems(1) by (subst copy_arg.simps) (simp add: Let_def)
  also have "\<dots> = Some (dest + 1 + of_nat (Suc (length a)), copy_up (dest + 1) (src + 1) (Suc (length a)) ?m)"
    using Cons.prems(2) by (intro Cons.IH [OF \<open>cstr ?m (src + 1) a\<close>] separate_Suc) simp
  also have "copy_up (dest + 1) (src + 1) (Suc (length a)) ?m = copy_up dest src (Suc (length (b # a))) m"
    using copy_up_Suc [of dest src "Suc (length a)" m] by simp
  finally show ?case by (simp add: ac_simps)
qed

text \<open>The pointers at \<open>argv\<close> and the strings they point to, outside the block.\<close>

definition arg_strings :: "mem \<Rightarrow> addr \<Rightarrow> u8 list list \<Rightarrow> bool" where
  "arg_strings m argv as \<longleftrightarrow>
     (\<forall>i<length as. get32 m (argv + 4 * of_nat i) \<noteq> 0 \<and> cstr m (get32 m (argv + 4 * of_nat i)) (as ! i))
     \<and> get32 m (argv + 4 * of_nat (length as)) = 0"

lemma count_args_strings:
  assumes "arg_strings m argv as" and "i \<le> length as"
  shows "count_args m argv (of_nat i) sz = Some (of_nat (length as), sz + of_nat (args_size (drop i as)))"
  using assms(2)
proof (induction "length as - i" arbitrary: i sz)
  case 0
  then show ?case using assms(1) by (simp add: count_args.simps arg_strings_def)
next
  case (Suc n)
  then have i: "i < length as" by simp
  then have p: "get32 m (argv + 4 * of_nat i) \<noteq> 0" "strlen m (get32 m (argv + 4 * of_nat i)) = Some (of_nat (length (as ! i)))"
    using assms(1) by (auto simp: arg_strings_def intro: strlen_cstr)
  have "drop i as = as ! i # drop (Suc i) as" using i by (simp add: Cons_nth_drop_Suc)
  then show ?case
    using Suc.hyps(1) [of "Suc i" "sz + (of_nat (length (as ! i)) + 1)"] Suc.hyps(2) i p
    by (simp add: count_args.simps [of m argv "of_nat i"] ac_simps)
qed

text \<open>Everything that is read when the strings are copied lies outside the block at \<open>la\<close>.\<close>

definition arg_sources :: "addr \<Rightarrow> mem \<Rightarrow> addr \<Rightarrow> nat \<Rightarrow> u8 list list \<Rightarrow> bool" where
  "arg_sources la m argv i as \<longleftrightarrow>
     (\<forall>q<length as. let p = argv + 4 * of_nat (i + q); a = get32 m p in
        cstr m a (as ! q) \<and> separate la 4096 a (Suc (length (as ! q))) \<and> separate la 4096 p 4)"

lemma arg_sources_keep:
  assumes "arg_sources la m argv i as" and "\<And>b. \<forall>x<4096. b \<noteq> la + of_nat x \<Longrightarrow> m' b = m b"
  shows "arg_sources la m' argv i as"
proof -
  have keep: "m' (c + of_nat j) = m (c + of_nat j)" if "separate la 4096 c k" "j < k" for c k j
    using separateD [OF that(1), of _ j] that(2) by (intro assms(2)) metis
  have "cstr m' a (as ! q)" if "cstr m a (as ! q)" "separate la 4096 a (Suc (length (as ! q)))" for a q
    using that(1) cstr_moved [of "as ! q" m' a m a] keep [OF that(2)] by (simp add: less_Suc_eq_le)
  moreover have "get32 m' p = get32 m p" if "separate la 4096 p 4" for p
    using keep [OF that] by (intro get32_cong) simp
  ultimately show ?thesis using assms(1) by (auto simp: arg_sources_def Let_def)
qed

lemma arg_sources_Cons:
  "arg_sources la m argv i (a # as) \<Longrightarrow>
     cstr m (get32 m (argv + 4 * of_nat i)) a \<and> separate la 4096 (get32 m (argv + 4 * of_nat i)) (Suc (length a))
     \<and> arg_sources la m argv (Suc i) as"
  by (simp add: arg_sources_def Let_def All_less_Suc2 ac_simps)

lemma copy_args_block:
  assumes "arg_sources la m argv i as" and "k + args_size as \<le> 4096"
  shows "\<exists>m'. copy_args argv [i..<i + length as] (la + of_nat k) m = Some m' \<and> args_at m' (la + of_nat k) as
    \<and> (\<forall>x<2 ^ 32. x < k \<or> k + args_size as \<le> x \<longrightarrow> m' (la + of_nat x) = m (la + of_nat x))"
  using assms
proof (induction as arbitrary: i k m)
  case Nil
  then show ?case by simp
next
  case (Cons a as)
  let ?p = "get32 m (argv + 4 * of_nat i)" and ?n = "Suc (length a)"
  let ?m = "copy_up (la + of_nat k) ?p ?n m"
  note src = arg_sources_Cons [OF Cons.prems(1)]
  have k: "k + ?n + args_size as \<le> 4096" using Cons.prems(2) by simp
  have sep: "separate (la + of_nat k) ?n ?p ?n"
    unfolding separate_def
  proof (intro allI impI)
    fix x y assume "x < ?n" "y < ?n"
    then show "la + of_nat k + of_nat x \<noteq> ?p + of_nat y"
      using separateD [of la 4096 ?p ?n "k + x" y] src k by (simp add: add.assoc)
  qed
  have up: "\<And>x. x < ?n \<Longrightarrow> ?m (la + of_nat k + of_nat x) = m (?p + of_nat x)"
    "\<And>b. \<forall>x<?n. b \<noteq> la + of_nat k + of_nat x \<Longrightarrow> ?m b = m b"
    using copy_up_separate [OF sep order_refl, of _ m] k by auto
  have keep: "?m (la + of_nat x) = m (la + of_nat x)" if "x < 2 ^ 32" "x < k \<or> k + ?n \<le> x" for x
  proof (rule up(2), intro allI impI)
    fix y assume "y < ?n"
    then show "la + of_nat x \<noteq> la + of_nat k + of_nat y"
      using that k region_eq [of x "k + y" la] by (auto simp: add.assoc)
  qed
  have "?m b = m b" if "\<forall>x<4096. b \<noteq> la + of_nat x" for b
  proof (rule up(2), intro allI impI)
    fix x assume "x < ?n"
    then show "b \<noteq> la + of_nat k + of_nat x" using that [rule_format, of "k + x"] k by (simp add: add.assoc)
  qed
  then have "arg_sources la ?m argv (Suc i) as" using src arg_sources_keep by blast
  from Cons.IH [OF this k] obtain m' where
    m': "copy_args argv [Suc i..<Suc i + length as] (la + of_nat (k + ?n)) ?m = Some m'" "args_at m' (la + of_nat (k + ?n)) as"
    and rest: "\<forall>x<2 ^ 32. x < k + ?n \<or> k + ?n + args_size as \<le> x \<longrightarrow> m' (la + of_nat x) = ?m (la + of_nat x)" by blast
  have "cstr m' (la + of_nat k) a = cstr m ?p a"
  proof (rule cstr_moved, intro allI impI)
    fix x assume "x \<le> length a"
    then show "m' (la + of_nat k + of_nat x) = m (?p + of_nat x)"
      using rest [rule_format, of "k + x"] up(1) [of x] k by (simp add: add.assoc)
  qed
  then have "args_at m' (la + of_nat k) (a # as)" using src m'(2) by (simp add: ac_simps)
  moreover have "[i..<i + length (a # as)] = i # [Suc i..<Suc i + length as]" by (subst upt_conv_Cons) (simp_all del: upt_Suc)
  then have "copy_args argv [i..<i + length (a # as)] (la + of_nat k) m = Some m'"
    using copy_arg_cstr [OF _ sep] src m'(1) by (simp add: ac_simps)
  moreover have "m' (la + of_nat x) = m (la + of_nat x)" if "x < 2 ^ 32" "x < k \<or> k + args_size (a # as) \<le> x" for x
    using rest [rule_format, of x] keep [of x] that by auto
  ultimately show ?case by blast
qed

section \<open>From the caller to the program\<close>

text \<open>The head of the block.\<close>

lemma block_head:
  assumes "m' = put32 (la + 8) 0 (put32 (la + 4) n (put32 la nd m))"
  shows "get32 m' la = nd" "get32 m' (la + 4) = n" "get32 m' (la + 8) = 0"
    and "\<And>b. \<forall>x<4096. b \<noteq> la + of_nat x \<Longrightarrow> m' b = m b"
proof -
  have m': "m' = put32 (la + of_nat 8) 0 (put32 (la + of_nat 4) n (put32 (la + of_nat 0) nd m))" using assms by simp
  show "get32 m' la = nd" using get32_put32_region [of _ 0 la] get32_put32 [of "la + of_nat 0" nd m] by (simp add: m' del: of_nat_numeral)
  show "get32 m' (la + 4) = n" using get32_put32_region [of 8 4 la] get32_put32 [of "la + of_nat 4" n] by (simp add: m')
  show "get32 m' (la + 8) = 0" using get32_put32 [of "la + of_nat 8"] by (simp add: m')
  show "m' b = m b" if b: "\<forall>x<4096. b \<noteq> la + of_nat x" for b
  proof -
    have far: "\<forall>i<4. b \<noteq> la + of_nat k + of_nat i" if "k \<le> 8" for k
    proof (intro allI impI)
      fix i :: nat assume "i < 4"
      then show "b \<noteq> la + of_nat k + of_nat i" using b [rule_format, of "k + i"] that by (simp add: add.assoc)
    qed
    show ?thesis unfolding m' using far [of 0] far [of 4] far [of 8] by (subst put32_other; simp)+
  qed
qed

text \<open>
  C19: the arguments that the caller of \<^verbatim>\<open>create_user_task\<close> passes are those the program finds: they are counted, packed into
  the block, and, if the block reaches \<^verbatim>\<open>load_task\<close> unchanged, laid out on the stack, with their number at the stack
  pointer, the array of the pointers to their copies, and a null pointer for the environment. They must fit the block and be
  at most 3000, or the array would not fit the stack.
\<close>

theorem arguments_roundtrip:
  assumes "arg_strings m argv as" and "arg_sources la m argv 0 as" and "args_size as < 4084" and "length as \<le> 3000"
  shows "count_args m argv 0 0 = Some (of_nat (length as), of_nat (args_size as))
    \<and> (\<exists>m1. copy_args argv [0..<length as] (la + 12)
            (put32 (la + 8) 0 (put32 (la + 4) (of_nat (length as)) (put32 la nd m))) = Some m1 \<and> get32 m1 la = nd
        \<and> (\<forall>stk m2. separate stk 16384 la 4096 \<and> (\<forall>x<4096. m2 (la + of_nat x) = m1 (la + of_nat x)) \<longrightarrow>
            (\<exists>sp m3. push_args stk la m2 = Some (sp, m3) \<and> args_on_stack m3 (stk + sp) as)))"
proof
  show "count_args m argv 0 0 = Some (of_nat (length as), of_nat (args_size as))"
    using count_args_strings [OF assms(1), of 0 0] by simp
  define m0 where "m0 = put32 (la + 8) 0 (put32 (la + 4) (of_nat (length as)) (put32 la nd m))"
  note head = block_head [OF m0_def]
  have "arg_sources la m0 argv 0 as" using arg_sources_keep [OF assms(2)] head(4) by blast
  from copy_args_block [OF this, of 12] assms(3) obtain m1 where
    m1: "copy_args argv [0..<length as] (la + of_nat 12) m0 = Some m1" "args_at m1 (la + of_nat 12) as"
    and keep: "\<forall>x<2 ^ 32. x < 12 \<or> 12 + args_size as \<le> x \<longrightarrow> m1 (la + of_nat x) = m0 (la + of_nat x)" by auto
  have low: "get32 m1 (la + of_nat k) = get32 m0 (la + of_nat k)" if "k \<le> 8" for k
  proof (rule get32_cong, intro allI impI)
    fix x :: nat assume "x < 4"
    then show "m1 (la + of_nat k + of_nat x) = m0 (la + of_nat k + of_nat x)"
      using keep [rule_format, of "k + x"] that by (simp add: add.assoc)
  qed
  have "\<exists>sp m3. push_args stk la m2 = Some (sp, m3) \<and> args_on_stack m3 (stk + sp) as"
    if "separate stk 16384 la 4096" and same: "\<forall>x<4096. m2 (la + of_nat x) = m1 (la + of_nat x)" for stk m2
  proof -
    have word: "get32 m2 (la + of_nat k) = get32 m0 (la + of_nat k)" if "k \<le> 8" for k
      unfolding low [OF that, symmetric]
    proof (rule get32_cong, intro allI impI)
      fix x :: nat assume "x < 4"
      then show "m2 (la + of_nat k + of_nat x) = m1 (la + of_nat k + of_nat x)"
        using same [rule_format, of "k + x"] that by (simp add: add.assoc)
    qed
    have "args_at m2 (la + of_nat 12) as = args_at m1 (la + of_nat 12) as"
    proof (rule args_at_moved, intro allI impI)
      fix x assume "x < args_size as"
      then show "m2 (la + of_nat 12 + of_nat x) = m1 (la + of_nat 12 + of_nat x)"
        using same [rule_format, of "12 + x"] assms(3) by (simp add: add.assoc)
    qed
    then show ?thesis
      using push_args_layout [of m2 la as stk] m1(2) assms(3,4) that(1) word [of 4] word [of 8] head(2,3) by auto
  qed
  then show "\<exists>m1. copy_args argv [0..<length as] (la + 12) (put32 (la + 8) 0 (put32 (la + 4) (of_nat (length as)) (put32 la nd m))) = Some m1
      \<and> get32 m1 la = nd \<and> (\<forall>stk m2. separate stk 16384 la 4096 \<and> (\<forall>x<4096. m2 (la + of_nat x) = m1 (la + of_nat x)) \<longrightarrow>
          (\<exists>sp m3. push_args stk la m2 = Some (sp, m3) \<and> args_on_stack m3 (stk + sp) as))"
    using m1(1) low [of 0] head(1) by (auto simp: m0_def)
qed

lemma arguments_roundtrip_witness:
  "\<exists>m1 sp m3. copy_args 0x100 [0..<1] (0x1000 + 12) (put32 (0x1000 + 8) 0 (put32 (0x1000 + 4) 1 (put32 0x1000 7
      (\<lambda>a. if a = 0x101 then 2 else if a = 0x200 then 104 else 0)))) = Some m1
    \<and> push_args 0x40000000 0x1000 m1 = Some (sp, m3) \<and> args_on_stack m3 (0x40000000 + sp) [[104]]"
proof -
  let ?m = "\<lambda>a :: addr. if a = 0x101 then 2 else if a = 0x200 then 104 else 0 :: u8"
  have p: "get32 ?m 0x100 = 0x200" "get32 ?m 0x104 = 0" by (simp_all add: get32_def)
  have "separate 0x1000 4096 0x200 2" "separate 0x1000 4096 0x100 4" "separate 0x40000000 16384 0x1000 4096"
    by (rule separate_below; simp)+
  then have "arg_strings ?m 0x100 [[104]]" "arg_sources 0x1000 ?m 0x100 0 [[104]]"
    using p by (simp_all add: arg_strings_def arg_sources_def numeral_2_eq_2 [symmetric])
  from arguments_roundtrip [OF this, of 7] \<open>separate 0x40000000 16384 0x1000 4096\<close> show ?thesis
    by (simp add: One_nat_def [symmetric] del: One_nat_def upt_Suc) blast
qed

end
