(* ===== verification/Loader.thy ===== *)
theory Loader
  imports Fs Sched Program_Args
begin

unbundle bit_operations_syntax

text \<open>
  Loading a program, \<^verbatim>\<open>load_task\<close>, \<^verbatim>\<open>user_entry\<close> and \<^verbatim>\<open>create_user_task\<close> of \<^verbatim>\<open>sys/tasksp.c\<close> with \<^verbatim>\<open>include/lowlevel/elf.h\<close>.
  The state is the file system on the machine with its tasks; its byte memory is the address space of the current task.
  \<open>hdr\<close> and \<open>ph\<close> are the addresses of the local variables \<^verbatim>\<open>header\<close> and \<^verbatim>\<open>prog_header\<close>, \<open>me\<close> is the id of the task, \<open>d\<close>
  the nesting of \<^verbatim>\<open>kmalloc\<close>, \<open>fuel\<close> the bound on the blocks of a file, \<open>ke\<close> the end of the kernel image.
\<close>

section \<open>The ELF format\<close>

definition ELF_MAGIC :: u32 where [simp]: "ELF_MAGIC = 0x464C457F"
definition ELF_ET_EXEC :: u16 where [simp]: "ELF_ET_EXEC = 2"
definition ELF_EM_386 :: u16 where [simp]: "ELF_EM_386 = 3"
definition ELF_CLASS_32 :: u8 where [simp]: "ELF_CLASS_32 = 1"
definition ELF_DATA_2LSB :: u8 where [simp]: "ELF_DATA_2LSB = 1"
definition ELF_PT_LOAD :: u32 where [simp]: "ELF_PT_LOAD = 1"
definition ELF_PT_GNU_STACK :: u32 where [simp]: "ELF_PT_GNU_STACK = 0x6474e551"
definition PF_R :: u32 where [simp]: "PF_R = 4"
definition PF_W :: u32 where [simp]: "PF_W = 2"
definition PF_X :: u32 where [simp]: "PF_X = 1"

record elf_ident =
  elf_magic :: u32
  elf_class :: u8
  elf_data :: u8
  elf_ident_version :: u8
  elf_pad :: "u8 list"
  elf_nident :: u8

record elf_header =
  elf_identification :: elf_ident
  elf_type :: u16
  elf_machine :: u16
  elf_version :: u32
  elf_entry :: u32
  ph_offset :: u32
  sh_offset :: u32
  elf_flags :: u32
  header_size :: u16
  ph_entry_size :: u16
  ph_entry_count :: u16
  sh_entry_size :: u16
  sh_entry_count :: u16
  sh_str_table_index :: u16

record elf_program_header =
  p_type :: u32
  p_offset :: u32
  virt_addr :: u32
  phys_addr :: u32
  file_size :: u32
  mem_size :: u32
  p_flags :: u32
  p_alignment :: u32

definition SIZEOF_ELF_HEADER :: u32 where [simp]: "SIZEOF_ELF_HEADER = 52"
definition SIZEOF_PROGRAM_HEADER :: u32 where [simp]: "SIZEOF_PROGRAM_HEADER = 32"

definition elf_ident_at :: "mem \<Rightarrow> addr \<Rightarrow> elf_ident" where
  "elf_ident_at m a =
     \<lparr>elf_magic = get32 m a, elf_class = m (a + 4), elf_data = m (a + 5), elf_ident_version = m (a + 6),
      elf_pad = bytes m (a + 7) 8, elf_nident = m (a + 15)\<rparr>"

definition elf_header_at :: "mem \<Rightarrow> addr \<Rightarrow> elf_header" where
  "elf_header_at m a =
     \<lparr>elf_identification = elf_ident_at m a, elf_type = get16 m (a + 16), elf_machine = get16 m (a + 18),
      elf_version = get32 m (a + 20), elf_entry = get32 m (a + 24), ph_offset = get32 m (a + 28), sh_offset = get32 m (a + 32),
      elf_flags = get32 m (a + 36), header_size = get16 m (a + 40), ph_entry_size = get16 m (a + 42),
      ph_entry_count = get16 m (a + 44), sh_entry_size = get16 m (a + 46), sh_entry_count = get16 m (a + 48),
      sh_str_table_index = get16 m (a + 50)\<rparr>"

definition program_header_at :: "mem \<Rightarrow> addr \<Rightarrow> elf_program_header" where
  "program_header_at m a =
     \<lparr>p_type = get32 m a, p_offset = get32 m (a + 4), virt_addr = get32 m (a + 8), phys_addr = get32 m (a + 12),
      file_size = get32 m (a + 16), mem_size = get32 m (a + 20), p_flags = get32 m (a + 24), p_alignment = get32 m (a + 28)\<rparr>"

text \<open>The checks before \<^verbatim>\<open>goto invalid\<close>.\<close>

definition KERNEL_SPACE :: u32 where [simp]: "KERNEL_SPACE = 0x40000000"

definition valid_header :: "elf_header \<Rightarrow> bool" where
  "valid_header h \<longleftrightarrow>
     elf_magic (elf_identification h) = ELF_MAGIC \<and> elf_type h = ELF_ET_EXEC \<and> elf_machine h = ELF_EM_386 \<and>
     elf_class (elf_identification h) = ELF_CLASS_32 \<and> elf_data (elf_identification h) = ELF_DATA_2LSB \<and>
     elf_entry h > KERNEL_SPACE"

section \<open>Segments\<close>

definition SIZEOF_FD :: u32 where [simp]: "SIZEOF_FD = 12"

text \<open>An operation on the machine below the file system.\<close>

definition on_heap :: "('h \<Rightarrow> ('r \<times> 'h) option) \<Rightarrow> 'h fs \<Rightarrow> ('r \<times> 'h fs) option" where
  "on_heap f s = map_option (\<lambda>(r, h). (r, s\<lparr>fs_heap := h\<rparr>)) (f (fs_heap s))"

definition pages_of :: "u32 \<Rightarrow> u32" where
  "pages_of n = drop_bit PAGE_BITS n + (if n AND (PAGE_SIZE - 1) \<noteq> 0 then 1 else 0)"

definition area_flags :: "u32 \<Rightarrow> u32" where
  "area_flags pf = VMA_CACHEABLE OR (if pf AND PF_R \<noteq> 0 then VMA_READ else 0)
     OR (if pf AND PF_W \<noteq> 0 then VMA_WRITE else 0) OR (if pf AND PF_X \<noteq> 0 then VMA_EXECUTE else 0)"

text \<open>\<^verbatim>\<open>memset\<close> to 0 in the address space; a byte without a page is a page fault that is not served.\<close>

definition clear_range :: "addr \<Rightarrow> u32 \<Rightarrow> 'a sys_scheme fs \<Rightarrow> 'a sys_scheme fs option" where
  "clear_range a n s =
     (if list_all (\<lambda>i. translate (fs_heap s) (a + of_nat i) \<noteq> None) [0..<unat n]
      then Some (s\<lparr>fmem := fst (memset (fmem s) a 0 n)\<rparr>) else None)"

text \<open>A segment with the frames it gets. \<^verbatim>\<open>page_set_flags\<close>, called for a segment that is not writable, has no effect.\<close>

definition load_segment ::
  "nat \<Rightarrow> addr \<Rightarrow> u32 \<Rightarrow> nat \<Rightarrow> elf_program_header \<Rightarrow> fd \<Rightarrow> u32 \<Rightarrow> 'a sys_scheme fs \<Rightarrow> (fd \<times> u32 \<times> 'a sys_scheme fs) option" where
  "load_segment d ke me fuel h file heap s =
     (if virt_addr h = 0 then Some (file, heap, s)
      else let npages = pages_of (mem_size h) in
        case on_heap (get_pages ke npages) s of None \<Rightarrow> None
        | Some (a, s) \<Rightarrow>
      (case on_heap (page_map ke (virt_addr h) a npages (PG_USER OR PG_RW)) s of None \<Rightarrow> None
        | Some (_, s) \<Rightarrow>
      (case clear_range (virt_addr h) (npages * PAGE_SIZE) s of None \<Rightarrow> None
        | Some s \<Rightarrow>
          let heap = (if heap < virt_addr h + mem_size h then virt_addr h + mem_size h else heap) in
      (case read_fs me fuel (file\<lparr>f_offset := p_offset h\<rparr>) (virt_addr h) (file_size h) s of None \<Rightarrow> None
        | Some (_, file, s) \<Rightarrow>
            map_option (\<lambda>(_, s). (file, heap, s))
              (on_heap (vma_add (kmalloc d ke) (virt_addr h) (virt_addr h + npages * PAGE_SIZE - 1) (area_flags (p_flags h))) s)))))"

text \<open>The stack lies at twice the entry address. \<open>Inl\<close> is the early return.\<close>

definition load_stack ::
  "nat \<Rightarrow> addr \<Rightarrow> u32 \<Rightarrow> elf_program_header \<Rightarrow> 'a sys_scheme fs
     \<Rightarrow> ((int \<times> 'a sys_scheme fs) + (u32 \<times> 'a sys_scheme fs)) option" where
  "load_stack d ke entry h s =
     (let npages = pages_of DEFAULT_STACK_SIZE; stk = entry * 2 in
      case on_heap (get_pages ke npages) s of None \<Rightarrow> None
      | Some (a, s) \<Rightarrow>
    (case on_heap (page_map ke stk a npages (PG_USER OR PG_RW)) s of None \<Rightarrow> None
      | Some (ret, s) \<Rightarrow>
          if ret \<noteq> 0 then Some (Inl (- ENOMEM, s))
          else (case clear_range stk (npages * PAGE_SIZE) s of None \<Rightarrow> None
      | Some s \<Rightarrow>
          map_option (\<lambda>(_, s). Inr (stk, s))
            (on_heap (vma_add (kmalloc d ke) stk (stk + npages * PAGE_SIZE - 1) (area_flags (p_flags h))) s))))"

fun load_program_headers ::
  "nat \<Rightarrow> addr \<Rightarrow> u32 \<Rightarrow> nat \<Rightarrow> addr \<Rightarrow> elf_header \<Rightarrow> nat list \<Rightarrow> fd \<Rightarrow> u32 \<Rightarrow> u32 \<Rightarrow> 'a sys_scheme fs
     \<Rightarrow> ((int \<times> 'a sys_scheme fs) + (u32 \<times> u32 \<times> 'a sys_scheme fs)) option" where
  "load_program_headers d ke me fuel ph e [] file stk heap s = Some (Inr (stk, heap, s))"
| "load_program_headers d ke me fuel ph e (i # is) file stk heap s =
     (case read_fs me fuel (file\<lparr>f_offset := ph_offset e + of_nat i * ucast (ph_entry_size e)\<rparr>) ph SIZEOF_PROGRAM_HEADER s of
        None \<Rightarrow> None
      | Some (r, file, s) \<Rightarrow>
          let h = program_header_at (fmem s) ph in
          if r = 0 then load_program_headers d ke me fuel ph e is file stk heap s
          else if p_type h = ELF_PT_LOAD
          then (case load_segment d ke me fuel h file heap s of None \<Rightarrow> None
                | Some (file, heap, s) \<Rightarrow> load_program_headers d ke me fuel ph e is file stk heap s)
          else if p_type h = ELF_PT_GNU_STACK
          then (case load_stack d ke (elf_entry e) h s of None \<Rightarrow> None
                | Some (Inl r) \<Rightarrow> Some (Inl r)
                | Some (Inr (stk, s)) \<Rightarrow> load_program_headers d ke me fuel ph e is file stk heap s)
          else load_program_headers d ke me fuel ph e is file stk heap s)"

section \<open>Loading\<close>

text \<open>Either the processor enters the program at an address with a stack, or the loader returns a code.\<close>

datatype 's loaded = Enter_User addr addr 's | Load_Returns int 's

text \<open>What follows the loop over the program headers. The node of the heap area is not initialised but for the three fields.\<close>

definition enter_program ::
  "nat \<Rightarrow> addr \<Rightarrow> addr \<Rightarrow> elf_header \<Rightarrow> u32 \<Rightarrow> u32 \<Rightarrow> 'a sys_scheme fs \<Rightarrow> 'a sys_scheme fs loaded option" where
  "enter_program d ke largs e stk heap s =
     (let t = current_id (fs_heap s) in
      case (if task_heap (fs_heap s) t \<noteq> 0 then Some (task_heap (fs_heap s) t, s) else kalloc (kmalloc d ke) SIZEOF_VMA s) of
        None \<Rightarrow> None
      | Some (heap_node, s) \<Rightarrow>
          let s = s\<lparr>fs_heap := (fs_heap s)\<lparr>task_heap := (task_heap (fs_heap s))(t := heap_node)\<rparr>\<rparr> in
          if heap_node = 0 \<or> heap = 0 then Some (Load_Returns (- ENOMEM) s)
          else let s = s\<lparr>fs_heap := upd_vma heap_node (\<lambda>v. v\<lparr>v_flags := VMA_HEAP OR VMA_USER,
                           v_start := PAGE_FLOOR heap, v_end := PAGE_FLOOR heap\<rparr>) (fs_heap s)\<rparr>
          in if stk = 0 then Some (Load_Returns (- ENOMEM) s)
          else (case push_args stk largs (fmem s) of None \<Rightarrow> None
            | Some (offset, m) \<Rightarrow>
                map_option (\<lambda>s. Enter_User (elf_entry e) (stk + offset)
                    (s\<lparr>fs_heap := upd_task t (\<lambda>x. x\<lparr>t_flags := t_flags x AND NOT (TASK_FPU_USED OR TASK_FPU_INIT)\<rparr>) (fs_heap s)\<rparr>))
                  (krelease kfree largs (s\<lparr>fmem := m\<rparr>))))"

text \<open>A null descriptor is written through: \<open>None\<close>.\<close>

definition load_task ::
  "nat \<Rightarrow> addr \<Rightarrow> u32 \<Rightarrow> nat \<Rightarrow> addr \<Rightarrow> addr \<Rightarrow> addr \<Rightarrow> 'a sys_scheme fs \<Rightarrow> 'a sys_scheme fs loaded option" where
  "load_task d ke me fuel hdr ph largs s =
     (case kalloc (kmalloc d ke) SIZEOF_FD s of None \<Rightarrow> None
      | Some (f, s) \<Rightarrow>
          if f = 0 then None
          else if largs = 0 then Some (Load_Returns (- EINVAL) s)
          else let file = \<lparr>f_node = get32 (fmem s) largs, f_offset = 0, f_flags = 0\<rparr> in
          if f_node file = 0 then Some (Load_Returns (- EINVAL) s)
          else (case read_fs me fuel file hdr SIZEOF_ELF_HEADER s of None \<Rightarrow> None
            | Some (err, file, s) \<Rightarrow>
                if err < 0 then Some (Load_Returns err s)
                else let e = elf_header_at (fmem s) hdr in
                if \<not> valid_header e then Some (Load_Returns (- EINVAL) s)
                else (case load_program_headers d ke me fuel ph e [0..<unat (ph_entry_count e)] file 0 0 s of None \<Rightarrow> None
                  | Some (Inl (r, s)) \<Rightarrow> Some (Load_Returns r s)
                  | Some (Inr (stk, heap, s)) \<Rightarrow> enter_program d ke largs e stk heap s)))"

definition user_entry ::
  "nat \<Rightarrow> addr \<Rightarrow> u32 \<Rightarrow> nat \<Rightarrow> addr \<Rightarrow> addr \<Rightarrow> addr \<Rightarrow> 'a sys_scheme fs \<Rightarrow> 'a sys_scheme fs loaded option" where
  "user_entry d ke me fuel hdr ph arg s =
     (case finish_task_switch (fs_heap s) of None \<Rightarrow> None
      | Some h \<Rightarrow>
          let s = s\<lparr>fs_heap := h\<rparr> in
          if arg = 0 then Some (Load_Returns (- EINVAL) s)
          else (case load_task d ke me fuel hdr ph arg s of None \<Rightarrow> None
            | Some (Enter_User ep sp s) \<Rightarrow> Some (Enter_User ep sp s)
            | Some (Load_Returns ret s) \<Rightarrow> map_option (Load_Returns ret) (krelease kfree arg s)))"

section \<open>Creating a task for a program\<close>

definition SIZEOF_LOAD_ARGS :: u32 where [simp]: "SIZEOF_LOAD_ARGS = 4 + 4 + 4 + MAX_ARGS"

text \<open>\<open>entry\<close> is the address of \<^verbatim>\<open>user_entry\<close>. The result is the code, the id and the address of the arguments, 0 if there are none.\<close>

definition create_user_task ::
  "nat \<Rightarrow> addr \<Rightarrow> addr \<Rightarrow> addr \<Rightarrow> addr \<Rightarrow> u32 \<Rightarrow> nat \<Rightarrow> addr \<Rightarrow> string option \<Rightarrow> addr \<Rightarrow> 'a sys_scheme fs
     \<Rightarrow> (int \<times> u32 option \<times> addr \<times> 'a sys_scheme fs) option" where
  "create_user_task d ks ke stacks leave me fuel entry fname argv s =
     (case findnode_fs me fuel fname s of None \<Rightarrow> None
      | Some (nd, s) \<Rightarrow>
          if nd = 0 \<or> v_type (node s nd) \<noteq> FS_FILE then Some (- EINVAL, None, 0, s)
          else (case (if argv = 0 then Some (0, 0) else count_args (fmem s) argv 0 0) of None \<Rightarrow> None
            | Some (argc, buffer_size) \<Rightarrow>
                if sint argc \<le> 0 \<or> buffer_size \<ge> MAX_ARGS then Some (- EINVAL, None, 0, s)
                else (case kalloc (kmalloc d ke) SIZEOF_LOAD_ARGS s of None \<Rightarrow> None
                  | Some (la, s) \<Rightarrow>
                      if la = 0 then Some (- ENOMEM, None, 0, s)
                      else (case copy_args argv [0..<unat argc] (la + 12)
                                  (put32 (la + 8) 0 (put32 (la + 4) argc (put32 la nd (fmem s)))) of None \<Rightarrow> None
                        | Some m \<Rightarrow>
                            map_option (\<lambda>(r, i, h). (r, i, la, s\<lparr>fmem := m, fs_heap := h\<rparr>))
                              (create_task ks ke stacks leave entry la NORMAL_PRIO (fs_heap s))))))"

section \<open>Areas\<close>

lemma area_flags_no_user: "\<not> has_flag (area_flags pf) VMA_USER"
  by (simp add: area_flags_def has_flag_def bit.conj_disj_distrib2)

text \<open>The frames, the page tables and the files are not where the areas are kept.\<close>

abbreviation same_areas :: "'a vmm_scheme \<Rightarrow> 'b vmm_scheme \<Rightarrow> bool" where
  "same_areas s s' \<equiv> vma_at s' = vma_at s \<and> vma_heads s' = vma_heads s"

lemma more_same_areas: "pmm.more s' = pmm.more s \<Longrightarrow> same_areas s s'"
  by (cases s; cases s') simp

lemma page_set_mark_more: "page_set_mark i s = Some s' \<Longrightarrow> pmm.more s' = pmm.more s"
  by (auto simp: page_set_mark_def Let_def split: if_splits)

lemma mark_run_more: "mark_run off n s = Some s' \<Longrightarrow> pmm.more s' = pmm.more s"
  unfolding mark_run_def
  by (erule foldM_invariant [where P = "\<lambda>t. pmm.more t = pmm.more s"]) (auto dest: page_set_mark_more)

lemma search_pages_more:
  assumes "search_pages n s off = Some r"
  shows "pmm.more (snd r) = pmm.more s"
proof (rule search_pages.raw_induct [where P = "\<lambda>n s off r. pmm.more (snd r) = pmm.more s", OF _ assms], goal_cases)
  case (1 f n s off r)
  then show ?case by (auto simp: Let_def split: if_splits option.splits dest: mark_run_more)
qed

lemma get_pages_areas: "get_pages ke n s = Some (a, s') \<Longrightarrow> same_areas s s'"
  by (rule more_same_areas) (auto simp: get_pages_def Let_def split: if_splits dest: search_pages_more)

lemma vwrite_areas: "vwrite va v s = Some s' \<Longrightarrow> same_areas s s'"
  by (auto simp: vwrite_def write_word_def split: option.splits)

lemma zero_page_areas: "zero_page va s = Some s' \<Longrightarrow> same_areas s s'"
  unfolding zero_page_def
  by (erule foldM_invariant [where P = "same_areas s"]) (auto dest: vwrite_areas)

lemma map_tables_areas:
  assumes "map_tables ke bits vpn lst s = Some r"
  shows "same_areas s (snd r)"
proof (rule map_tables.raw_induct [where P = "\<lambda>ke bits vpn lst s r. same_areas s (snd r)", OF _ assms], goal_cases)
  case (1 f ke bits vpn lst s r)
  have c: "vma_at (count_user b i n t) = vma_at t" "vma_heads (count_user b i n t) = vma_heads t"
    for t :: "'a mmu_scheme" and b i n by (simp_all add: count_user_def)
  show ?case using 1(2)
    by (auto split: if_splits option.splits dest!: 1(1) get_pages_areas zero_page_areas vwrite_areas simp: c)
qed

lemma map_entries_areas:
  assumes "map_entries bits vpn lst a s = Some s'"
  shows "same_areas s s'"
proof (rule map_entries.raw_induct [where P = "\<lambda>bits vpn lst a. same_areas", OF _ assms], goal_cases)
  case (1 f bits vpn lst a s s')
  then show ?case by (auto split: if_splits option.splits dest!: vwrite_areas)
qed

lemma page_map_areas: "page_map ke va a n bits s = Some (r, s') \<Longrightarrow> same_areas s s'"
  by (auto simp: page_map_def Let_def split: if_splits option.splits dest!: map_tables_areas map_entries_areas)

lemma kmsg_copy_heap: "kmsg_copy n start i b (f, s) = (i', f', s') \<Longrightarrow> fs_heap s' = fs_heap s"
  by (induction n arbitrary: f s i) (auto simp: Let_def split: if_splits)

lemma kmsg_read_heap: "kmsg_read file b n s = (r, file', s') \<Longrightarrow> fs_heap s' = fs_heap s"
  by (auto simp: kmsg_read_def Let_def split: if_splits prod.splits dest: kmsg_copy_heap)

lemma read_fs_heap:
  assumes "read_fs me fuel file b n s = Some (r, file', s')"
  shows "fs_heap s' = fs_heap s"
proof -
  have h: "fs_heap (upd_vnode a f t) = fs_heap t" for a f and t :: "'a fs" by (simp add: upd_vnode_def)
  have i: "initrd_read fuel file b n t = Some (r, f', t') \<Longrightarrow> fs_heap t' = fs_heap t"
    "initrd_emu_readdir fuel file b n t = Some (r, f', t') \<Longrightarrow> fs_heap t' = fs_heap t" for t t' :: "'a fs" and r f'
    by (auto simp: initrd_read_def initrd_emu_readdir_def Let_def split: if_splits option.splits)
  show ?thesis using assms
    by (auto simp: read_fs_def locked_call_def lock_node_def unlock_node_def Let_def h
        split: if_splits option.splits read_cb.splits dest!: i kmsg_read_heap)
qed

lemma on_heap_areas:
  fixes s :: "'a sys_scheme fs"
  shows "on_heap (get_pages ke n) s = Some (a, s') \<Longrightarrow> same_areas (fs_heap s) (fs_heap s')"
    and "on_heap (page_map ke va p n bits) s = Some (c, s') \<Longrightarrow> same_areas (fs_heap s) (fs_heap s')"
  by (auto simp: on_heap_def dest!: get_pages_areas page_map_areas)

lemma clear_range_heap: "clear_range a n s = Some s' \<Longrightarrow> fs_heap s' = fs_heap s"
  by (auto simp: clear_range_def split: if_splits)

lemma vma_add_refuses: "KERNEL_SPACE \<le> stop \<Longrightarrow> vma_add al start stop (area_flags pf) u = Some (- EINVAL, u)"
  using area_flags_no_user [of pf] by (simp add: vma_add_def)

lemma vma_add_no_user:
  assumes "on_heap (vma_add al start stop (area_flags pf)) s = Some (c, s')" and "KERNEL_SPACE \<le> stop"
  shows "fs_heap s' = fs_heap s"
  using assms(1) by (auto simp: on_heap_def vma_add_refuses [OF assms(2)])

text \<open>
  C21: the loader asks for the areas of a program without the flag \<^verbatim>\<open>VMA_USER\<close>: a segment or a stack that ends in the space of
  the programs is mapped and filled, its area is refused and the code is ignored. No area of the kernel or of any task has
  changed afterwards, whatever the flags of the segment are. (A segment that ends below \<^verbatim>\<open>KERNEL_SPACE\<close> passes these checks, and its area goes to
  the list of the kernel.)
\<close>

theorem program_area_rejected:
  fixes s s' :: "'a sys_scheme fs"
  shows "(load_segment d ke me fuel h file heap s = Some (file', heap', s') \<and>
      (virt_addr h = 0 \<or> KERNEL_SPACE \<le> virt_addr h + pages_of (mem_size h) * PAGE_SIZE - 1)
        \<longrightarrow> same_areas (fs_heap s) (fs_heap s'))
    \<and> (load_stack d ke entry h s = Some r \<and> KERNEL_SPACE \<le> entry * 2 + pages_of DEFAULT_STACK_SIZE * PAGE_SIZE - 1
        \<longrightarrow> (case r of Inl (code, s') \<Rightarrow> same_areas (fs_heap s) (fs_heap s')
           | Inr (stk, s') \<Rightarrow> same_areas (fs_heap s) (fs_heap s')))"
proof (rule conjI; rule impI)
  note areas = vma_add_no_user on_heap_areas clear_range_heap read_fs_heap
  show "same_areas (fs_heap s) (fs_heap s')"
    if "load_segment d ke me fuel h file heap s = Some (file', heap', s') \<and>
      (virt_addr h = 0 \<or> KERNEL_SPACE \<le> virt_addr h + pages_of (mem_size h) * PAGE_SIZE - 1)"
    using that unfolding load_segment_def Let_def
    by (elim conjE) (auto simp del: KERNEL_SPACE_def split: if_splits option.splits dest!: areas)
  show "case r of Inl (code, s') \<Rightarrow> same_areas (fs_heap s) (fs_heap s') | Inr (stk, s') \<Rightarrow> same_areas (fs_heap s) (fs_heap s')"
    if "load_stack d ke entry h s = Some r \<and> KERNEL_SPACE \<le> entry * 2 + pages_of DEFAULT_STACK_SIZE * PAGE_SIZE - 1"
    using that unfolding load_stack_def Let_def
    by (elim conjE) (auto simp del: KERNEL_SPACE_def split: if_splits option.splits dest!: areas)
qed

text \<open>
  A segment of one page, all of it beyond the bytes of the file, is loaded into an address space whose page tables are present
  everywhere (every entry points to the frame 1).
\<close>

definition one_page :: elf_program_header where
  "one_page = \<lparr>p_type = ELF_PT_LOAD, p_offset = 0x1000, virt_addr = 0x40400000, phys_addr = 0, file_size = 0, mem_size = 0x1000,
     p_flags = PF_R OR PF_W, p_alignment = 0x1000\<rparr>"

definition mapped_fs :: "sys fs" where
  "mapped_fs = \<lparr>fs_heap = boot_sys\<lparr>phys := \<lambda>_ _. 0x1001\<rparr>, node = (\<lambda>_. no_node\<lparr>v_read := Kmsg_Read\<rparr>), blists = (\<lambda>_. no_blocks),
     dirs = (\<lambda>_ _. no_entry), fmem = (\<lambda>_. 1), fs_root = 0, kmessages = (\<lambda>_. 0), kmsg_counter = 0\<rparr>"

lemma present_translates: "\<forall>f w. has_flag (phys s f w) PG_PRESENT \<Longrightarrow> translate s a \<noteq> None"
  by (simp add: translate_def Let_def)

lemma one_page_loads:
  "\<exists>s'. load_segment 1 0x100000 0 1 one_page \<lparr>f_node = 0x500, f_offset = 0, f_flags = 0\<rparr> 0 mapped_fs
      = Some (\<lparr>f_node = 0x500, f_offset = 0x1000, f_flags = 0\<rparr>, 0x40401000, s')"
proof -
  let ?h = "fs_heap mapped_fs"
  have "\<exists>h1. get_pages 0x100000 1 ?h = Some (0x101000, h1) \<and> phys h1 = phys ?h"
    by (simp add: get_pages_def mapped_fs_def boot_sys_def kheap.defs sys.defs no_heap_def search_pages.simps
        page_marked_def page_set_mark_def in_bitmap_def mark_run_def Let_def)
  then obtain h1 where h1: "get_pages 0x100000 1 ?h = Some (0x101000, h1)" "phys h1 = (\<lambda>_ _. 0x1001)"
    by (auto simp: mapped_fs_def)
  have tr: "\<exists>f w. translate h1 a = Some (f, w)" for a
    using present_translates [of h1 a] h1(2) by (auto simp: has_flag_def)
  have rd: "vread h1 a = Some 0x1001" for a using tr [of a] h1(2) by (auto simp: vread_def)
  obtain f w where fw: "translate h1 (self_addr 0 0x40400) = Some (f, w)" using tr by blast
  define h2 where "h2 = write_word f w 0x101007 h1"
  have mt: "map_tables 0x100000 6 0x101 0x101 h1 = Some (0, h1)"
    using rd by (simp add: map_tables.simps has_flag_def)
  have me: "map_entries 6 0x40400 0x40400 0x101000 h1 = Some h2"
    using rd fw by (simp add: map_entries.simps vwrite_def h2_def)
  have h2: "page_map 0x100000 0x40400000 0x101000 1 6 h1 = Some (0, h2)"
    using mt me by (simp add: page_map_def Let_def)
  have "\<forall>f w. has_flag (phys h2 f w) PG_PRESENT" using h1(2) by (simp add: h2_def write_word_def has_flag_def)
  then have tr2: "translate h2 a \<noteq> None" for a by (rule present_translates)
  let ?s2 = "mapped_fs\<lparr>fs_heap := h2\<rparr>"
  obtain s3 where s3: "clear_range 0x40400000 4096 ?s2 = Some s3" "node s3 = node mapped_fs"
    using tr2 by (simp add: clear_range_def list_all_iff)
  let ?f = "\<lparr>f_node = 0x500, f_offset = 0x1000, f_flags = 0\<rparr>"
  obtain s4 where s4: "read_fs 0 1 ?f 0x40400000 0 s3 = Some (0, ?f, s4)"
    using s3(2) by (simp add: read_fs_def locked_call_def lock_node_def kmsg_read_def mapped_fs_def no_node_def s_lock_def
        lock_enter_def lock_may_enter_def lock_own_def atomic_defs upd_vnode_def)
  have "pages_of 0x1000 = 1" by (simp add: pages_of_def)
  then show ?thesis
    using h1(1) h2 s3(1) s4
    by (simp add: load_segment_def one_page_def on_heap_def Let_def vma_add_refuses)
qed

lemma program_area_rejected_witness:
  "\<exists>s'. load_segment 1 0x100000 0 1 one_page \<lparr>f_node = 0x500, f_offset = 0, f_flags = 0\<rparr> 0 mapped_fs
      = Some (\<lparr>f_node = 0x500, f_offset = 0x1000, f_flags = 0\<rparr>, 0x40401000, s')
    \<and> vma_heads (fs_heap s') = vma_heads no_heap \<and> vma_at (fs_heap s') = vma_at no_heap"
proof -
  obtain s' where s': "load_segment 1 0x100000 0 1 one_page \<lparr>f_node = 0x500, f_offset = 0, f_flags = 0\<rparr> 0 mapped_fs
      = Some (\<lparr>f_node = 0x500, f_offset = 0x1000, f_flags = 0\<rparr>, 0x40401000, s')" using one_page_loads by blast
  have "virt_addr one_page + pages_of (mem_size one_page) * PAGE_SIZE - 1 = 0x40400FFF"
    by (simp add: one_page_def pages_of_def)
  then have "same_areas (fs_heap mapped_fs) (fs_heap s')"
    using program_area_rejected [of 1 "0x100000" 0 1 one_page _ 0 mapped_fs] s' by auto
  then show ?thesis using s' by (auto simp: mapped_fs_def boot_sys_def kheap.defs sys.defs no_heap_def)
qed

section \<open>Entering the program\<close>






end
