(* ===== verification/Users.thy ===== *)
theory Users
  imports Byte_Words
begin

text \<open>
  The users of the shell, \<^verbatim>\<open>video/users.c\<close> and \<^verbatim>\<open>include/users.h\<close>. A \<^verbatim>\<open>struct users\<close> has no gaps, so the table is a region of
  the byte memory with 70 bytes for each user; \<open>ua\<close> is its address and the number is \<^verbatim>\<open>user_array_index\<close>. \<open>frame\<close> is the
  address of the local variable \<^verbatim>\<open>newUser\<close>.
\<close>

section \<open>Operations\<close>

text \<open>Offset and size of user name, password, first name, last name and country.\<close>

definition user_fields :: "(nat \<times> nat) list" where
  "user_fields = [(0, 15), (15, 15), (30, 10), (40, 10), (50, 20)]"

definition SIZEOF_USER :: nat where [simp]: "SIZEOF_USER = 70"
definition MAX_USERS :: nat where [simp]: "MAX_USERS = 5"

definition user_slot :: "addr \<Rightarrow> nat \<Rightarrow> addr" where
  "user_slot ua i = ua + of_nat (SIZEOF_USER * i)"

definition clear_fields :: "addr \<Rightarrow> (nat \<times> nat) list \<Rightarrow> mem \<Rightarrow> mem" where
  "clear_fields frame fields m = fold (\<lambda>(off, sz) m. fst (memset m (frame + of_nat off) 0 (of_nat sz))) fields m"

fun copy_fields :: "addr \<Rightarrow> (nat \<times> addr) list \<Rightarrow> mem \<Rightarrow> mem option" where
  "copy_fields frame [] m = Some m"
| "copy_fields frame ((off, src) # fields) m =
     (case strcpy m (frame + of_nat off) src of None \<Rightarrow> None
      | Some (m, _) \<Rightarrow> copy_fields frame fields m)"

text \<open>The arguments are the addresses of the five strings. The result is the code, the memory and the number of users.\<close>

definition addNewUser :: "addr \<Rightarrow> addr \<Rightarrow> addr list \<Rightarrow> mem \<times> nat \<Rightarrow> (int \<times> mem \<times> nat) option" where
  "addNewUser ua frame args = (\<lambda>(m, n).
     case copy_fields frame (zip (map fst user_fields) args) (clear_fields frame user_fields m) of None \<Rightarrow> None
     | Some m \<Rightarrow> Some (0, fst (memcpy m (user_slot ua n) frame (of_nat SIZEOF_USER)), n + 1))"

fun search_users :: "addr \<Rightarrow> mem \<Rightarrow> addr \<Rightarrow> nat list \<Rightarrow> int option" where
  "search_users ua m username [] = Some (-1)"
| "search_users ua m username (i # is) =
     (case strcmp m (user_slot ua i) username of None \<Rightarrow> None
      | Some r \<Rightarrow> if r = 0 then Some (int i) else search_users ua m username is)"

definition searchForUser :: "addr \<Rightarrow> mem \<times> nat \<Rightarrow> addr \<Rightarrow> int option" where
  "searchForUser ua = (\<lambda>(m, n) username. search_users ua m username [0..<n])"

definition compareUserPass :: "addr \<Rightarrow> mem \<times> nat \<Rightarrow> addr \<Rightarrow> addr \<Rightarrow> int option" where
  "compareUserPass ua = (\<lambda>(m, n) username password.
     case searchForUser ua (m, n) username of None \<Rightarrow> None
     | Some isUserFound \<Rightarrow>
         if isUserFound \<noteq> -1
         then (case strcmp m (user_slot ua (nat isUserFound)) username of None \<Rightarrow> None
           | Some a \<Rightarrow>
               if a \<noteq> 0 then Some 0
               else (case strcmp m (user_slot ua (nat isUserFound) + 15) password of None \<Rightarrow> None
                 | Some b \<Rightarrow> Some (if b = 0 then 1 else 0)))
         else Some 0)"

text \<open>The users of \<^verbatim>\<open>tempUserStart\<close>. Its string literals are at the addresses \<open>lits\<close>, five for each user.\<close>

definition text_of :: "string \<Rightarrow> u8 list" where
  "text_of cs = map (\<lambda>c. of_nat (of_char c)) cs"

definition stock_users :: "string list list" where
  "stock_users =
    [[''root'', ''toor'', ''root'', ''root'', ''earth''],
     [''chpetrou'', ''CyEsGr'', ''Christos'', ''Petrou'', ''Cyprus''],
     [''AirPit'', ''Eks123Pet'', ''Petros'', ''Christodoulou'', ''Greece'']]"

fun add_users :: "addr \<Rightarrow> addr \<Rightarrow> addr list list \<Rightarrow> mem \<times> nat \<Rightarrow> (mem \<times> nat) option" where
  "add_users ua frame [] s = Some s"
| "add_users ua frame (args # rest) s =
     (case addNewUser ua frame args s of None \<Rightarrow> None | Some (_, m, n) \<Rightarrow> add_users ua frame rest (m, n))"

definition tempUserStart :: "addr \<Rightarrow> addr \<Rightarrow> addr list list \<Rightarrow> mem \<times> nat \<Rightarrow> (int \<times> mem \<times> nat) option" where
  "tempUserStart ua frame lits s = map_option (Pair 0) (add_users ua frame lits s)"

section \<open>The table\<close>

text \<open>The users with their names and passwords.\<close>

definition users_at :: "mem \<Rightarrow> addr \<Rightarrow> (u8 list \<times> u8 list) list \<Rightarrow> bool" where
  "users_at m ua us \<longleftrightarrow>
     (\<forall>i<length us. cstr m (user_slot ua i) (fst (us ! i)) \<and> cstr m (user_slot ua i + 15) (snd (us ! i))
        \<and> length (fst (us ! i)) < 15 \<and> length (snd (us ! i)) < 15)"

lemma search_users_first:
  assumes "users_at m ua us" and "cstr m username nm" and "k \<le> length us"
  shows "\<exists>r. search_users ua m username [k..<length us] = Some r
    \<and> (case map_of (drop k us) nm of None \<Rightarrow> r = -1
       | Some pw \<Rightarrow> \<exists>i<length us. r = int i \<and> us ! i = (nm, pw))"
  using assms(3)
proof (induction "length us - k" arbitrary: k)
  case 0
  then show ?case by simp
next
  case (Suc n)
  then have k: "k < length us" by simp
  then have "[k..<length us] = k # [Suc k..<length us]" "drop k us = us ! k # drop (Suc k) us"
    by (simp_all add: upt_conv_Cons Cons_nth_drop_Suc)
  moreover have "strcmp m (user_slot ua k) username = Some (if fst (us ! k) = nm then 0 else 1)"
    using strcmp_cstr assms(1,2) k by (auto simp: users_at_def)
  ultimately show ?case
    using Suc.hyps(1) [of "Suc k"] Suc.hyps(2) k by (cases "us ! k") (auto split: option.splits)
qed

lemma login_result:
  assumes "users_at m ua us" and "cstr m username nm" and "cstr m password pw"
  shows "compareUserPass ua (m, length us) username password = Some (if map_of us nm = Some pw then 1 else 0)"
proof -
  obtain r where r: "search_users ua m username [0..<length us] = Some r"
    "case map_of us nm of None \<Rightarrow> r = -1 | Some pw \<Rightarrow> \<exists>i<length us. r = int i \<and> us ! i = (nm, pw)"
    using search_users_first [OF assms(1,2), of 0] by auto
  show ?thesis
  proof (cases "map_of us nm")
    case None
    then show ?thesis using r by (simp add: compareUserPass_def searchForUser_def)
  next
    case (Some p)
    then obtain i where i: "i < length us" "r = int i" "us ! i = (nm, p)" using r(2) by auto
    then have "strcmp m (user_slot ua i) username = Some 0"
      "strcmp m (user_slot ua i + 15) password = Some (if p = pw then 0 else 1)"
      using strcmp_cstr assms by (auto simp: users_at_def)
    then show ?thesis using r(1) i Some by (simp add: compareUserPass_def searchForUser_def)
  qed
qed

section \<open>Adding a user\<close>

text \<open>The fields are in order, and each string leaves room for a NUL; \<open>xs\<close> lists offset, size, source and string.\<close>

fun fields_ok :: "nat \<Rightarrow> (nat \<times> nat \<times> addr \<times> u8 list) list \<Rightarrow> bool" where
  "fields_ok lo [] \<longleftrightarrow> True"
| "fields_ok lo ((off, sz, src, bs) # xs) \<longleftrightarrow> lo \<le> off \<and> bs \<noteq> [] \<and> length bs < sz \<and> fields_ok (off + sz) xs"

lemma fields_ok_mono: "fields_ok lo xs \<Longrightarrow> x \<in> set xs \<Longrightarrow> lo \<le> fst x"
proof (induction xs arbitrary: lo)
  case (Cons y xs)
  obtain off sz src bs where "y = (off, sz, src, bs)" by (metis prod_cases4)
  then show ?case using Cons by (auto dest: Cons.IH)
qed simp

definition source_ok :: "addr \<Rightarrow> nat \<Rightarrow> mem \<Rightarrow> nat \<times> nat \<times> addr \<times> u8 list \<Rightarrow> bool" where
  "source_ok frame width m = (\<lambda>(off, sz, src, bs).
     off + sz \<le> width \<and> cstr m src bs \<and> separate frame width src (Suc (length bs)))"

lemma source_ok_keep:
  assumes "source_ok frame width m x" and "\<And>a. \<forall>y<width. a \<noteq> frame + of_nat y \<Longrightarrow> m' a = m a"
  shows "source_ok frame width m' x"
proof -
  obtain off sz src bs where x: "x = (off, sz, src, bs)" by (metis prod_cases4)
  then show ?thesis using assms separate_keeps_cstr [of m src bs frame width m'] by (simp add: source_ok_def)
qed

lemma copy_fields_correct:
  assumes "fields_ok lo xs" and "\<forall>x\<in>set xs. source_ok frame width m x" and "width < 2 ^ 32"
    and "\<forall>(off, sz, _, _)\<in>set xs. \<forall>y < sz. m (frame + of_nat (off + y)) = 0"
  shows "\<exists>m'. copy_fields frame (map (\<lambda>(off, sz, src, bs). (off, src)) xs) m = Some m'
    \<and> (\<forall>(off, sz, src, bs)\<in>set xs. cstr m' (frame + of_nat off) bs)
    \<and> (\<forall>y<2 ^ 32. y < lo \<or> width \<le> y \<longrightarrow> m' (frame + of_nat y) = m (frame + of_nat y))"
  using assms(1,2,4)
proof (induction xs arbitrary: lo m)
  case Nil
  then show ?case by simp
next
  case (Cons x xs)
  obtain off sz src bs where x: "x = (off, sz, src, bs)" by (metis prod_cases4)
  let ?n = "length bs" and ?m = "copy_up (frame + of_nat off) src (length bs) m"
  have len: "lo \<le> off" "bs \<noteq> []" "?n < sz" "fields_ok (off + sz) xs" "off + sz \<le> width" "cstr m src bs"
    "separate frame width src (Suc ?n)" "\<forall>y < sz. m (frame + of_nat (off + y)) = 0"
    using Cons.prems by (simp_all add: x source_ok_def)
  have sep: "separate (frame + of_nat off) ?n src (Suc ?n)"
    unfolding separate_def
  proof (intro allI impI)
    fix y z assume "y < ?n" "z < Suc ?n"
    then show "frame + of_nat off + of_nat y \<noteq> src + of_nat z"
      using separateD [OF len(7), of "off + y" z] len(3,5) by (simp add: add.assoc)
  qed
  have up: "\<And>y. y < ?n \<Longrightarrow> ?m (frame + of_nat off + of_nat y) = m (src + of_nat y)"
    "\<And>a. \<forall>y<?n. a \<noteq> frame + of_nat off + of_nat y \<Longrightarrow> ?m a = m a"
    using copy_up_separate [OF sep, of _ m] len(3,5) assms(3) by auto
  have keep: "?m (frame + of_nat y) = m (frame + of_nat y)" if "y < 2 ^ 32" "y < off \<or> off + ?n \<le> y" for y
  proof (rule up(2), intro allI impI)
    fix z assume "z < ?n"
    then show "frame + of_nat y \<noteq> frame + of_nat off + of_nat z"
      using that region_eq [of y "off + z" frame] len(3,5) assms(3) by (auto simp: add.assoc)
  qed
  have "\<forall>z\<in>set xs. source_ok frame width ?m z"
  proof
    fix z assume "z \<in> set xs"
    show "source_ok frame width ?m z"
    proof (rule source_ok_keep [of _ _ m])
      show "?m a = m a" if a: "\<forall>y<width. a \<noteq> frame + of_nat y" for a
      proof (rule up(2), intro allI impI)
        fix y assume "y < ?n"
        then show "a \<noteq> frame + of_nat off + of_nat y" using a [rule_format, of "off + y"] len(3,5) by (simp add: add.assoc)
      qed
    qed (use Cons.prems(2) \<open>z \<in> set xs\<close> in simp)
  qed
  moreover have "\<forall>(o', sz', _, _)\<in>set xs. \<forall>y < sz'. ?m (frame + of_nat (o' + y)) = 0"
  proof safe
    fix o' sz' src' bs' y assume z: "(o', sz', src', bs') \<in> set xs" and "y < sz'"
    have "off + sz \<le> o'" using fields_ok_mono [OF len(4) z] by simp
    moreover have "o' + sz' \<le> width" using Cons.prems(2) z by (auto simp: source_ok_def)
    ultimately show "?m (frame + of_nat (o' + y)) = 0"
      using keep [of "o' + y"] Cons.prems(3) z \<open>y < sz'\<close> len(3) assms(3) by fastforce
  qed
  ultimately obtain m' where
    m': "copy_fields frame (map (\<lambda>(off, sz, src, bs). (off, src)) xs) ?m = Some m'" "\<forall>(off, sz, src, bs)\<in>set xs. cstr m' (frame + of_nat off) bs"
    and rest: "\<forall>y<2 ^ 32. y < off + sz \<or> width \<le> y \<longrightarrow> m' (frame + of_nat y) = ?m (frame + of_nat y)"
    using Cons.IH [OF len(4), of ?m] by blast
  have "cstr m' (frame + of_nat off) bs"
  proof (rule cstrI)
    show "m' (frame + of_nat off + of_nat y) = bs ! y" if "y < ?n" for y
      using rest [rule_format, of "off + y"] up(1) [OF that] cstr_nth [OF len(6) that] that len(3,5) assms(3)
      by (simp add: add.assoc)
    show "m' (frame + of_nat off + of_nat ?n) = 0"
      using rest [rule_format, of "off + ?n"] keep [of "off + ?n"] len(8) len(3,5) assms(3) by (simp add: add.assoc)
  qed (use cstr_nonzero [OF len(6)] in blast)
  moreover have "copy_fields frame (map (\<lambda>(off, sz, src, bs). (off, src)) (x # xs)) m = Some m'"
    using m'(1) strcpy_copies [OF len(6,2) sep] by (simp add: x)
  moreover have "m' (frame + of_nat y) = m (frame + of_nat y)" if "y < 2 ^ 32" "y < lo \<or> width \<le> y" for y
    using rest [rule_format, of y] keep [of y] that len(1,3,5) by auto
  ultimately show ?case using m'(2) by (auto simp: x)
qed

lemma clear_fields_eq:
  assumes "\<forall>(off, sz)\<in>set fields. sz < 2 ^ 32"
  shows "clear_fields frame fields m a = (if \<exists>(off, sz)\<in>set fields. \<exists>i < sz. a = frame + of_nat (off + i) then 0 else m a)"
  using assms
proof (induction fields arbitrary: m)
  case (Cons f fields)
  obtain off sz where f: "f = (off, sz)" by fastforce
  let ?m = "fst (memset m (frame + of_nat off) 0 (of_nat sz))"
  have "?m a = (if \<exists>i < sz. a = frame + of_nat (off + i) then 0 else m a)"
    using Cons.prems by (auto simp: memset_range f unat_of_nat take_bit_nat_eq_self add.assoc)
  moreover have "clear_fields frame (f # fields) m a = clear_fields frame fields ?m a" by (simp add: clear_fields_def f)
  ultimately show ?case using Cons by (auto simp: f)
qed (simp add: clear_fields_def)

lemma clear_user_fields:
  "y < 70 \<Longrightarrow> clear_fields frame user_fields m (frame + of_nat y) = 0"
  "\<forall>y<70. a \<noteq> frame + of_nat y \<Longrightarrow> clear_fields frame user_fields m a = m a"
proof -
  have small: "\<forall>(off, sz)\<in>set user_fields. sz < 2 ^ 32" by (simp add: user_fields_def)
  show "clear_fields frame user_fields m (frame + of_nat y) = 0" if "y < 70"
  proof -
    have "\<exists>(off, sz)\<in>set user_fields. off \<le> y \<and> y < off + sz" using that by (simp add: user_fields_def) linarith
    then obtain off sz where f: "(off, sz) \<in> set user_fields" "off \<le> y" "y < off + sz" by blast
    then have "y - off < sz \<and> frame + of_nat y = frame + of_nat (off + (y - off))" by simp
    then have "\<exists>(off, sz)\<in>set user_fields. \<exists>i < sz. frame + of_nat y = frame + of_nat (off + i)" using f(1) by blast
    then show ?thesis unfolding clear_fields_eq [OF small] by (rule if_P)
  qed
  show "clear_fields frame user_fields m a = m a" if a: "\<forall>y<70. a \<noteq> frame + of_nat y"
  proof -
    have "off + i < 70" if "(off, sz) \<in> set user_fields" "i < sz" for off sz i using that by (auto simp: user_fields_def)
    then have "\<not> (\<exists>(off, sz)\<in>set user_fields. \<exists>i < sz. a = frame + of_nat (off + i))" using a by blast
    then show ?thesis unfolding clear_fields_eq [OF small] by (rule if_not_P)
  qed
qed

text \<open>The five strings of a new user, each with room for its NUL, outside the local variable.\<close>

definition user_args :: "mem \<Rightarrow> addr \<Rightarrow> addr list \<Rightarrow> u8 list list \<Rightarrow> bool" where
  "user_args m frame args bss \<longleftrightarrow>
     (case (args, bss) of
        ([a0, a1, a2, a3, a4], [b0, b1, b2, b3, b4]) \<Rightarrow>
          let xs = [(0, 15, a0, b0), (15, 15, a1, b1), (30, 10, a2, b2), (40, 10, a3, b3), (50, 20, a4, b4)]
          in fields_ok 0 xs \<and> list_all (source_ok frame 70 m) xs
      | _ \<Rightarrow> False)"

lemma new_user_local:
  assumes "user_args m frame args bss"
  shows "\<exists>m'. copy_fields frame (zip (map fst user_fields) args) (clear_fields frame user_fields m) = Some m'
    \<and> cstr m' frame (bss ! 0) \<and> cstr m' (frame + 15) (bss ! 1) \<and> length (bss ! 0) < 15 \<and> length (bss ! 1) < 15
    \<and> (\<forall>a. (\<forall>y<70. a \<noteq> frame + of_nat y) \<longrightarrow> m' a = m a)"
proof -
  obtain a0 a1 a2 a3 a4 b0 b1 b2 b3 b4 where l: "args = [a0, a1, a2, a3, a4]" "bss = [b0, b1, b2, b3, b4]"
    using assms by (auto simp: user_args_def split: list.splits)
  define xs where "xs = [(0 :: nat, 15 :: nat, a0, b0), (15, 15, a1, b1), (30, 10, a2, b2), (40, 10, a3, b3), (50, 20, a4, b4)]"
  let ?m = "clear_fields frame user_fields m"
  have ok: "fields_ok 0 xs" "\<forall>x\<in>set xs. source_ok frame 70 m x"
    using assms by (simp_all add: user_args_def l xs_def)
  then have "\<forall>x\<in>set xs. source_ok frame 70 ?m x" using source_ok_keep clear_user_fields(2) by blast
  moreover have "\<forall>(off, sz, _, _)\<in>set xs. \<forall>y < sz. ?m (frame + of_nat (off + y)) = 0"
    by (auto simp: xs_def simp del: of_nat_add of_nat_numeral intro!: clear_user_fields(1))
  ultimately obtain m' where m': "copy_fields frame (map (\<lambda>(off, sz, src, bs). (off, src)) xs) ?m = Some m'"
    "\<forall>(off, sz, src, bs)\<in>set xs. cstr m' (frame + of_nat off) bs"
    "\<forall>y<2 ^ 32. y < 0 \<or> 70 \<le> y \<longrightarrow> m' (frame + of_nat y) = ?m (frame + of_nat y)"
    using copy_fields_correct [OF ok(1), of frame 70 ?m] by auto
  have "m' a = m a" if a: "\<forall>y<70. a \<noteq> frame + of_nat y" for a
  proof -
    define y where "y = unat (a - frame)"
    have y: "a = frame + of_nat y" "y < 2 ^ 32" using unsigned_less [of "a - frame", where ?'a = nat] by (simp_all add: y_def)
    then have "70 \<le> y" using a by (metis not_le)
    then show ?thesis using m'(3) y clear_user_fields(2) [OF a] by simp
  qed
  moreover have "zip (map fst user_fields) args = map (\<lambda>(off, sz, src, bs). (off, src)) xs"
    by (simp add: user_fields_def l xs_def)
  ultimately show ?thesis using m'(1,2) ok(1) by (simp add: l xs_def)
qed

text \<open>
  A user with strings that fit their fields is added behind the others, who stay as they are, and nothing is written but
  the local variable and the table, as long as the table has room.
\<close>

lemma addNewUser_appends:
  assumes "users_at m ua us" and "length us < MAX_USERS" and "user_args m frame args bss" and "separate frame 70 ua 350"
  shows "\<exists>m'. addNewUser ua frame args (m, length us) = Some (0, m', Suc (length us)) \<and> users_at m' ua (us @ [(bss ! 0, bss ! 1)])
    \<and> (\<forall>a. (\<forall>y<70. a \<noteq> frame + of_nat y) \<and> (\<forall>y<350. a \<noteq> ua + of_nat y) \<longrightarrow> m' a = m a)"
proof -
  let ?n = "length us"
  obtain m2 where m2: "copy_fields frame (zip (map fst user_fields) args) (clear_fields frame user_fields m) = Some m2"
    "cstr m2 frame (bss ! 0)" "cstr m2 (frame + 15) (bss ! 1)" "length (bss ! 0) < 15" "length (bss ! 1) < 15"
    "\<forall>a. (\<forall>y<70. a \<noteq> frame + of_nat y) \<longrightarrow> m2 a = m a"
    using new_user_local [OF assms(3)] by blast
  define m3 where "m3 = copy_up (user_slot ua ?n) frame 70 m2"
  have slot: "user_slot ua i + of_nat y = ua + of_nat (70 * i + y)" for i y by (simp add: user_slot_def add.assoc)
  have sep: "separate (user_slot ua ?n) 70 frame 70"
    unfolding separate_def
  proof (intro allI impI)
    fix y z :: nat assume "y < 70" "z < 70"
    then show "user_slot ua ?n + of_nat y \<noteq> frame + of_nat z"
      using separateD [OF assms(4), of z "70 * ?n + y"] assms(2) unfolding slot by simp
  qed
  have new: "m3 (user_slot ua ?n + of_nat y) = m2 (frame + of_nat y)" if "y < 70" for y
    using copy_up_separate(1) [OF sep order_refl _ that, of m2] by (simp add: m3_def)
  have other: "m3 a = m2 a" if "\<forall>y<70. a \<noteq> user_slot ua ?n + of_nat y" for a
    using copy_up_separate(2) [OF sep order_refl _ that, of m2] by (simp add: m3_def)
  have old: "m3 (ua + of_nat (70 * i + y)) = m (ua + of_nat (70 * i + y))" if "i < ?n" "y < 70" for i y
  proof -
    have "70 * i + y < 70 * ?n" using that by linarith
    moreover have "ua + of_nat (70 * i + y) \<noteq> ua + of_nat (70 * ?n + z)" if "z < 70" for z
      using region_eq [of "70 * i + y" "70 * ?n + z" ua] assms(2) that \<open>70 * i + y < 70 * ?n\<close> by auto
    moreover have "ua + of_nat (70 * i + y) \<noteq> frame + of_nat z" if "z < 70" for z
    proof -
      have "70 * i + y < 350" using \<open>70 * i + y < 70 * ?n\<close> assms(2) by simp
      then show ?thesis using separateD [OF assms(4) that] by metis
    qed
    ultimately show ?thesis using other [of "ua + of_nat (70 * i + y)"] m2(6) unfolding slot by simp
  qed
  have "addNewUser ua frame args (m, ?n) = Some (0, m3, Suc ?n)"
    using m2(1) by (simp add: addNewUser_def memcpy_def m3_def)
  moreover have "users_at m3 ua (us @ [(bss ! 0, bss ! 1)])"
    unfolding users_at_def
  proof (intro allI impI)
    fix i assume i: "i < length (us @ [(bss ! 0, bss ! 1)])"
    show "cstr m3 (user_slot ua i) (fst ((us @ [(bss ! 0, bss ! 1)]) ! i)) \<and> cstr m3 (user_slot ua i + 15) (snd ((us @ [(bss ! 0, bss ! 1)]) ! i))
      \<and> length (fst ((us @ [(bss ! 0, bss ! 1)]) ! i)) < 15 \<and> length (snd ((us @ [(bss ! 0, bss ! 1)]) ! i)) < 15"
    proof (cases "i < ?n")
      case True
      then have u: "cstr m (user_slot ua i) (fst (us ! i))" "cstr m (user_slot ua i + 15) (snd (us ! i))"
        "length (fst (us ! i)) < 15" "length (snd (us ! i)) < 15" using assms(1) by (auto simp: users_at_def)
      have keep: "m3 (user_slot ua i + of_nat y) = m (user_slot ua i + of_nat y)" if "y < 70" for y
        using old [OF True that] by (simp only: slot)
      have "cstr m3 (user_slot ua i) (fst (us ! i))" using u(1,3) keep by (subst cstr_cong) auto
      moreover have "cstr m3 (user_slot ua i + 15) (snd (us ! i))"
        using u(2,4) keep [of "15 + y" for y] by (subst cstr_cong [of _ m3 _ m]) (simp_all add: add.assoc)
      ultimately show ?thesis using True u(3,4) by (simp add: nth_append)
    next
      case False
      then have i: "i = ?n" using i by simp
      have "cstr m3 (user_slot ua ?n) (bss ! 0) = cstr m2 frame (bss ! 0)" using new m2(4) by (intro cstr_moved) auto
      moreover have "cstr m3 (user_slot ua ?n + 15) (bss ! 1) = cstr m2 (frame + 15) (bss ! 1)"
        using new [of "15 + y" for y] m2(5) by (intro cstr_moved) (simp add: add.assoc)
      ultimately show ?thesis using m2(2-5) by (simp add: i)
    qed
  qed
  moreover have "m3 a = m a" if a: "\<forall>y<70. a \<noteq> frame + of_nat y" "\<forall>y<350. a \<noteq> ua + of_nat y" for a
  proof -
    have "a \<noteq> user_slot ua ?n + of_nat y" if "y < 70" for y
      using a(2) [rule_format, of "70 * ?n + y"] assms(2) that unfolding slot by simp
    then show ?thesis using other m2(6) a(1) by simp
  qed
  ultimately show ?thesis by blast
qed

section \<open>Logging in\<close>

text \<open>A user whose strings are neither in the local variable nor in the table.\<close>

definition new_user :: "mem \<Rightarrow> addr \<Rightarrow> addr \<Rightarrow> addr list \<Rightarrow> u8 list list \<Rightarrow> bool" where
  "new_user m frame ua args bss \<longleftrightarrow>
     user_args m frame args bss \<and> list_all2 (\<lambda>a b. separate ua 350 a (Suc (length b))) args bss"

lemma new_user_keep:
  assumes "new_user m frame ua args bss"
    and "\<And>a. (\<forall>y<70. a \<noteq> frame + of_nat y) \<and> (\<forall>y<350. a \<noteq> ua + of_nat y) \<Longrightarrow> m' a = m a"
  shows "new_user m' frame ua args bss"
proof -
  have "cstr m' a b" if "cstr m a b" "separate frame 70 a (Suc (length b))" "separate ua 350 a (Suc (length b))" for a b
  proof -
    have "m' (a + of_nat i) = m (a + of_nat i)" if "i \<le> length b" for i
      using separateD [OF \<open>separate frame 70 a (Suc (length b))\<close>, of _ i] separateD [OF \<open>separate ua 350 a (Suc (length b))\<close>, of _ i] that
      by (intro assms(2)) (metis less_Suc_eq_le)
    then show ?thesis using \<open>cstr m a b\<close> cstr_cong [of b m' a m] by simp
  qed
  then show ?thesis
    using assms(1) by (auto simp: new_user_def user_args_def source_ok_def Let_def split: list.splits)
qed

lemma add_users_appends:
  assumes "users_at m ua us" and "length us + length strs \<le> MAX_USERS" and "separate frame 70 ua 350"
    and "list_all2 (new_user m frame ua) argss strs"
  shows "\<exists>m'. add_users ua frame argss (m, length us) = Some (m', length us + length strs)
    \<and> users_at m' ua (us @ map (\<lambda>b. (b ! 0, b ! 1)) strs)"
  using assms(1,2,4)
proof (induction strs arbitrary: argss us m)
  case Nil
  then show ?case by simp
next
  case (Cons b strs)
  then obtain args rest where a: "argss = args # rest" "new_user m frame ua args b" "list_all2 (new_user m frame ua) rest strs"
    by (auto simp: list_all2_Cons2)
  then have "user_args m frame args b" "length us < MAX_USERS" using Cons.prems(2) by (auto simp: new_user_def)
  from addNewUser_appends [OF Cons.prems(1) this(2,1) assms(3)] obtain m' where
    m': "addNewUser ua frame args (m, length us) = Some (0, m', Suc (length us))" "users_at m' ua (us @ [(b ! 0, b ! 1)])"
    "\<forall>a. (\<forall>y<70. a \<noteq> frame + of_nat y) \<and> (\<forall>y<350. a \<noteq> ua + of_nat y) \<longrightarrow> m' a = m a" by blast
  have "list_all2 (new_user m' frame ua) rest strs"
    using a(3) new_user_keep m'(3) by (metis (no_types, lifting) list.rel_mono_strong)
  then show ?case
    using Cons.IH [OF m'(2), of rest] Cons.prems(2) m'(1) by (simp add: a(1))
qed

lemma users_at_cong:
  assumes "\<forall>y<350. m' (ua + of_nat y) = m (ua + of_nat y)" and "length us \<le> MAX_USERS" and "users_at m ua us"
  shows "users_at m' ua us"
  unfolding users_at_def
proof (intro allI impI)
  fix i assume i: "i < length us"
  then have u: "cstr m (user_slot ua i) (fst (us ! i))" "cstr m (user_slot ua i + 15) (snd (us ! i))"
    "length (fst (us ! i)) < 15" "length (snd (us ! i)) < 15" using assms(3) by (auto simp: users_at_def)
  have keep: "m' (user_slot ua i + of_nat y) = m (user_slot ua i + of_nat y)" if "y < 70" for y
    using assms(1) [rule_format, of "70 * i + y"] assms(2) i that by (simp add: user_slot_def add.assoc)
  have "cstr m' (user_slot ua i) (fst (us ! i))" using u(1,3) keep by (subst cstr_cong) auto
  moreover have "cstr m' (user_slot ua i + 15) (snd (us ! i))"
    using u(2,4) keep [of "15 + y" for y] by (subst cstr_cong [of _ m' _ m]) (simp_all add: add.assoc)
  ultimately show "cstr m' (user_slot ua i) (fst (us ! i)) \<and> cstr m' (user_slot ua i + 15) (snd (us ! i))
      \<and> length (fst (us ! i)) < 15 \<and> length (snd (us ! i)) < 15" using u(3,4) by blast
qed

text \<open>
  C30: after up to five users have been added, with strings that are not empty (\<^verbatim>\<open>strcpy\<close> would read on) and fit their fields,
  the shell lets in exactly who gives the name of a user and the password of the first user of that name, whatever else the
  memory holds; each comparison comes to an end.
\<close>

theorem login_correct:
  assumes "list_all2 (new_user m frame ua) argss strs" and "length strs \<le> MAX_USERS" and "separate frame 70 ua 350"
  shows "\<exists>m'. add_users ua frame argss (m, 0) = Some (m', length strs)
    \<and> (\<forall>m2 username password nm pw. (\<forall>y<350. m2 (ua + of_nat y) = m' (ua + of_nat y)) \<and> cstr m2 username nm \<and> cstr m2 password pw \<longrightarrow>
         compareUserPass ua (m2, length strs) username password
           = Some (if map_of (map (\<lambda>b. (b ! 0, b ! 1)) strs) nm = Some pw then 1 else 0))"
proof -
  let ?us = "map (\<lambda>b. (b ! 0, b ! 1)) strs"
  obtain m' where m': "add_users ua frame argss (m, 0) = Some (m', length strs)" "users_at m' ua ?us"
    using add_users_appends [of m ua "[]" strs frame argss] assms by (auto simp: users_at_def)
  moreover have "compareUserPass ua (m2, length strs) username password = Some (if map_of ?us nm = Some pw then 1 else 0)"
    if "\<forall>y<350. m2 (ua + of_nat y) = m' (ua + of_nat y)" "cstr m2 username nm" "cstr m2 password pw" for m2 username password nm pw
  proof -
    have "users_at m2 ua ?us" by (rule users_at_cong [OF that(1)]) (use m'(2) assms(2) in simp_all)
    from login_result [OF this that(2,3)] show ?thesis by simp
  qed
  ultimately show ?thesis by blast
qed

lemma login_correct_witness:
  "\<exists>m'. add_users 0x2000 0x1000 [[0x200, 0x200, 0x200, 0x200, 0x200]] ((\<lambda>a. if a = 0x200 then 65 else 0), 0) = Some (m', 1)
    \<and> compareUserPass 0x2000 (\<lambda>a. if a = 0x200 then 65 else if a = 0x201 then 0 else m' a, 1) 0x200 0x200 = Some 1"
proof -
  let ?m = "\<lambda>a :: addr. if a = 0x200 then 65 else 0 :: u8"
  have sep: "separate 0x1000 70 0x200 2" "separate 0x2000 350 0x200 2" by (rule separate_below; simp)+
  have "separate 0x2000 350 0x1000 70" by (rule separate_below) simp_all
  then have tab: "separate 0x1000 70 0x2000 350" by (rule separate_sym)
  have "list_all2 (new_user ?m 0x1000 0x2000) [[0x200, 0x200, 0x200, 0x200, 0x200]] [[[65], [65], [65], [65], [65]]]"
    using sep by (simp add: new_user_def user_args_def source_ok_def numeral_2_eq_2 [symmetric])
  from login_correct [OF this _ tab] obtain m' where m':
    "add_users 0x2000 0x1000 [[0x200, 0x200, 0x200, 0x200, 0x200]] (?m, 0) = Some (m', 1)"
    "\<And>m2 username password nm pw. \<forall>y<350. m2 (0x2000 + of_nat y) = m' (0x2000 + of_nat y) \<Longrightarrow> cstr m2 username nm \<Longrightarrow> cstr m2 password pw \<Longrightarrow>
       compareUserPass 0x2000 (m2, 1) username password = Some (if map_of [([65], [65])] nm = Some pw then 1 else 0)"
    by auto
  let ?m2 = "\<lambda>a. if a = 0x200 then 65 else if a = 0x201 then 0 else m' a"
  have far: "(0x2000 :: addr) + of_nat y \<noteq> 0x200 + of_nat j" if "y < 350" "j < 2" for y j
    using separateD [OF sep(2) that] .
  have "\<forall>y<350. ?m2 (0x2000 + of_nat y) = m' (0x2000 + of_nat y)"
    using far [of _ 0] far [of _ 1] by simp
  from m'(2) [OF this, of "0x200" "[65]" "0x200" "[65]"] show ?thesis using m'(1) by auto
qed

end
