(* ===== verification/Kscanf.thy ===== *)
theory Kscanf
  imports Terminal C_Convert Byte_Words
begin

text \<open>
  Reading a line from the keyboard, \<^verbatim>\<open>libc/stdio/kscanf.c\<close>. The state is the console, the byte memory and the codes that the
  keyboard is going to deliver. \<open>rd\<close> is what the local variable of that name in \<^verbatim>\<open>mgets\<close>, which is read before it is set, happens
  to hold, and \<open>buff\<close> is the address of the local buffer of \<^verbatim>\<open>read_int\<close>.
\<close>

section \<open>Operations\<close>

record io =
  io_con :: console
  io_mem :: mem
  io_ports :: "u8 list"

text \<open>The loop of \<^verbatim>\<open>mgets\<close> returns the pointer; \<open>None\<close> if no newline comes.\<close>

partial_function (option) mgets_loop :: "(arrow \<Rightarrow> console \<Rightarrow> console) \<Rightarrow> addr \<Rightarrow> io \<Rightarrow> (addr \<times> io) option" where
  "mgets_loop keys ptr s =
     (case getChar keys (io_ports s) (io_con s) of
        None \<Rightarrow> None
      | Some (c, ports, t) \<Rightarrow>
          if c = 10 then Some (ptr, s\<lparr>io_con := t, io_ports := ports\<rparr>)
          else mgets_loop keys (if c = 8 then ptr - 1 else ptr + 1)
            (s\<lparr>io_con := monPut c t, io_mem := (io_mem s)(ptr := (if c = 8 then 32 else c)), io_ports := ports\<rparr>))"

definition mgets :: "(arrow \<Rightarrow> console \<Rightarrow> console) \<Rightarrow> u32 \<Rightarrow> addr \<Rightarrow> io \<Rightarrow> (addr \<times> io) option" where
  "mgets keys rd p s =
     (if rd = 10 then Some (p, s\<lparr>io_mem := (io_mem s)(p := 0)\<rparr>)
      else map_option (\<lambda>(ptr, s). (p, s\<lparr>io_mem := (io_mem s)(ptr := 0)\<rparr>))
             (mgets_loop keys p (s\<lparr>io_mem := (io_mem s)(p := ucast rd)\<rparr>)))"

text \<open>The result is stored as 8 bytes, whatever the variable is.\<close>

definition read_int :: "(arrow \<Rightarrow> console \<Rightarrow> console) \<Rightarrow> u32 \<Rightarrow> addr \<Rightarrow> addr \<Rightarrow> io \<Rightarrow> (int \<times> io) option" where
  "read_int keys rd buff var_addr s =
     (case mgets keys rd buff s of None \<Rightarrow> None
      | Some (_, s) \<Rightarrow>
          (case atoi (io_mem s) buff of None \<Rightarrow> None
           | Some temp \<Rightarrow>
               if temp = -1 then Some (-1, s)
               else Some (0, s\<lparr>io_mem := put32 (var_addr + 4) (if temp < 0 then 0xFFFFFFFF else 0)
                                  (put32 var_addr (of_int temp) (io_mem s))\<rparr>)))"

definition read_str :: "(arrow \<Rightarrow> console \<Rightarrow> console) \<Rightarrow> u32 \<Rightarrow> addr \<Rightarrow> io \<Rightarrow> (int \<times> io) option" where
  "read_str keys rd var_addr s = map_option (\<lambda>(_, s). (0, s)) (mgets keys rd var_addr s)"

text \<open>
  The loop of \<^verbatim>\<open>kscanf\<close> over the format, without its NUL. A character other than a per cent sign, and one at the end, is never
  stepped over: \<open>None\<close>. Every conversion stores to the one address taken from the arguments.
\<close>

fun kscanf_loop :: "(arrow \<Rightarrow> console \<Rightarrow> console) \<Rightarrow> u32 \<Rightarrow> addr \<Rightarrow> addr \<Rightarrow> u8 list \<Rightarrow> int \<Rightarrow> io \<Rightarrow> (int \<times> io) option" where
  "kscanf_loop keys rd buff dest [] ret_val s = Some (ret_val, s)"
| "kscanf_loop keys rd buff dest [c] ret_val s = None"
| "kscanf_loop keys rd buff dest (c # d # str) ret_val s =
     (if c \<noteq> 37 then None
      else if d = 100
      then (case read_int keys rd buff dest s of None \<Rightarrow> None
            | Some (r, s) \<Rightarrow> if r = -1 then Some (r, s) else kscanf_loop keys rd buff dest str r s)
      else if d = 115
      then (case read_str keys rd dest s of None \<Rightarrow> None
            | Some (r, s) \<Rightarrow> if r = -1 then Some (r, s) else kscanf_loop keys rd buff dest str r s)
      else kscanf_loop keys rd buff dest str ret_val s)"

definition kscanf :: "(arrow \<Rightarrow> console \<Rightarrow> console) \<Rightarrow> u32 \<Rightarrow> addr \<Rightarrow> u8 list \<Rightarrow> addr \<Rightarrow> io \<Rightarrow> (int \<times> io) option" where
  "kscanf keys rd buff format dest s = kscanf_loop keys rd buff dest format 0 s"

section \<open>The line that is read\<close>

text \<open>A key with a character, as it is without shift.\<close>

definition plain_key :: "u8 \<Rightarrow> bool" where
  "plain_key k \<longleftrightarrow> k < 128 \<and> k \<notin> {0x2a, 0x36, 0x3a, 0x48, 0x50, 0x4b, 0x4d, 0x38, 0x1d, 0x5b, 0x5c}"

definition key_char :: "u8 \<Rightarrow> u8" where
  "key_char k = kbdus ! unat k"

text \<open>The line editor: a backspace erases the last character.\<close>

fun edit_line :: "u8 list \<Rightarrow> u8 list \<Rightarrow> u8 list" where
  "edit_line acc [] = acc"
| "edit_line acc (c # cs) = edit_line (if c = 8 then butlast acc else acc @ [c]) cs"

fun erases_within :: "nat \<Rightarrow> u8 list \<Rightarrow> bool" where
  "erases_within n [] \<longleftrightarrow> True"
| "erases_within n (c # cs) \<longleftrightarrow> (if c = 8 then 0 < n \<and> erases_within (n - 1) cs else erases_within (n + 1) cs)"

lemma shiftKey_monPut [simp]: "shiftKey (monPut c t) = shiftKey t"
  by (simp add: monPut_def handle_char_def put_backspace_def put_at_cursor_def monPutchar_def monPutEntryAt_def scroll_def
      move_cursor_def Let_def)

lemma getChar_plain:
  assumes "plain_key k" and "shiftKey t = 0"
  shows "\<exists>t'. getChar keys (k # ports) t = Some (key_char k, ports, t') \<and> shiftKey t' = 0"
  using getKbCode_character [of k keys "t\<lparr>isButtonPressed := 0, isNextCharReady := 0\<rparr>"] assms
  by (simp add: getChar_def key_char_def plain_key_def)

lemma mgets_loop_edits:
  assumes "\<forall>k\<in>set ks. plain_key k \<and> key_char k \<noteq> 10 \<and> key_char k \<noteq> 0" and "shiftKey (io_con s) = 0"
    and "io_ports s = ks @ 0x1c # rest" and "erases_within (length acc) (map key_char ks)"
    and "\<forall>i<length acc. io_mem s (p + of_nat i) = acc ! i" and "0 \<notin> set acc" and "length acc + length ks < 2 ^ 32"
  shows "\<exists>s'. mgets_loop keys (p + of_nat (length acc)) s = Some (p + of_nat (length (edit_line acc (map key_char ks))), s')
    \<and> (\<forall>i<length (edit_line acc (map key_char ks)). io_mem s' (p + of_nat i) = edit_line acc (map key_char ks) ! i)
    \<and> 0 \<notin> set (edit_line acc (map key_char ks)) \<and> io_ports s' = rest
    \<and> length (edit_line acc (map key_char ks)) \<le> length acc + length ks
    \<and> (\<forall>a. (\<forall>x\<le>length acc + length ks. a \<noteq> p + of_nat x) \<longrightarrow> io_mem s' a = io_mem s a)"
  using assms
proof (induction ks arbitrary: acc s)
  case Nil
  have "plain_key 0x1c" "key_char 0x1c = 10" by (simp_all add: plain_key_def key_char_def kbdus_def)
  then show ?case
    using Nil getChar_plain [of "0x1c" "io_con s" keys rest] by (auto simp: mgets_loop.simps [of keys _ s])
next
  case (Cons k ks)
  obtain t where t: "getChar keys (io_ports s) (io_con s) = Some (key_char k, ks @ 0x1c # rest, t)" "shiftKey t = 0"
    using getChar_plain [of k "io_con s" keys "ks @ 0x1c # rest"] Cons.prems(1,2,3) by auto
  let ?c = "key_char k" and ?ptr = "p + of_nat (length acc)"
  let ?acc = "if ?c = 8 then butlast acc else acc @ [?c]"
  let ?s = "s\<lparr>io_con := monPut ?c t, io_mem := (io_mem s)(?ptr := (if ?c = 8 then 32 else ?c)), io_ports := ks @ 0x1c # rest\<rparr>"
  have step: "mgets_loop keys ?ptr s = mgets_loop keys (p + of_nat (length ?acc)) ?s"
  proof -
    have "0 < length acc" if "?c = 8" using Cons.prems(4) that by simp
    then have "(if ?c = 8 then ?ptr - 1 else ?ptr + 1) = p + of_nat (length ?acc)"
      by (auto simp: of_nat_diff algebra_simps Suc_le_eq)
    then show ?thesis using t(1) Cons.prems(1) by (subst mgets_loop.simps) auto
  qed
  have stored: "\<forall>i<length ?acc. io_mem ?s (p + of_nat i) = ?acc ! i"
  proof (intro allI impI)
    fix i assume i: "i < length ?acc"
    show "io_mem ?s (p + of_nat i) = ?acc ! i"
    proof (cases "i < length acc")
      case True
      then have "p + of_nat i \<noteq> ?ptr" using region_eq [of i "length acc" p] Cons.prems(7) by auto
      then show ?thesis using True Cons.prems(5) i by (auto simp: nth_butlast nth_append)
    next
      case False
      then have "?c \<noteq> 8 \<and> i = length acc" using i by (auto split: if_splits)
      then show ?thesis by simp
    qed
  qed
  have "length ?acc + length ks < 2 ^ 32" "length ?acc + length ks \<le> length acc + length (k # ks)" using Cons.prems(7) by auto
  moreover have "0 \<notin> set ?acc" using Cons.prems(1,6) by (auto dest: in_set_butlastD)
  moreover have "erases_within (length ?acc) (map key_char ks)" using Cons.prems(4) by (auto split: if_splits)
  moreover have "io_mem ?s a = io_mem s a" if "\<forall>x\<le>length acc + length (k # ks). a \<noteq> p + of_nat x" for a
    using that [rule_format, of "length acc"] by simp
  ultimately show ?case
    using Cons.IH [of ?s ?acc] Cons.prems(1) t(2) stored unfolding step by fastforce
qed

text \<open>
  C29: a line of keys without shift, ended by the enter key, arrives in the buffer as the line that the backspaces leave, with its
  NUL, if the variable \<^verbatim>\<open>rd\<close> does not happen to hold a newline and no backspace erases beyond the start. Nothing bounds the line:
  whatever is behind the buffer is overwritten by a longer one, and by nothing else.
\<close>

theorem mgets_line:
  assumes "\<forall>k\<in>set ks. plain_key k \<and> key_char k \<noteq> 10 \<and> key_char k \<noteq> 0" and "shiftKey (io_con s) = 0"
    and "io_ports s = ks @ 0x1c # rest" and "erases_within 0 (map key_char ks)" and "length ks < 2 ^ 32" and "rd \<noteq> 10"
  shows "\<exists>s'. mgets keys rd p s = Some (p, s') \<and> cstr (io_mem s') p (edit_line [] (map key_char ks)) \<and> io_ports s' = rest
    \<and> (\<forall>a. (\<forall>x\<le>length ks. a \<noteq> p + of_nat x) \<longrightarrow> io_mem s' a = io_mem s a)"
proof -
  let ?s = "s\<lparr>io_mem := (io_mem s)(p := ucast rd)\<rparr>" and ?l = "edit_line [] (map key_char ks)"
  obtain s' where s': "mgets_loop keys p ?s = Some (p + of_nat (length ?l), s')" "\<forall>i<length ?l. io_mem s' (p + of_nat i) = ?l ! i"
    "0 \<notin> set ?l" "io_ports s' = rest" "length ?l \<le> length ks"
    "\<forall>a. (\<forall>x\<le>length ks. a \<noteq> p + of_nat x) \<longrightarrow> io_mem s' a = io_mem ?s a"
    using mgets_loop_edits [of ks ?s rest "[]" p keys] assms by auto
  let ?s' = "s'\<lparr>io_mem := (io_mem s')(p + of_nat (length ?l) := 0)\<rparr>"
  have "cstr (io_mem ?s') p ?l"
  proof (rule cstrI)
    fix i assume "i < length ?l"
    then have "p + of_nat i \<noteq> p + of_nat (length ?l)" using region_eq [of i "length ?l" p] s'(5) assms(5) by auto
    then show "io_mem ?s' (p + of_nat i) = ?l ! i" using s'(2) \<open>i < length ?l\<close> by simp
  qed (use s'(3) in auto)
  moreover have "io_mem ?s' a = io_mem s a" if a: "\<forall>x\<le>length ks. a \<noteq> p + of_nat x" for a
    using s'(6) a s'(5) a [rule_format, of 0] by simp
  moreover have "mgets keys rd p s = Some (p, ?s')" using s'(1) assms(6) by (simp add: mgets_def)
  ultimately show ?thesis using s'(4) by auto
qed

lemma mgets_line_witness:
  "\<exists>s'. mgets cursor_keys 0 0x100 \<lparr>io_con = blank_screen, io_mem = (\<lambda>_. 1), io_ports = [0x23, 0x24, 0x0e, 0x17, 0x1c]\<rparr> = Some (0x100, s')
    \<and> cstr (io_mem s') 0x100 [104, 105] \<and> io_ports s' = []"
  using mgets_line [of "[0x23, 0x24, 0x0e, 0x17]" "\<lparr>io_con = blank_screen, io_mem = (\<lambda>_. 1), io_ports = [0x23, 0x24, 0x0e, 0x17, 0x1c]\<rparr>"
      "[]" 0 cursor_keys "0x100"]
  by (auto simp: plain_key_def key_char_def kbdus_def)

end
