(* ===== verification/Shell.thy ===== *)
theory Shell
  imports Users Kscanf Interrupts "HOL-Library.Signed_Division"
begin

text \<open>
  The command table of the shell and the login, \<^verbatim>\<open>video/shell.c\<close> and \<^verbatim>\<open>include/shell.h\<close>, and the calculator, \<^verbatim>\<open>video/calc.c\<close>. The
  table is a region of the byte memory at \<open>ca\<close> with 36 bytes for each command: 25 for the name, 3 unused, the function and
  the description. The messages in the three languages are left out.
\<close>

section \<open>Commands\<close>

definition SIZEOF_COMMAND :: nat where [simp]: "SIZEOF_COMMAND = 36"
definition SIZEOF_LANG :: nat where [simp]: "SIZEOF_LANG = 450"

definition command_slot :: "addr \<Rightarrow> nat \<Rightarrow> addr" where
  "command_slot ca i = ca + of_nat (SIZEOF_COMMAND * i)"

text \<open>\<open>frame\<close> is the address of the local variable \<^verbatim>\<open>shcmd\<close>, \<open>func\<close> that of the function, \<open>n\<close> is \<^verbatim>\<open>cmdArrayIndex\<close>.\<close>

definition add_shell_command ::
  "addr \<Rightarrow> addr \<Rightarrow> addr \<Rightarrow> addr \<Rightarrow> addr \<Rightarrow> mem \<times> nat \<Rightarrow> (int \<times> mem \<times> nat) option" where
  "add_shell_command ca frame cmname func description = (\<lambda>(m, n).
     case strcpy (fst (memset m frame 0 25)) frame cmname of None \<Rightarrow> None
     | Some (m, _) \<Rightarrow>
         let m = put32 (frame + 32) description (put32 (frame + 28) func m)
         in Some (0, fst (memcpy m (command_slot ca n) frame (of_nat SIZEOF_COMMAND)), n + 1))"

text \<open>The description is returned by value, to \<open>dest\<close>.\<close>

definition add_language_desc :: "addr \<Rightarrow> addr \<Rightarrow> addr \<Rightarrow> addr \<Rightarrow> addr \<Rightarrow> mem \<Rightarrow> mem option" where
  "add_language_desc frame dest greek spanish english m =
     (case copy_fields frame [(0, greek), (150, spanish), (300, english)]
             (clear_fields frame [(0, 150), (150, 150), (300, 150)] m) of None \<Rightarrow> None
      | Some m \<Rightarrow> Some (fst (memcpy m dest frame (of_nat SIZEOF_LANG))))"

text \<open>\<open>nil_lit\<close> and \<open>blank_lit\<close> are the addresses of the literals \<^verbatim>\<open>""\<close> and \<^verbatim>\<open>" "\<close>.\<close>

fun find_from :: "addr \<Rightarrow> addr \<Rightarrow> addr \<Rightarrow> mem \<Rightarrow> addr \<Rightarrow> nat list \<Rightarrow> int option" where
  "find_from ca nil_lit blank_lit m command_name [] = Some (-1)"
| "find_from ca nil_lit blank_lit m command_name (i # is) =
     (case strcmp m command_name nil_lit of None \<Rightarrow> None
      | Some a \<Rightarrow> if a = 0 then Some (-2)
     else (case strcmp m command_name blank_lit of None \<Rightarrow> None
      | Some b \<Rightarrow> if b = 0 then Some (-2)
     else (case strcmp m (command_slot ca i) command_name of None \<Rightarrow> None
      | Some r \<Rightarrow> if r = 0 then Some (int i) else find_from ca nil_lit blank_lit m command_name is)))"

definition find_command :: "addr \<Rightarrow> addr \<Rightarrow> addr \<Rightarrow> mem \<times> nat \<Rightarrow> addr \<Rightarrow> int option" where
  "find_command ca nil_lit blank_lit = (\<lambda>(m, n) command_name. find_from ca nil_lit blank_lit m command_name [0..<n])"

text \<open>\<open>func\<close> and \<open>cmname\<close> are the fields of the copy of the command that is passed.\<close>

definition executeCommand ::
  "addr \<Rightarrow> addr \<Rightarrow> addr \<Rightarrow> addr \<Rightarrow> addr \<Rightarrow> addr \<Rightarrow> 'a machine_scheme \<Rightarrow> (int \<times> 'a machine_scheme) option" where
  "executeCommand ks ke stacks leave func cmname s =
     (case create_kernel_task ks ke stacks leave func cmname NORMAL_PRIO (s\<lparr>con := monInit (con s)\<rparr>) of None \<Rightarrow> None
      | Some (_, _, s) \<Rightarrow> Some (0, s\<lparr>con := monInit (con s)\<rparr>))"

text \<open>
  The commands of \<^verbatim>\<open>addAllShellCommands\<close>: \<open>descs\<close> has for each the address of its local description and of the three
  literals, \<open>names\<close> the literal and the function. The addresses of the local variables are what the table keeps.
\<close>

fun add_descs :: "addr \<Rightarrow> (addr \<times> addr \<times> addr \<times> addr) list \<Rightarrow> mem \<Rightarrow> mem option" where
  "add_descs frame [] m = Some m"
| "add_descs frame ((dest, greek, spanish, english) # descs) m =
     (case add_language_desc frame dest greek spanish english m of None \<Rightarrow> None | Some m \<Rightarrow> add_descs frame descs m)"

fun add_commands :: "addr \<Rightarrow> addr \<Rightarrow> (addr \<times> addr \<times> addr) list \<Rightarrow> mem \<times> nat \<Rightarrow> (mem \<times> nat) option" where
  "add_commands ca frame [] s = Some s"
| "add_commands ca frame ((cmname, func, desc) # cmds) s =
     (case add_shell_command ca frame cmname func desc s of None \<Rightarrow> None
      | Some (_, s) \<Rightarrow> add_commands ca frame cmds s)"

definition addAllShellCommands ::
  "addr \<Rightarrow> addr \<Rightarrow> addr \<Rightarrow> (addr \<times> addr \<times> addr \<times> addr) list \<Rightarrow> (addr \<times> addr) list \<Rightarrow> mem \<times> nat \<Rightarrow> (int \<times> mem \<times> nat) option" where
  "addAllShellCommands ca cframe lframe descs names = (\<lambda>(m, n).
     case add_descs lframe descs m of None \<Rightarrow> None
     | Some m \<Rightarrow> map_option (Pair 0) (add_commands ca cframe (map2 (\<lambda>(cm, f) d. (cm, f, fst d)) names descs) (m, n)))"

section \<open>Login\<close>

text \<open>The loop of \<^verbatim>\<open>shell_main\<close> that asks for the name and the password, without its messages; \<^verbatim>\<open>"%s"\<close> is given by its bytes.\<close>

partial_function (option) login_loop ::
  "(arrow \<Rightarrow> console \<Rightarrow> console) \<Rightarrow> u32 \<Rightarrow> addr \<Rightarrow> addr \<Rightarrow> nat \<Rightarrow> addr \<Rightarrow> addr \<Rightarrow> io \<Rightarrow> io option" where
  "login_loop keys rd buff ua n username password s =
     (case kscanf keys rd buff [37, 115] username s of None \<Rightarrow> None
      | Some (_, s) \<Rightarrow>
     (case kscanf keys rd buff [37, 115] password s of None \<Rightarrow> None
      | Some (_, s) \<Rightarrow>
     (case compareUserPass ua (io_mem s, n) username password of None \<Rightarrow> None
      | Some r \<Rightarrow> if r = 0 then login_loop keys rd buff ua n username password s else Some s)))"

section \<open>The calculator\<close>

datatype calculation = Result int | Wrong_Operator

text \<open>The switch of \<^verbatim>\<open>calc_main\<close>: what it prints. Overflow and the division by 0 are undefined: \<open>None\<close>.\<close>

definition calculate :: "int \<Rightarrow> int \<Rightarrow> int \<Rightarrow> calculation option" where
  "calculate operator firstNumber secondNumber =
     (if operator = 1 then map_option Result (int_checked (firstNumber + secondNumber))
      else if operator = 2 then map_option Result (int_checked (firstNumber - secondNumber))
      else if operator = 3 then map_option Result (int_checked (firstNumber * secondNumber))
      else if operator = 4
      then (if secondNumber = 0 then None else map_option Result (int_checked (firstNumber sdiv secondNumber)))
      else Some Wrong_Operator)"

section \<open>Finding a command\<close>

definition commands_at :: "mem \<Rightarrow> addr \<Rightarrow> u8 list list \<Rightarrow> bool" where
  "commands_at m ca names \<longleftrightarrow> (\<forall>i<length names. cstr m (command_slot ca i) (names ! i))"

text \<open>The position of the first occurrence.\<close>

fun first_at :: "nat \<Rightarrow> u8 list list \<Rightarrow> u8 list \<Rightarrow> int" where
  "first_at k [] c = -1"
| "first_at k (x # xs) c = (if x = c then int k else first_at (Suc k) xs c)"

lemma find_from_first:
  assumes "commands_at m ca names" and "cstr m command_name c" and "cstr m nil_lit []" and "cstr m blank_lit [32]"
    and "c \<noteq> []" and "c \<noteq> [32]" and "k \<le> length names"
  shows "find_from ca nil_lit blank_lit m command_name [k..<length names] = Some (first_at k (drop k names) c)"
  using assms(7)
proof (induction "length names - k" arbitrary: k)
  case 0
  then show ?case by simp
next
  case (Suc n)
  then have k: "k < length names" by simp
  then have "[k..<length names] = k # [Suc k..<length names]" "drop k names = names ! k # drop (Suc k) names"
    by (simp_all add: upt_conv_Cons Cons_nth_drop_Suc)
  moreover have "strcmp m (command_slot ca k) command_name = Some (if names ! k = c then 0 else 1)"
    using strcmp_cstr assms(1,2) k by (auto simp: commands_at_def)
  ultimately show ?case
    using Suc.hyps(1) [of "Suc k"] Suc.hyps(2) k strcmp_cstr [OF assms(2,3)] strcmp_cstr [OF assms(2,4)] assms(5,6) by simp
qed

text \<open>
  C39: in a table that is not empty, \<^verbatim>\<open>find_command\<close> returns -2 for an empty line and for one blank, the position of the first
  command of the given name, and -1 if there is none; it always returns.
\<close>

theorem find_command_first:
  assumes "commands_at m ca names" and "cstr m command_name c" and "cstr m nil_lit []" and "cstr m blank_lit [32]" and "names \<noteq> []"
  shows "find_command ca nil_lit blank_lit (m, length names) command_name
    = Some (if c = [] \<or> c = [32] then -2 else first_at 0 names c)"
proof (cases "c = [] \<or> c = [32]")
  case True
  moreover have "[0..<length names] = 0 # [Suc 0..<length names]" using assms(5) by (simp add: upt_conv_Cons)
  ultimately show ?thesis
    using strcmp_cstr [OF assms(2,3)] strcmp_cstr [OF assms(2,4)] by (auto simp: find_command_def)
next
  case False
  then show ?thesis using find_from_first [OF assms(1-4), of 0] by (simp add: find_command_def)
qed

lemma find_command_first_witness:
  "find_command 0x100 0x300 0x400 ((\<lambda>a. if a \<in> {0x124, 0x200} then 66 else if a = 0x100 then 65 else if a = 0x400 then 32 else 0), 2) 0x200
    = Some 1"
proof -
  let ?m = "\<lambda>a :: addr. if a \<in> {0x124, 0x200} then 66 else if a = 0x100 then 65 else if a = 0x400 then 32 else 0 :: u8"
  have "commands_at ?m 0x100 [[65], [66]]"
    unfolding commands_at_def
  proof (intro allI impI)
    fix i assume "i < length [[65], [66 :: u8]]"
    then have "i = 0 \<or> i = 1" by auto
    then show "cstr ?m (command_slot 0x100 i) ([[65], [66]] ! i)" by (auto simp: command_slot_def)
  qed
  from find_command_first [OF this, of "0x200" "[66]" "0x300" "0x400"] show ?thesis by (simp flip: numeral_2_eq_2)
qed

end
