(* ===== verification/Make_Initrd.thy ===== *)
theory Make_Initrd
  imports Byte_Words Fs
begin

unbundle bit_operations_syntax

text \<open>
  The tool that packs the initial ram disk, \<^verbatim>\<open>tools/make_initrd.c\<close>, and the image as the kernel finds it in memory. The tool is
  a function from the mount point and the files, with their contents and names, to the bytes of the image; the files
  are read completely by each call. \<open>junk\<close> is the first byte of the uninitialised buffer that fills a gap.
\<close>

section \<open>The image\<close>

text \<open>\<^verbatim>\<open>strncpy\<close> into a field of zeros.\<close>

definition fixed_name :: "u8 list \<Rightarrow> u8 list" where
  "fixed_name name = take MAX_FILENAME name @ replicate (MAX_FILENAME - length name) 0"

definition le32 :: "u32 \<Rightarrow> u8 list" where
  "le32 v = [ucast v, ucast (drop_bit 8 v), ucast (drop_bit 16 v), ucast (drop_bit 24 v)]"

definition header_bytes :: "u8 list \<Rightarrow> nat \<Rightarrow> u8 list" where
  "header_bytes mount nfiles = le32 INITRD_MAGIC_NUMBER @ le32 (of_nat nfiles) @ fixed_name mount"

definition desc_bytes :: "nat \<times> u8 list \<times> u8 list \<Rightarrow> u8 list" where
  "desc_bytes = (\<lambda>(offset, content, name). le32 (of_nat (length content)) @ le32 (of_nat offset) @ fixed_name name)"

definition HEADER_SIZE :: nat where [simp]: "HEADER_SIZE = 136"
definition DESC_SIZE :: nat where [simp]: "DESC_SIZE = 136"

definition pad_up :: "nat \<Rightarrow> nat" where
  "pad_up offset = (if offset mod 4096 \<noteq> 0 then offset + (4096 - offset mod 4096) else offset)"

text \<open>The first loop gives every file, a content and a name, its offset.\<close>

fun placed :: "nat \<Rightarrow> (u8 list \<times> u8 list) list \<Rightarrow> (nat \<times> u8 list \<times> u8 list) list" where
  "placed offset [] = []"
| "placed offset ((content, name) # fs) =
     (let offset = pad_up offset in (offset, content, name) # placed (offset + length content) fs)"

text \<open>The second loop fills the gap before each file and copies it; \<open>pos\<close> is the position in the image.\<close>

fun data_bytes :: "(nat \<Rightarrow> u8) \<Rightarrow> nat \<Rightarrow> (nat \<times> u8 list \<times> u8 list) list \<Rightarrow> u8 list" where
  "data_bytes junk pos [] = []"
| "data_bytes junk pos ((offset, content, name) # ds) =
     replicate (offset - pos) (junk offset) @ content @ data_bytes junk (max pos offset + length content) ds"

definition make_initrd :: "(nat \<Rightarrow> u8) \<Rightarrow> u8 list \<Rightarrow> (u8 list \<times> u8 list) list \<Rightarrow> u8 list" where
  "make_initrd junk mount fs =
     (let offset = HEADER_SIZE + length fs * DESC_SIZE; ds = placed offset fs
      in header_bytes mount (length fs) @ concat (map desc_bytes ds) @ data_bytes junk offset ds)"

section \<open>The image in memory\<close>

text \<open>The structures of \<^verbatim>\<open>fs/initrd.c\<close> as they lie behind each other in a module.\<close>

definition name_at :: "mem \<Rightarrow> addr \<Rightarrow> string" where
  "name_at m a = map (\<lambda>b. char_of (unat b)) (takeWhile (\<lambda>b. b \<noteq> 0) (bytes m a MAX_FILENAME))"

definition desc_at :: "mem \<Rightarrow> addr \<Rightarrow> initrd_file_desc" where
  "desc_at m a = \<lparr>i_length = get32 m a, i_offset = get32 m (a + 4), i_fname = name_at m (a + 8)\<rparr>"

definition module_at :: "mem \<Rightarrow> addr \<Rightarrow> initrd_module" where
  "module_at m start =
     \<lparr>mod_start = start, magic = get32 m start, mount_point = name_at m (start + 8),
      files = map (\<lambda>j. desc_at m (start + of_nat (HEADER_SIZE + DESC_SIZE * j))) [0..<unat (get32 m (start + 4))]\<rparr>"

definition stored :: "mem \<Rightarrow> addr \<Rightarrow> u8 list \<Rightarrow> bool" where
  "stored m p xs \<longleftrightarrow> (\<forall>i<length xs. m (p + of_nat i) = xs ! i)"

lemma stored_Cons: "stored m p (x # xs) \<longleftrightarrow> m p = x \<and> stored m (p + 1) xs"
  by (simp add: stored_def All_less_Suc2 add.assoc)

lemma stored_append: "stored m p (xs @ ys) \<longleftrightarrow> stored m p xs \<and> stored m (p + of_nat (length xs)) ys"
proof (induction xs arbitrary: p)
  case Nil
  then show ?case by (simp add: stored_def)
next
  case (Cons x xs)
  then show ?case by (simp add: stored_Cons ac_simps)
qed

lemma stored_bytes: "stored m p xs \<Longrightarrow> bytes m p (length xs) = xs"
  by (rule nth_equalityI) (simp_all add: stored_def)

lemma stored_le32: "stored m p (le32 v) \<Longrightarrow> get32 m p = v"
  by (simp add: le32_def stored_Cons get32_def split_word ac_simps)

lemma length_parts [simp]:
  "length (le32 v) = 4" "length (fixed_name name) = 128" "length (header_bytes mount n) = 136" "length (desc_bytes d) = 136"
  by (auto simp: le32_def fixed_name_def header_bytes_def desc_bytes_def split: prod.split)

lemma stored_name:
  assumes "stored m p (fixed_name name)" and "0 \<notin> set name" and "length name < 128"
  shows "name_at m p = map (\<lambda>b. char_of (unat b)) name"
proof -
  have "bytes m p MAX_FILENAME = name @ replicate (128 - length name) 0"
    using stored_bytes [OF assms(1)] assms(3) by (simp add: fixed_name_def)
  moreover have "takeWhile (\<lambda>b. b \<noteq> 0) (name @ replicate (128 - length name) 0) = name"
    using assms(2,3) by (subst takeWhile_append2) (auto simp: takeWhile_eq_Nil_iff)
  ultimately show ?thesis by (simp add: name_at_def)
qed

lemma stored_concat:
  assumes "stored m p (concat (map f xs))" and "\<And>x. length (f x) = k" and "i < length xs"
  shows "stored m (p + of_nat (k * i)) (f (xs ! i))"
  using assms(1,3)
proof (induction xs arbitrary: p i)
  case (Cons x xs)
  then have "stored m p (f x)" "stored m (p + of_nat k) (concat (map f xs))" by (auto simp: stored_append assms(2))
  then show ?case
    using Cons.IH [of "p + of_nat k" "i - 1"] Cons.prems(2) by (cases i) (simp_all add: algebra_simps)
qed simp

lemma pad_up_props: "offset \<le> pad_up offset" "pad_up offset mod 4096 = 0"
proof -
  define q r where "q = offset div 4096" and "r = offset mod 4096"
  have o: "offset = 4096 * q + r" "r < 4096" by (simp_all add: q_def r_def)
  then have "r + (4096 - r) = 4096" by simp
  then have "offset + (4096 - r) = 4096 * (q + 1)" unfolding o(1) by (simp only: add.assoc distrib_left mult_1_right)
  then have "(offset + (4096 - r)) mod 4096 = 0" by (simp only: mod_mult_self1_is_0)
  then show "offset \<le> pad_up offset" "pad_up offset mod 4096 = 0" by (auto simp: pad_up_def r_def)
qed

lemma stored_data:
  "stored m (p + of_nat pos) (data_bytes junk pos (placed pos fs)) \<Longrightarrow> (offset, content, name) \<in> set (placed pos fs) \<Longrightarrow>
     stored m (p + of_nat offset) content \<and> offset mod 4096 = 0 \<and> offset + length content \<le> pos + length (data_bytes junk pos (placed pos fs))"
proof (induction fs arbitrary: pos)
  case (Cons f fs)
  obtain c n where f: "f = (c, n)" by fastforce
  let ?o = "pad_up pos"
  have o: "pos \<le> ?o" "max pos ?o = ?o" using pad_up_props(1) [of pos] by simp_all
  have "p + of_nat pos + of_nat (?o - pos) = p + of_nat ?o" using o(1) by (simp add: of_nat_diff)
  then have s: "stored m (p + of_nat ?o) c" "stored m (p + of_nat (?o + length c)) (data_bytes junk (?o + length c) (placed (?o + length c) fs))"
    using Cons.prems(1) o(2) by (simp_all add: f stored_append Let_def add.assoc)
  show ?case
  proof (cases "(offset, content, name) \<in> set (placed (?o + length c) fs)")
    case True
    then show ?thesis using Cons.IH [OF s(2)] o by (simp add: f Let_def)
  next
    case False
    then show ?thesis using Cons.prems(2) s(1) pad_up_props(2) [of pos] o by (auto simp: f Let_def)
  qed
qed simp

section \<open>From the tool to the reader\<close>

definition text_string :: "u8 list \<Rightarrow> string" where
  "text_string bs = map (\<lambda>b. char_of (unat b)) bs"

definition good_name :: "u8 list \<Rightarrow> bool" where
  "good_name n \<longleftrightarrow> 0 \<notin> set n \<and> length n < 128"

lemma placed_fst_snd: "map snd (placed offset fs) = fs"
  by (induction offset fs rule: placed.induct) (simp_all add: Let_def)

lemma length_placed [simp]: "length (placed offset fs) = length fs"
  using arg_cong [OF placed_fst_snd, of length] by simp

lemma length_concat_desc: "length (concat (map desc_bytes ds)) = 136 * length ds"
  by (induction ds) simp_all

lemma desc_parsed:
  assumes "stored m p (desc_bytes (offset, content, name))" and "good_name name"
  shows "desc_at m p = \<lparr>i_length = of_nat (length content), i_offset = of_nat offset, i_fname = text_string name\<rparr>"
  using assms stored_le32 stored_name [of m "p + 8" name]
  by (simp add: desc_bytes_def desc_at_def stored_append good_name_def text_string_def ac_simps)

text \<open>What the kernel reads from the header and the descriptors of an image.\<close>

lemma image_parsed:
  assumes "stored m start (make_initrd junk mount fs)" and "length (make_initrd junk mount fs) < 2 ^ 32"
    and "good_name mount" and "\<forall>(c, n)\<in>set fs. good_name n"
  shows "magic (module_at m start) = INITRD_MAGIC_NUMBER \<and> mount_point (module_at m start) = text_string mount
    \<and> files (module_at m start) = map (\<lambda>(offset, content, name).
        \<lparr>i_length = of_nat (length content), i_offset = of_nat offset, i_fname = text_string name\<rparr>) (placed (136 + length fs * 136) fs)"
proof -
  let ?ds = "placed (136 + length fs * 136) fs" and ?n = "length fs"
  have img: "stored m start (header_bytes mount ?n)" "stored m (start + 136) (concat (map desc_bytes ?ds))"
    using assms(1) by (simp_all add: make_initrd_def Let_def stored_append)
  have "136 * ?n < 2 ^ 32" using assms(2) by (simp add: make_initrd_def Let_def length_concat_desc)
  then have n: "unat (of_nat ?n :: u32) = ?n" by (simp add: unat_of_nat take_bit_nat_eq_self)
  have h: "get32 m start = INITRD_MAGIC_NUMBER" "get32 m (start + 4) = of_nat ?n" "name_at m (start + 8) = text_string mount"
    using img(1) assms(3) stored_le32 stored_name [of m "start + 8" mount]
    by (simp_all add: header_bytes_def stored_append good_name_def text_string_def ac_simps)
  have "desc_at m (start + of_nat (136 + 136 * i)) = (\<lambda>(offset, content, name).
      \<lparr>i_length = of_nat (length content), i_offset = of_nat offset, i_fname = text_string name\<rparr>) (?ds ! i)" if i: "i < ?n" for i
  proof -
    obtain o' c n where d: "?ds ! i = (o', c, n)" by (metis prod_cases3)
    have "snd (?ds ! i) = fs ! i" using nth_map [of i ?ds snd] i by (simp add: placed_fst_snd)
    then have "good_name n" using assms(4) d i nth_mem by fastforce
    moreover have "stored m (start + of_nat (136 + 136 * i)) (desc_bytes (o', c, n))"
      using stored_concat [OF img(2), of 136 i] i d by (simp add: add.assoc)
    ultimately show ?thesis unfolding d split_conv by (intro desc_parsed)
  qed
  then have "map (\<lambda>j. desc_at m (start + of_nat (HEADER_SIZE + DESC_SIZE * j))) [0..<?n] = map (\<lambda>(offset, content, name).
        \<lparr>i_length = of_nat (length content), i_offset = of_nat offset, i_fname = text_string name\<rparr>) ?ds"
    by (intro nth_equalityI) (simp_all del: of_nat_add)
  then show ?thesis using h n by (simp add: module_at_def)
qed

text \<open>The node that \<^verbatim>\<open>initrd_init\<close> makes for a file of a module at \<open>start\<close>.\<close>

definition mounted_node :: "addr \<Rightarrow> initrd_file_desc \<Rightarrow> vfs_node" where
  "mounted_node start d =
     file_node\<lparr>block_size := i_length d, v_blocks := (v_blocks file_node)\<lparr>data := (data (v_blocks file_node))(0 := start + i_offset d)\<rparr>\<rparr>"

lemma mount_file_node:
  "upd_blist (In_Node new) (\<lambda>b. b\<lparr>data := (data b)(0 := start + i_offset d)\<rparr>) (upd_vnode new (\<lambda>_. file_node\<lparr>block_size := i_length d\<rparr>) s)
     = upd_vnode new (\<lambda>_. mounted_node start d) s"
  by (simp add: upd_blist_def upd_vnode_def mounted_node_def)

lemma read_first_block:
  assumes "node s nd = mounted_node start d" and "start + i_offset d \<noteq> 0" and "i_length d \<le> sz"
  shows "initrd_read (Suc n) \<lparr>f_node = nd, f_offset = 0, f_flags = 0\<rparr> buf sz s
    = Some (sint (i_length d), \<lparr>f_node = nd, f_offset = i_length d, f_flags = 0\<rparr>,
        s\<lparr>fmem := fst (memcpy (fmem s) buf (start + i_offset d) (i_length d))\<rparr>)"
proof -
  have "[0..<12] = 0 # [1..<12]" by (simp add: upt_conv_Cons)
  moreover have "read_slot f pos is (found, dat) = (found, dat)" if "dat \<noteq> 0" for f pos "is" found and dat :: addr
    using that by (cases "is") simp_all
  ultimately have "read_walk (Suc n) s (In_Node nd) 0 0 = Some (start + i_offset d)"
    using assms(1,2) by (simp add: blist_def mounted_node_def Let_def)
  then show ?thesis using assms by (simp add: initrd_read_def mounted_node_def Let_def)
qed

lemma of_nat_le_word: "n \<le> k \<Longrightarrow> k < 2 ^ 32 \<Longrightarrow> (of_nat n :: u32) \<le> of_nat k"
  by (simp add: word_le_nat_alt unat_of_nat take_bit_nat_eq_self)

text \<open>
  C14: a file that \<^verbatim>\<open>make_initrd\<close> packs is the file the kernel serves: if the image lies in memory, the header and the
  descriptors that \<^verbatim>\<open>initrd_init\<close> walks give the magic number, the mount point and the names back, the file starts at a
  multiple of the page size of the image, and from the node made for its descriptor a read of its size or more gives its contents.
\<close>

theorem packed_file_read_back:
  assumes "stored (fmem s) start (make_initrd junk mount fs)" and "length (make_initrd junk mount fs) < 2 ^ 31"
    and "good_name mount" and "\<forall>(c, n)\<in>set fs. good_name n" and "i < length fs" and "fs ! i = (content, name)"
    and "md = module_at (fmem s) start" and "node s nd = mounted_node start (files md ! i)" and "start + i_offset (files md ! i) \<noteq> 0"
    and "length content \<le> unat sz" and "separate buf (length content) start (length (make_initrd junk mount fs))"
  shows "magic md = INITRD_MAGIC_NUMBER \<and> mount_point md = text_string mount \<and> map i_fname (files md) = map (text_string \<circ> snd) fs
    \<and> unat (i_offset (files md ! i)) mod 4096 = 0
    \<and> (\<exists>file s'. initrd_read (Suc n) \<lparr>f_node = nd, f_offset = 0, f_flags = 0\<rparr> buf sz s = Some (int (length content), file, s')
        \<and> bytes (fmem s') buf (length content) = content)"
proof -
  let ?pos = "136 + length fs * 136" and ?img = "make_initrd junk mount fs"
  let ?ds = "placed ?pos fs"
  have parsed: "magic md = INITRD_MAGIC_NUMBER" "mount_point md = text_string mount"
    "files md = map (\<lambda>(offset, content, name). \<lparr>i_length = of_nat (length content), i_offset = of_nat offset, i_fname = text_string name\<rparr>) ?ds"
    using image_parsed [OF assms(1) _ assms(3,4)] assms(2,7) by auto
  obtain o' where d: "?ds ! i = (o', content, name)"
    using nth_map [of i ?ds snd] assms(5,6) by (cases "?ds ! i") (simp add: placed_fst_snd)
  then have member: "(o', content, name) \<in> set ?ds" using nth_mem [of i ?ds] assms(5) by simp
  have img: "stored (fmem s) (start + of_nat ?pos) (data_bytes junk ?pos ?ds)" "length ?img = ?pos + length (data_bytes junk ?pos ?ds)"
    using assms(1) by (simp_all add: make_initrd_def Let_def stored_append length_concat_desc algebra_simps)
  note data = stored_data [OF img(1) member]
  then have bound: "o' + length content < 2 ^ 31" "o' + length content \<le> length ?img" using assms(2) img(2) by simp_all
  have f: "files md ! i = \<lparr>i_length = of_nat (length content), i_offset = of_nat o', i_fname = text_string name\<rparr>"
    using parsed(3) d assms(5) by simp
  have len: "unat (of_nat (length content) :: u32) = length content" "unat (of_nat o' :: u32) = o'"
    using bound(1) by (simp_all add: unat_of_nat take_bit_nat_eq_self)
  have "map i_fname (files md) = map (text_string \<circ> snd) (map snd ?ds)" by (simp add: parsed(3) case_prod_beta)
  then have names: "map i_fname (files md) = map (text_string \<circ> snd) fs" by (simp only: placed_fst_snd)
  have "i_length (files md ! i) \<le> sz" using assms(10) len(1) by (simp add: f word_le_nat_alt)
  note read = read_first_block [OF assms(8,9) this, of n buf]
  have "separate buf (length content) (start + of_nat o') (length content)"
    unfolding separate_def
  proof (intro allI impI)
    fix x y assume "x < length content" "y < length content"
    then show "buf + of_nat x \<noteq> start + of_nat o' + of_nat y"
      using separateD [OF assms(11), of x "o' + y"] bound(2) by (simp add: add.assoc)
  qed
  then have "bytes (fst (memcpy (fmem s) buf (start + of_nat o') (of_nat (length content)))) buf (length content) = content"
    using copy_up_separate(1) [OF _ order_refl, of buf "length content" "start + of_nat o'"] data bound(1)
    by (intro nth_equalityI) (simp_all add: memcpy_def len(1) stored_def)
  moreover have "sint (of_nat (length content) :: u32) = int (length content)"
    using bound(1) by (simp add: signed_of_nat signed_take_bit_int_eq_self)
  ultimately show ?thesis using parsed(1,2) names data len(2) read by (simp add: f)
qed

text \<open>A ram disk with one file in the memory at 0x100000, and the node for this file at 100.\<close>

definition disk :: "u8 list" where
  "disk = make_initrd (\<lambda>_. 0) [47] [([7], [97])]"

definition disk_mem :: mem where
  "disk_mem a = (if unat (a - 0x100000) < length disk then disk ! unat (a - 0x100000) else 0)"

definition disk_fs :: "u32 fs" where
  "disk_fs = empty_fs\<lparr>fmem := disk_mem, node := (\<lambda>_. mounted_node 0x100000 (files (module_at disk_mem 0x100000) ! 0))\<rparr>"

lemma disk_facts: "length disk = 4097" "stored disk_mem 0x100000 disk"
proof -
  show l: "length disk = 4097" by (simp add: disk_def make_initrd_def Let_def pad_up_def)
  then show "stored disk_mem 0x100000 disk"
    by (simp add: stored_def disk_mem_def unat_of_nat take_bit_nat_eq_self)
qed

lemma packed_file_read_back_witness:
  "\<exists>file s'. initrd_read 1 \<lparr>f_node = 100, f_offset = 0, f_flags = 0\<rparr> 0x200000 4 disk_fs = Some (1, file, s')
    \<and> bytes (fmem s') 0x200000 1 = [7]"
proof -
  have names: "good_name [47]" "\<forall>(c :: u8 list, n)\<in>set [([7], [97])]. good_name n" by (simp_all add: good_name_def)
  have f: "files (module_at disk_mem 0x100000) ! 0 = \<lparr>i_length = 1, i_offset = 4096, i_fname = text_string [97]\<rparr>"
    using image_parsed [OF disk_facts(2) [unfolded disk_def] _ names] disk_facts(1) by (simp add: disk_def pad_up_def Let_def)
  have "separate 0x200000 1 0x100000 4097" by (rule separate_below) simp_all
  moreover have m: "fmem disk_fs = disk_mem" by (simp add: disk_fs_def)
  moreover have "node disk_fs 100 = mounted_node 0x100000 (files (module_at (fmem disk_fs) 0x100000) ! 0)"
    by (simp add: disk_fs_def)
  ultimately show ?thesis
    using packed_file_read_back [where junk = "\<lambda>_. 0" and mount = "[47]" and fs = "[([7], [97])]" and s = disk_fs and i = 0
        and start = "0x100000" and content = "[7]" and name = "[97]" and sz = 4 and nd = 100 and buf = "0x200000" and n = 0,
        folded disk_def, OF _ _ names _ _ refl] disk_facts f
    by simp
qed

end
