(* ===== verification/Snake.thy ===== *)
theory Snake
  imports Terminal Clock "HOL-Library.Monad_Syntax"
begin

text \<open>
  The game on the console, \<^verbatim>\<open>video/snake.c\<close>. The state holds the global variables of the game, the console, the random numbers
  and what comes from outside: the codes that the keyboard delivers while a key is awaited (\<open>ports\<close>) and during the pause of
  each round (\<open>waits\<close>), and the counter of the clock in each round (\<open>ticks\<close>). \<open>bend (-1)\<close> is the memory in front of the array
  \<^verbatim>\<open>bend\<close>, which the code reads; any other index outside an array is \<open>None\<close>. The \<open>int\<close> variables are unbounded. The nested
  calls of \<^verbatim>\<open>Move\<close> take fuel.
\<close>

section \<open>State\<close>

definition UP :: int where [simp]: "UP = 72"
definition DOWN :: int where [simp]: "DOWN = 80"
definition LEFT :: int where [simp]: "LEFT = 75"
definition RIGHT :: int where [simp]: "RIGHT = 77"

record coordinate =
  cx :: int
  cy :: int
  direction :: int

record game =
  snake_length :: int
  bend_no :: int
  len :: int
  key :: int
  life :: int
  head :: coordinate
  bend :: "int \<Rightarrow> coordinate"
  food :: coordinate
  body :: "int \<Rightarrow> coordinate"
  con :: console
  rand_next :: u32
  ports :: "u8 list"
  waits :: "nat \<Rightarrow> u8 list"
  ticks :: "nat \<Rightarrow> u64"
  rounds :: nat

definition bend_at :: "int \<Rightarrow> game \<Rightarrow> coordinate option" where
  "bend_at i g = (if -1 \<le> i \<and> i < 500 then Some (bend g i) else None)"

definition put_body :: "int \<times> int \<Rightarrow> game \<Rightarrow> game option" where
  "put_body = (\<lambda>(a, b) g.
     if 0 \<le> len g \<and> len g < 30 then Some (g\<lparr>body := (body g)(len g := (body g (len g))\<lparr>cx := a, cy := b\<rparr>)\<rparr>) else None)"

section \<open>Printing\<close>

text \<open>A format of the program, at 0x1000 of a memory of its own; the buffer of \<^verbatim>\<open>kprintf\<close> is at 0.\<close>

definition literal :: "u8 list \<Rightarrow> mem" where
  "literal cs = (\<lambda>a. if unat (a - 0x1000) < List.length cs then cs ! unat (a - 0x1000) else 0)"

definition say :: "string \<Rightarrow> u32 list \<Rightarrow> game \<Rightarrow> game option" where
  "say text args g =
     map_option (\<lambda>(_, _, t). g\<lparr>con := t\<rparr>) (kprintf (literal (List.map of_char text)) 0 0x1000 args (con g))"

definition gotoxy :: "int \<times> int \<Rightarrow> game \<Rightarrow> game" where
  "gotoxy p g = g\<lparr>con := setCursorToSpecificLocation p (con g)\<rparr>"

definition clear_screen :: "game \<Rightarrow> game" where
  "clear_screen g = g\<lparr>con := monInit (con g)\<rparr>"

section \<open>Keys\<close>

text \<open>The functions behind the arrow keys set \<^verbatim>\<open>key\<close>; the game installs them for \<^verbatim>\<open>getKbCode\<close>.\<close>

definition arrow_pressed :: "u8 \<Rightarrow> int \<Rightarrow> int" where
  "arrow_pressed code k =
     (if code = 0x48 then UP else if code = 0x50 then DOWN else if code = 0x4b then LEFT else if code = 0x4d then RIGHT else k)"

definition get_key :: "game \<Rightarrow> (u8 \<times> game) option" where
  "get_key g =
     (case getChar (\<lambda>_ t. t) (ports g) (con g) of None \<Rightarrow> None
      | Some (c, rest, t) \<Rightarrow>
          let codes = take (List.length (ports g) - List.length rest) (ports g)
          in Some (c, g\<lparr>con := t, ports := rest, key := fold arrow_pressed codes (key g)\<rparr>))"

text \<open>The pause of a round, in which the keyboard interrupts only set \<^verbatim>\<open>isButtonPressed\<close>.\<close>

definition pause :: "game \<Rightarrow> game" where
  "pause g = g\<lparr>con := fold keyboard_handler (waits g (rounds g)) (con g)\<rparr>"

definition sample_button :: "game \<Rightarrow> game" where
  "sample_button g =
     g\<lparr>con := (con g)\<lparr>isButtonPressed := (if isNextCharReady (con g) = 1 \<and> isButtonPressed (con g) = 0 then 1 else 0)\<rparr>\<rparr>"

section \<open>Food\<close>

definition place_food :: "game \<Rightarrow> game" where
  "place_food g =
     (let (a, s) = rand (rand_next g); a = uint a mod 78; a = (if a \<le> 0 then a + 11 else a);
          (b, s) = rand s; b = uint b mod 23; b = (if b \<le> 0 then b + 11 else b)
      in g\<lparr>food := (food g)\<lparr>cx := a, cy := b\<rparr>, rand_next := s\<rparr>)"

definition Food :: "game \<Rightarrow> game" where
  "Food g =
     (if cx (head g) = cx (food g) \<and> cy (head g) = cy (food g)
      then place_food (g\<lparr>snake_length := snake_length g + 1, rand_next := srand (ucast (get_clock_tick (ticks g (rounds g))))\<rparr>)
      else if cx (food g) = 0 then place_food g
      else g)"

section \<open>Drawing the snake\<close>

text \<open>One loop of \<^verbatim>\<open>Bend\<close>; only the two for a row look at the length before each cell.\<close>

fun bend_cells :: "bool \<Rightarrow> (int \<Rightarrow> int \<times> int) \<Rightarrow> int list \<Rightarrow> game \<Rightarrow> game option" where
  "bend_cells checked at [] g = Some g"
| "bend_cells checked at (j # js) g =
     (if checked \<and> \<not> len g < snake_length g then Some g
      else do {
        g \<leftarrow> put_body (at j) g;
        g \<leftarrow> say ''o'' [] (gotoxy (cx (body g (len g)), cy (body g (len g))) g);
        let g = g\<lparr>len := len g + 1\<rparr>;
        if len g = snake_length g then Some g else bend_cells checked at js g
      })"

definition bend_segment :: "coordinate \<Rightarrow> coordinate \<Rightarrow> game \<Rightarrow> game option" where
  "bend_segment b b' g =
     (if cx b = cx b' then
        let diff = cy b - cy b'
        in if diff < 0 then bend_cells False (\<lambda>j. (cx b, cy b + j)) [1..-diff] g
           else if diff > 0 then bend_cells False (\<lambda>j. (cx b, cy b - j)) [1..diff] g
           else Some g
      else if cy b = cy b' then
        let diff = cx b - cx b'
        in if diff < 0 then bend_cells True (\<lambda>j. (cx b + j, cy b)) [1..-diff] g
           else if diff > 0 then bend_cells True (\<lambda>j. (cx b - j, cy b)) [1..diff] g
           else Some g
      else Some g)"

fun bend_loop :: "int list \<Rightarrow> game \<Rightarrow> game option" where
  "bend_loop [] g = Some g"
| "bend_loop (i # is) g =
     (if len g < snake_length g
      then do { b \<leftarrow> bend_at i g; b' \<leftarrow> bend_at (i - 1) g; g \<leftarrow> bend_segment b b' g; bend_loop is g }
      else Some g)"

definition Bend :: "game \<Rightarrow> game option" where
  "Bend g = bend_loop (rev [0..bend_no g]) g"

text \<open>The straight part behind the head; \<^verbatim>\<open>Right\<close> stores the cell before it draws it, the others after.\<close>

fun straight :: "(int \<Rightarrow> int \<times> int) \<Rightarrow> string \<Rightarrow> int list \<Rightarrow> game \<Rightarrow> game option" where
  "straight at tip [] g = Some g"
| "straight at tip (i # is) g =
     (if len g < snake_length g
      then do {
        g \<leftarrow> say (if len g = 0 then tip else ''o'') [] (gotoxy (at i) g);
        g \<leftarrow> put_body (at i) g;
        straight at tip is (g\<lparr>len := len g + 1\<rparr>)
      }
      else Some g)"

fun right_cells :: "int list \<Rightarrow> game \<Rightarrow> game option" where
  "right_cells [] g = Some g"
| "right_cells (i # is) g =
     (if len g < snake_length g
      then do {
        g \<leftarrow> put_body (cx (head g) - i, cy (head g)) g;
        g \<leftarrow> say (if len g = 0 then ''>'' else ''o'') [] (gotoxy (cx (body g (len g)), cy (body g (len g))) g);
        right_cells is (g\<lparr>len := len g + 1\<rparr>)
      }
      else Some g)"

definition step_head :: "int \<Rightarrow> int \<Rightarrow> game \<Rightarrow> game" where
  "step_head dx dy g =
     (if isButtonPressed (con g) \<noteq> 1 then g\<lparr>head := (head g)\<lparr>cx := cx (head g) + dx, cy := cy (head g) + dy\<rparr>\<rparr> else g)"

definition Right_move :: "game \<Rightarrow> game option" where
  "Right_move g = do {
     b \<leftarrow> bend_at (bend_no g) g;
     g \<leftarrow> right_cells [0..cx (head g) - cx b] g;
     g \<leftarrow> Bend g;
     Some (step_head 1 0 g)
   }"

definition Left_move :: "game \<Rightarrow> game option" where
  "Left_move g = do {
     b \<leftarrow> bend_at (bend_no g) g;
     g \<leftarrow> straight (\<lambda>i. (cx (head g) + i, cy (head g))) ''<'' [0..cx b - cx (head g)] g;
     g \<leftarrow> Bend g;
     Some (step_head (-1) 0 g)
   }"

definition Up_move :: "game \<Rightarrow> game option" where
  "Up_move g = do {
     b \<leftarrow> bend_at (bend_no g) g;
     g \<leftarrow> straight (\<lambda>i. (cx (head g), cy (head g) + i)) ''^'' [0..cy b - cy (head g)] g;
     g \<leftarrow> Bend g;
     Some (step_head 0 (-1) g)
   }"

definition Down_move :: "game \<Rightarrow> game option" where
  "Down_move g = do {
     b \<leftarrow> bend_at (bend_no g) g;
     g \<leftarrow> straight (\<lambda>i. (cx (head g), cy (head g) - i)) ''v'' [0..cy (head g) - cy b] g;
     g \<leftarrow> Bend g;
     Some (step_head 0 1 g)
   }"

definition move_head :: "game \<Rightarrow> game option" where
  "move_head g =
     (if direction (head g) = RIGHT then Right_move g
      else if direction (head g) = LEFT then Left_move g
      else if direction (head g) = DOWN then Down_move g
      else if direction (head g) = UP then Up_move g
      else Some g)"

section \<open>The screen around it\<close>

definition score_text :: "language \<Rightarrow> string" where
  "score_text l = (case l of GREEK \<Rightarrow> ''VATHMOLOGIA : %d'' | SPANISH \<Rightarrow> ''PUNTUACION : %d'' | ENGLISH \<Rightarrow> ''SCORE : %d'')"

definition life_text :: "language \<Rightarrow> string" where
  "life_text l = (case l of GREEK \<Rightarrow> ''Zwi : %d'' | SPANISH \<Rightarrow> ''Vida : %d'' | ENGLISH \<Rightarrow> ''Life : %d'')"

definition Score :: "language \<Rightarrow> game \<Rightarrow> (int \<times> game) option" where
  "Score l g = do {
     g \<leftarrow> say (score_text l) [of_int (snake_length g - 5)] (gotoxy (20, 8) g);
     g \<leftarrow> say (life_text l) [of_int (life g)] (gotoxy (50, 8) g);
     Some (snake_length g - 5, g)
   }"

definition Scoreonly :: "language \<Rightarrow> game \<Rightarrow> (int \<times> game) option" where
  "Scoreonly l g = map_option (\<lambda>(score, g). (score, clear_screen g)) (Score l g)"

definition Delay :: "language \<Rightarrow> game \<Rightarrow> game option" where
  "Delay l g = map_option snd (Score l g)"

definition draw_at :: "string \<Rightarrow> int \<times> int \<Rightarrow> game \<Rightarrow> game option" where
  "draw_at text p g = say text [] (gotoxy p g)"

definition Boarder :: "game \<Rightarrow> game option" where
  "Boarder g = do {
     g \<leftarrow> draw_at ''X'' (cx (food g), cy (food g)) (clear_screen g);
     g \<leftarrow> foldM (\<lambda>i g. do { g \<leftarrow> draw_at ''#'' (i, 0) g; draw_at ''#'' (i, 24) g }) [0..78] g;
     foldM (\<lambda>i g. do { g \<leftarrow> draw_at ''#'' (0, i) g; draw_at ''#'' (79, i) g }) [0..23] g
   }"

definition load :: "game \<Rightarrow> game option" where
  "load g = do {
     g \<leftarrow> say ''loading...'' [] (gotoxy (36, 14) g);
     g \<leftarrow> foldM (\<lambda>r. say ''#'' []) [1..20] (gotoxy (30, 15) g);
     (c, g) \<leftarrow> get_key g;
     Some g
   }"


text \<open>The texts at the start; the letter outside ASCII is its two bytes in UTF-8.\<close>

definition welcome_text :: "language \<Rightarrow> string" where
  "welcome_text l = (case l of
     GREEK \<Rightarrow> [CHR 0x09] @ ''Kalwsorisate sto Fidaki.(patiste opiodipote pliktro gia na proxorisete)'' @ [CHR 0x0A]
   | SPANISH \<Rightarrow> [CHR 0x09] @ ''Bienvenido al juego Fidaki. (Presiona cualquier tecla para continuar)'' @ [CHR 0x0A]
   | ENGLISH \<Rightarrow> [CHR 0x09] @ ''Welcome to the Fidaki game.(press any key to continue)'' @ [CHR 0x0A])"

definition instructions :: "language \<Rightarrow> string list" where
  "instructions l = (case l of
     GREEK \<Rightarrow> [
       [CHR 0x09] @ ''Odigeies Paixnidiou:'' @ [CHR 0x0A],
       [CHR 0x0A] @ ''-> Xrisimopoiiste to W-A-S-D gia na metakineite to fidaki.'',
       [CHR 0x0A, CHR 0x0A] @ ''-> Tha vlepete fagito se diafora simia tis othonis pou tha prepei na fate. Kathe fora pou trwte ena, to mikos tou fidiou tha megalwnei kata 1 simeio opos kai i vathmologia sas.'',
       [CHR 0x0A, CHR 0x0A] @ ''-> Ksekinate me treis zwes. I zoi sas meionete kata ena kathe fora pou aggizete ton toixo i to soma tou fidiou.Here you are provided with three lives. Your life will decrease as you hit the wall or snake'' @ [CHR 0x27] @ ''s body.'' @ [CHR 0x0A, CHR 0x0A] @ ''->An thelete na stamatisete patiste to pliktro esc.'' @ [CHR 0x0A],
       [CHR 0x0A, CHR 0x0A] @ '' Patiste opiodipote pliktro gia na arxisete to paixnidi...'']
   | SPANISH \<Rightarrow> [
       [CHR 0x09] @ ''Instrucciones del juego:'' @ [CHR 0x0A],
       [CHR 0x0A] @ ''-> Use las teclas W-A-S-D para mover la serpiente'',
       [CHR 0x0A, CHR 0x0A] @ ''-> Vera alimentos en las diversas coordenadas de la pantalla que debe comer. Cada vez que comas un alimento, la longitud de la serpiente aumentara en uno elemento y tambien en el puntaje.'',
       [CHR 0x0A, CHR 0x0A] @ ''-> Comienzas con tres vidas. Tu vida disminuir'' @ [CHR 0xC3, CHR 0xA1] @ '' al golpear la pared o el cuerpo de la serpiente.'' @ [CHR 0x0A, CHR 0x0A] @ ''-> Si quieres salir, presiona la tecla esc.'' @ [CHR 0x0A],
       [CHR 0x0A, CHR 0x0A] @ '' Presiona cualquier tecla para jugar el juego ...'']
   | ENGLISH \<Rightarrow> [
       [CHR 0x09] @ ''Game instructions:'' @ [CHR 0x0A],
       [CHR 0x0A] @ ''-> Use W-A-S-D keys to move the snake.'',
       [CHR 0x0A, CHR 0x0A] @ ''-> You will see foods at the several coordinates of the screen which you have to eat. Every time you eat a food the length of the snake will be increased by one element and also the score.'',
       [CHR 0x0A, CHR 0x0A] @ ''-> You start with three lives. Your life will decrease as you hit the wall or snake'' @ [CHR 0x27] @ ''s body.'' @ [CHR 0x0A, CHR 0x0A] @ ''-> If you want to exit press esc key.'' @ [CHR 0x0A],
       [CHR 0x0A, CHR 0x0A] @ ''Press any key to play game...'']
  )"

definition Print :: "language \<Rightarrow> game \<Rightarrow> (int \<times> game) option" where
  "Print l g = do {
     g \<leftarrow> say (welcome_text l) [] g;
     (c, g) \<leftarrow> get_key g;
     g \<leftarrow> foldM (\<lambda>text. say text []) (instructions l) (clear_screen g);
     (c, g) \<leftarrow> get_key g;
     Some (if c = 27 then 0 else 1, g)
   }"

section \<open>Rounds\<close>

definition clear_body :: "game \<Rightarrow> game" where
  "clear_body g =
     g\<lparr>body := fold (\<lambda>i b. b(i := (b i)\<lparr>cx := 0, cy := 0\<rparr>))
                 (if 0 \<le> snake_length g \<and> snake_length g < 30 then [0..snake_length g] else [0..29]) (body g)\<rparr>"

definition one_round :: "language \<Rightarrow> game \<Rightarrow> game option" where
  "one_round l g = do {
     let g = clear_body ((Food g)\<lparr>len := 0\<rparr>);
     (score, g) \<leftarrow> Score l g;
     let g = sample_button (pause g);
     g \<leftarrow> Boarder g;
     g \<leftarrow> move_head g;
     Some (g\<lparr>rounds := rounds g + 1\<rparr>)
   }"

text \<open>Whether the head is on another cell of the body.\<close>

fun touch_scan :: "int list \<Rightarrow> game \<Rightarrow> bool option" where
  "touch_scan [] g = Some False"
| "touch_scan (i # is) g =
     (if i \<ge> 30 then None
      else if cx (body g 0) = cx (body g i) \<and> cy (body g 0) = cy (body g i) then Some True
      else touch_scan is g)"

definition crashed :: "game \<Rightarrow> bool option" where
  "crashed g = map_option (\<lambda>check. cx (head g) \<le> 0 \<or> cx (head g) \<ge> 79 \<or> cy (head g) \<le> 0 \<or> cy (head g) \<ge> 24 \<or> check)
     (touch_scan [4..snake_length g - 1] g)"

definition restart :: "game \<Rightarrow> game" where
  "restart g = g\<lparr>head := \<lparr>cx = 25, cy = 20, direction = RIGHT\<rparr>, bend_no := 0\<rparr>"

definition game_over_text :: string where
  "game_over_text = ''All lives completed'' @ [CHR 0x0A] @ ''Better Luck Next Time!!!'' @ [CHR 0x0A]
     @ ''Press any key to quit the game'' @ [CHR 0x0A]"

definition steer :: "u8 \<Rightarrow> game \<Rightarrow> game" where
  "steer c g = (if c = 119 then g\<lparr>key := UP\<rparr> else if c = 115 then g\<lparr>key := DOWN\<rparr>
                else if c = 97 then g\<lparr>key := LEFT\<rparr> else if c = 100 then g\<lparr>key := RIGHT\<rparr> else g)"

definition turns :: "int \<Rightarrow> int \<Rightarrow> bool" where
  "turns k d \<longleftrightarrow>
     k = RIGHT \<and> d \<noteq> LEFT \<and> d \<noteq> RIGHT \<or> k = LEFT \<and> d \<noteq> RIGHT \<and> d \<noteq> LEFT
   \<or> k = UP \<and> d \<noteq> DOWN \<and> d \<noteq> UP \<or> k = DOWN \<and> d \<noteq> UP \<and> d \<noteq> DOWN"

definition turn :: "game \<Rightarrow> game option" where
  "turn g =
     (let n = bend_no g + 1; k = key g; h = head g in
      if n \<ge> 500 then None
      else Some (g\<lparr>bend_no := n, bend := (bend g)(n := h),
                   head := \<lparr>cx = cx h + (if k = RIGHT then 1 else if k = LEFT then -1 else 0),
                            cy = cy h + (if k = DOWN then 1 else if k = UP then -1 else 0), direction = k\<rparr>\<rparr>))"

text \<open>
  \<open>mv\<close> is the nested call of \<^verbatim>\<open>Move\<close>, with the fuel that is left; \<open>play\<close> is the loop of \<^verbatim>\<open>Move\<close>. Each call of \<^verbatim>\<open>Move\<close> and
  each round takes one unit.
\<close>

definition ExitGame :: "(game \<Rightarrow> game option) \<Rightarrow> game \<Rightarrow> game option" where
  "ExitGame mv g = do {
     crash \<leftarrow> crashed g;
     if crash then
       let g = g\<lparr>life := life g - 1\<rparr>
       in if life g \<ge> 0 then mv (restart g)
          else say game_over_text [] (clear_screen g)
     else Some g
   }"

fun play :: "(game \<Rightarrow> game option) \<Rightarrow> language \<Rightarrow> nat \<Rightarrow> game \<Rightarrow> game option" where
  "play mv l 0 g = None"
| "play mv l (Suc k) g = do {
     g \<leftarrow> one_round l g;
     g \<leftarrow> ExitGame mv g;
     if isButtonPressed (con g) = 0 then play mv l k g else Some g
   }"

fun Move :: "language \<Rightarrow> nat \<Rightarrow> game \<Rightarrow> game option" where
  "Move l 0 g = None"
| "Move l (Suc k) g = do {
     g \<leftarrow> play (Move l k) l k g;
     (a, g) \<leftarrow> get_key g;
     if a = 27 then Some (clear_screen g)
     else do {
       (c, g) \<leftarrow> get_key g;
       let g = steer c g;
       if turns (key g) (direction (head g)) then do { g \<leftarrow> turn g; Move l k g }
       else if key g = 27 then Some (clear_screen g)
       else do { g \<leftarrow> say [CHR 0x07] [] g; Move l k g }
     }
   }"

definition snakeMain :: "language \<Rightarrow> nat \<Rightarrow> game \<Rightarrow> (int \<times> game) option" where
  "snakeMain l k g = do {
     (go, g) \<leftarrow> Print l g;
     if go = 0 then Some (0, g)
     else do {
       g \<leftarrow> load g;
       g \<leftarrow> Boarder (g\<lparr>snake_length := 5, head := \<lparr>cx = 25, cy = 20, direction = RIGHT\<rparr>\<rparr>);
       let g = (Food g)\<lparr>life := 3\<rparr>;
       g \<leftarrow> Move l k (g\<lparr>bend := (bend g)(0 := head g)\<rparr>);
       Some (0, g)
     }
   }"


section \<open>Printing a text\<close>

lemma format_prefix:
  assumes "bytes m f (length cs) = cs" and "0 \<notin> set cs" and "37 \<notin> set cs" and "separate b (length cs) f (length cs)"
    and "length cs < 2 ^ 32"
  shows "\<exists>m'. format_loop m buf b f args = format_loop m' buf (b + of_nat (length cs)) (f + of_nat (length cs)) args
    \<and> bytes m' b (length cs) = cs \<and> (\<forall>a. (\<forall>i<length cs. a \<noteq> b + of_nat i) \<longrightarrow> m' a = m a)"
  using assms
proof (induction cs arbitrary: m b f)
  case Nil
  then show ?case by (auto simp: bytes_def)
next
  case (Cons c cs)
  let ?m = "m(b := c)"
  have head: "m f = c" and rest: "bytes m (f + 1) (length cs) = cs"
    using Cons.prems(1) by (simp_all add: bytes_def upt_conv_Cons map_Suc_upt [symmetric] o_def ac_simps del: upt_Suc)
  have c: "c \<noteq> 0" "c \<noteq> 37" using Cons.prems(2,3) by auto
  have step: "format_loop m buf b f args = format_loop ?m buf (b + 1) (f + 1) args"
    by (subst format_loop.simps) (simp add: c head)
  have "bytes ?m (f + 1) (length cs) = bytes m (f + 1) (length cs)"
  proof (rule nth_equalityI)
    fix i assume i: "i < length (bytes ?m (f + 1) (length cs))"
    then have "b + of_nat 0 \<noteq> f + of_nat (Suc i)" using Cons.prems(4) by (intro separateD) auto
    then show "bytes ?m (f + 1) (length cs) ! i = bytes m (f + 1) (length cs) ! i" using i by (auto simp: ac_simps)
  qed simp
  moreover have "separate (b + 1) (length cs) (f + 1) (length cs)" using Cons.prems(4) separate_Suc by simp
  ultimately obtain m' where m': "format_loop ?m buf (b + 1) (f + 1) args
      = format_loop m' buf (b + 1 + of_nat (length cs)) (f + 1 + of_nat (length cs)) args"
    "bytes m' (b + 1) (length cs) = cs" "\<forall>a. (\<forall>i<length cs. a \<noteq> b + 1 + of_nat i) \<longrightarrow> m' a = ?m a"
    using Cons.IH [of ?m "f + 1" "b + 1"] Cons.prems rest by (auto simp del: fun_upd_apply)
  have "b \<noteq> b + 1 + of_nat i" if "i < length cs" for i
    using of_nat_inj_32 [of 0 "Suc i"] that Cons.prems(5) by (auto simp: ac_simps)
  then have b: "m' b = c" using m'(3) by simp
  have "bytes m' b (length (c # cs)) = c # cs"
    using b m'(2) by (simp add: bytes_def upt_conv_Cons map_Suc_upt [symmetric] o_def ac_simps del: upt_Suc)
  moreover have "m' a = m a" if a: "\<forall>i<length (c # cs). a \<noteq> b + of_nat i" for a
  proof -
    have "a \<noteq> b + 1 + of_nat i" if "i < length cs" for i using a [rule_format, of "Suc i"] that by (simp add: ac_simps)
    moreover have "a \<noteq> b" using a by force
    ultimately show ?thesis using m'(3) by simp
  qed
  ultimately show ?case using step m'(1) by (auto simp: ac_simps)
qed

definition plain_text :: "string \<Rightarrow> bool" where
  "plain_text text \<longleftrightarrow> list_all (\<lambda>c. of_char c \<noteq> (0 :: u8) \<and> of_char c \<noteq> (37 :: u8)) text \<and> length text < 0x800"

text \<open>A format that starts with a plain text: the text is copied, and the rest of the format is as it was.\<close>

lemma literal_prefix:
  assumes "plain_text text"
  shows "\<exists>m. format_loop (literal (map of_char text @ rest)) 0 0 0x1000 args
        = format_loop m 0 (of_nat (length text)) (0x1000 + of_nat (length text)) args
    \<and> bytes m 0 (length text) = map of_char text
    \<and> (\<forall>i. length text \<le> i \<and> i < 0x2000 \<longrightarrow> m (of_nat i) = literal (map of_char text @ rest) (of_nat i))"
proof -
  let ?cs = "map of_char text :: u8 list" and ?l = "literal (map of_char text @ rest)"
  have cs: "0 \<notin> set ?cs" "37 \<notin> set ?cs" "length ?cs < 0x800" using assms by (auto simp: plain_text_def list_all_iff)
  have "bytes ?l 0x1000 (length ?cs) = ?cs"
    using cs(3) by (intro nth_equalityI) (simp_all add: literal_def unat_of_nat_32 nth_append)
  moreover have "separate 0 (length ?cs) 0x1000 (length ?cs)"
    unfolding separate_def
  proof (intro allI impI notI)
    fix i j assume ij: "i < length ?cs" "j < length ?cs" and "(0 :: addr) + of_nat i = 0x1000 + of_nat j"
    then have "(of_nat i :: addr) = of_nat (0x1000 + j)" by simp
    then show False using of_nat_inj_32 [of i "0x1000 + j"] ij cs(3) by simp
  qed
  ultimately obtain m where m: "format_loop ?l 0 0 0x1000 args = format_loop m 0 (0 + of_nat (length ?cs)) (0x1000 + of_nat (length ?cs)) args"
    "bytes m 0 (length ?cs) = ?cs" "\<forall>a. (\<forall>i<length ?cs. a \<noteq> 0 + of_nat i) \<longrightarrow> m a = ?l a"
    using format_prefix [of ?l "0x1000" ?cs 0] cs by fastforce
  have "m (of_nat i) = ?l (of_nat i)" if "length text \<le> i" "i < 0x2000" for i
    using that cs(3) of_nat_inj_32 [of i] by (intro m(3) [rule_format]) auto
  then show ?thesis using m(1,2) by (auto intro!: exI [of _ m])
qed

lemma say_result:
  assumes "format_loop (literal (map of_char text)) 0 0 0x1000 args = Some (m, b)"
  shows "\<exists>t. say text args g = Some (g\<lparr>con := monWrite t (con g)\<rparr>)"
proof -
  obtain n where "strlen (m(b := 0)) 0 = Some n" using strlen_returns_iff [of "m(b := 0)" 0] by force
  then show ?thesis using assms by (auto simp: say_def kprintf_def vasprintf_def monWString_def)
qed

lemma say_plain:
  assumes "plain_text text"
  shows "say text args g = Some (g\<lparr>con := monWrite (map of_char text) (con g)\<rparr>)"
proof -
  let ?cs = "map of_char text :: u8 list"
  have cs: "0 \<notin> set ?cs" "length ?cs < 0x800" using assms by (auto simp: plain_text_def list_all_iff)
  obtain m where m: "format_loop (literal ?cs) 0 0 0x1000 args = format_loop m 0 (of_nat (length ?cs)) (0x1000 + of_nat (length ?cs)) args"
    "bytes m 0 (length ?cs) = ?cs" "\<forall>i. length ?cs \<le> i \<and> i < 0x2000 \<longrightarrow> m (of_nat i) = literal ?cs (of_nat i)"
    using literal_prefix [OF assms, of "[]"] by auto
  have "m (0x1000 + of_nat (length ?cs)) = 0"
    using m(3) [rule_format, of "0x1000 + length ?cs"] cs(2) by (simp add: literal_def unat_of_nat_32)
  then have loop: "format_loop (literal ?cs) 0 0 0x1000 args = Some (m, of_nat (length ?cs))"
    using m(1) by (subst (asm) (2) format_loop.simps) simp
  let ?m = "m(of_nat (length ?cs) := 0)"
  have "bytes ?m 0 (length ?cs) = ?cs"
  proof (rule nth_equalityI)
    fix i assume "i < length (bytes ?m 0 (length ?cs))"
    then have i: "i < length ?cs" by simp
    then have "(of_nat i :: addr) \<noteq> of_nat (length ?cs)" using of_nat_inj_32 [of i "length ?cs"] cs(2) by simp
    then show "bytes ?m 0 (length ?cs) ! i = ?cs ! i" using m(2) i by (metis (no_types) add_0 fun_upd_apply nth_bytes)
  qed simp
  moreover from this have "cstr ?m 0 ?cs" using cs(1) by (intro cstr_bytes) auto
  ultimately show ?thesis
    using loop strlen_cstr [of ?m 0 ?cs] cs(2)
    by (simp add: say_def kprintf_def vasprintf_def monWString_def unat_of_nat_32)
qed

text \<open>A text with one number at its end prints something, whatever the number.\<close>

lemma say_number:
  assumes "plain_text text"
  shows "\<exists>t. say (text @ ''%d'') [v] g = Some (g\<lparr>con := monWrite t (con g)\<rparr>)"
proof -
  let ?n = "length text" and ?l = "literal (map of_char text @ [37, 100])"
  have n: "?n < 0x800" using assms by (simp add: plain_text_def)
  obtain m where m: "format_loop ?l 0 0 0x1000 [v] = format_loop m 0 (of_nat ?n) (0x1000 + of_nat ?n) [v]"
    "\<forall>i. ?n \<le> i \<and> i < 0x2000 \<longrightarrow> m (of_nat i) = ?l (of_nat i)"
    using literal_prefix [OF assms] by blast
  have at: "m (0x1000 + of_nat (?n + j)) = (if j = 0 then 37 else if j = 1 then 100 else 0)" if "j < 3" for j
  proof -
    have "(of_nat (0x1000 + (?n + j)) - 0x1000 :: addr) = of_nat (?n + j)" by simp
    then have "unat (of_nat (0x1000 + (?n + j)) - 0x1000 :: addr) = ?n + j"
      using unat_of_nat_32 [of "?n + j"] n that by simp
    then have "?l (of_nat (0x1000 + (?n + j))) = (if j < 2 then [37, 100] ! j else 0)"
      unfolding literal_def by (simp only:) (simp add: nth_append)
    moreover have "m (of_nat (0x1000 + (?n + j))) = ?l (of_nat (0x1000 + (?n + j)))"
      using n that by (intro m(2) [rule_format]) simp
    moreover have "(of_nat (0x1000 + (?n + j)) :: addr) = 0x1000 + of_nat (?n + j)" by simp
    ultimately show ?thesis using that by (auto simp: less_Suc_eq numeral_3_eq_3)
  qed
  obtain m' k where k: "print_dec v 0 0 m (of_nat ?n) = Some (m', of_nat ?n + of_nat k)" "k \<le> 32"
    "\<forall>a. (\<forall>i<k. a \<noteq> of_nat ?n + of_nat i) \<longrightarrow> m' a = m a"
    using print_dec_writes [of v 0 0 m "of_nat ?n"] by (auto simp: max_def split: if_splits)
  have "0x1000 + of_nat (?n + 2) \<noteq> (of_nat ?n + of_nat i :: addr)" if "i < k" for i
    using of_nat_inj_32 [of "0x1000 + (?n + 2)" "?n + i"] n that k(2) by simp
  then have z: "m' (0x1000 + of_nat (?n + 2)) = 0" using k(3) at [of 2] by simp
  have w: "arg_width m (0x1000 + of_nat (?n + 1)) 0 = Some (0x1000 + of_nat (?n + 1), 0)"
    using at [of 1] by (subst arg_width.simps) simp
  have "m (0x1000 + of_nat (?n + 1)) = 100" using at [of 1] by simp
  then have c: "convert m 0 (of_nat ?n) (0x1000 + of_nat (?n + 1)) 0 [v] = Some (m', of_nat (?n + k), [])"
    using k(1) by (simp only: convert_def) simp
  have p: "m (0x1000 + of_nat (?n + 0)) = 37" using at [of 0] by simp
  have f: "0x1000 + of_nat (?n + 0) + 1 = (0x1000 + of_nat (?n + 1) :: addr)" "0x1000 + of_nat (?n + 1) + 1 = (0x1000 + of_nat (?n + 2) :: addr)"
    by simp_all
  have "format_loop m 0 (of_nat ?n) (0x1000 + of_nat (?n + 0)) [v] = format_loop m' 0 (of_nat (?n + k)) (0x1000 + of_nat (?n + 2)) []"
    by (subst format_loop.simps) (simp only: p f w c option.case prod.case, simp)
  also have "\<dots> = Some (m', of_nat (?n + k))" using z by (subst format_loop.simps) simp
  finally show ?thesis using m(1) by (intro say_result) simp
qed

section \<open>The trail of the head\<close>

text \<open>The cells from one corner to the next, the first left out; corners that share neither row nor column have none.\<close>

definition walk :: "coordinate \<Rightarrow> coordinate \<Rightarrow> (int \<times> int) list" where
  "walk p q =
     (if cx p = cx q \<or> cy p = cy q
      then map (\<lambda>j. (cx p + j * sgn (cx q - cx p), cy p + j * sgn (cy q - cy p))) [1..max \<bar>cx q - cx p\<bar> \<bar>cy q - cy p\<bar>]
      else [])"

definition bends_trail :: "(int \<Rightarrow> coordinate) \<Rightarrow> int list \<Rightarrow> (int \<times> int) list" where
  "bends_trail bs is = concat (map (\<lambda>i. walk (bs i) (bs (i - 1))) is)"

definition trail :: "game \<Rightarrow> (int \<times> int) list" where
  "trail g = (cx (head g), cy (head g)) # walk (head g) (bend g (bend_no g)) @ bends_trail (bend g) (rev [0..bend_no g])"

text \<open>The cells of the body that are drawn, and what drawing may change.\<close>

definition cells :: "game \<Rightarrow> (int \<times> int) list" where
  "cells g = map (\<lambda>i. (cx (body g i), cy (body g i))) [0..len g - 1]"

definition drew :: "game \<Rightarrow> game \<Rightarrow> (int \<times> int) list \<Rightarrow> bool" where
  "drew g g' ps \<longleftrightarrow> g' = g\<lparr>con := con g', body := body g', len := len g'\<rparr> \<and> isButtonPressed (con g') = isButtonPressed (con g)
     \<and> isNextCharReady (con g') = isNextCharReady (con g)
     \<and> len g' = len g + int (length ps) \<and> (0 \<le> len g \<longrightarrow> cells g' = cells g @ ps)"

lemma drew_Nil [simp]: "drew g g []"
  by (simp add: drew_def)

lemma drew_trans: "drew g g1 ps \<Longrightarrow> drew g1 g2 qs \<Longrightarrow> drew g g2 (ps @ qs)"
  unfolding drew_def by (cases g; cases g1; cases g2) auto

lemma drew_fields: "drew g g' ps \<Longrightarrow> snake_length g' = snake_length g \<and> bend g' = bend g \<and> bend_no g' = bend_no g \<and> head g' = head g
    \<and> food g' = food g \<and> rounds g' = rounds g \<and> len g' = len g + int (length ps) \<and> isButtonPressed (con g') = isButtonPressed (con g)"
  unfolding drew_def by (cases g; cases g') auto

lemma buttons_monPut [simp]:
  "isButtonPressed (monPut c t) = isButtonPressed t" "isNextCharReady (monPut c t) = isNextCharReady t"
  by (simp_all add: monPut_def handle_char_def put_backspace_def put_at_cursor_def monPutchar_def monPutEntryAt_def scroll_def
      move_cursor_def Let_def)

lemma buttons_monWrite [simp]:
  "isButtonPressed (monWrite cs t) = isButtonPressed t" "isNextCharReady (monWrite cs t) = isNextCharReady t"
  unfolding monWrite_def by (induction cs arbitrary: t) simp_all

lemma buttons_cursor [simp]:
  "isButtonPressed (setCursorToSpecificLocation p t) = isButtonPressed t"
  "isNextCharReady (setCursorToSpecificLocation p t) = isNextCharReady t"
  by (simp_all add: setCursorToSpecificLocation_def split: prod.split)

text \<open>One cell.\<close>

definition plot :: "string \<Rightarrow> int \<times> int \<Rightarrow> game \<Rightarrow> game" where
  "plot text p g =
     g\<lparr>con := monWrite (map of_char text) (setCursorToSpecificLocation p (con g)),
       body := (body g)(len g := (body g (len g))\<lparr>cx := fst p, cy := snd p\<rparr>), len := len g + 1\<rparr>"

lemma screen_first: "g\<lparr>body := b, con := t\<rparr> = g\<lparr>con := t, body := b\<rparr>"
  by simp

lemma plot_drew: "drew g (plot text p g) [p]"
  by (auto simp: drew_def plot_def cells_def upto_rec2 [of 0 "len g"])

lemma plot_fields [simp]:
  "snake_length (plot text p g) = snake_length g" "len (plot text p g) = len g + 1" "head (plot text p g) = head g"
  by (simp_all add: plot_def)

lemma plain_marks [simp]: "plain_text ''o''" "plain_text ''>''" "plain_text ''<''" "plain_text ''^''" "plain_text ''v''"
  by (simp_all add: plain_text_def)

lemma bend_cells_step:
  assumes "0 \<le> len g" and "len g < 30"
  shows "bend_cells checked at (j # js) g =
    (if checked \<and> \<not> len g < snake_length g then Some g
     else if len g + 1 = snake_length g then Some (plot ''o'' (at j) g) else bend_cells checked at js (plot ''o'' (at j) g))"
  using assms by (cases "at j") (auto simp: put_body_def say_plain gotoxy_def plot_def screen_first Let_def)

lemma straight_step:
  assumes "0 \<le> len g" and "len g < 30" and "plain_text tip"
  shows "straight at tip (i # is) g =
    (if len g < snake_length g then straight at tip is (plot (if len g = 0 then tip else ''o'') (at i) g) else Some g)"
  using assms by (cases "at i") (auto simp: put_body_def say_plain gotoxy_def plot_def screen_first)

lemma right_cells_straight:
  "0 \<le> len g \<Longrightarrow> snake_length g \<le> 30 \<Longrightarrow> head g = h \<Longrightarrow> right_cells is g = straight (\<lambda>i. (cx h - i, cy h)) ''>'' is g"
proof (induction "is" arbitrary: g)
  case Nil
  then show ?case by simp
next
  case (Cons i "is")
  show ?case
  proof (cases "len g < snake_length g")
    case True
    let ?g = "plot (if len g = 0 then ''>'' else ''o'') (cx h - i, cy h) g"
    have "right_cells (i # is) g = right_cells is ?g"
      using True Cons.prems by (auto simp: put_body_def say_plain gotoxy_def plot_def screen_first)
    moreover have "straight (\<lambda>i. (cx h - i, cy h)) ''>'' (i # is) g = straight (\<lambda>i. (cx h - i, cy h)) ''>'' is ?g"
      using True Cons.prems by (subst straight_step) simp_all
    ultimately show ?thesis using Cons by simp
  qed simp
qed

lemma take_more: "0 \<le> n \<Longrightarrow> 0 < l - n \<Longrightarrow> take (nat (l - n)) (x # xs) = x # take (nat (l - (n + 1))) xs"
  by (cases "nat (l - n)") (auto simp: nat_diff_distrib' intro!: arg_cong2 [where f = take])

lemma bend_cells_draw:
  "\<lbrakk>0 \<le> len g; len g < snake_length g; snake_length g \<le> 30\<rbrakk> \<Longrightarrow>
   \<exists>g'. bend_cells checked at js g = Some g' \<and> drew g g' (take (nat (snake_length g - len g)) (map at js))"
proof (induction js arbitrary: g)
  case Nil
  then show ?case using drew_Nil by auto
next
  case (Cons j js)
  let ?g = "plot ''o'' (at j) g"
  have step: "bend_cells checked at (j # js) g = (if len g + 1 = snake_length g then Some ?g else bend_cells checked at js ?g)"
    using bend_cells_step [of g checked at j js] Cons.prems by simp
  have split: "take (nat (snake_length g - len g)) (map at (j # js)) = at j # take (nat (snake_length g - (len g + 1))) (map at js)"
    using take_more [of "len g" "snake_length g" "at j" "map at js"] Cons.prems by simp
  show ?case
  proof (cases "len g + 1 = snake_length g")
    case True
    then show ?thesis using step split plot_drew by simp
  next
    case False
    then obtain g' where "bend_cells checked at js ?g = Some g'" "drew ?g g' (take (nat (snake_length g - (len g + 1))) (map at js))"
      using Cons.IH [of ?g] Cons.prems by auto
    then show ?thesis using step split False drew_trans [OF plot_drew] by fastforce
  qed
qed

lemma straight_draw:
  "\<lbrakk>0 \<le> len g; len g \<le> snake_length g; snake_length g \<le> 30; plain_text tip\<rbrakk> \<Longrightarrow>
   \<exists>g'. straight at tip is g = Some g' \<and> drew g g' (take (nat (snake_length g - len g)) (map at is))"
proof (induction "is" arbitrary: g)
  case Nil
  then show ?case using drew_Nil by auto
next
  case (Cons i "is")
  let ?g = "plot (if len g = 0 then tip else ''o'') (at i) g"
  show ?case
  proof (cases "len g < snake_length g")
    case True
    then have step: "straight at tip (i # is) g = straight at tip is ?g"
      using straight_step [of g tip at i "is"] Cons.prems by simp
    have split: "take (nat (snake_length g - len g)) (map at (i # is)) = at i # take (nat (snake_length g - (len g + 1))) (map at is)"
      using take_more [of "len g" "snake_length g" "at i" "map at is"] Cons.prems True by simp
    obtain g' where "straight at tip is ?g = Some g'" "drew ?g g' (take (nat (snake_length g - (len g + 1))) (map at is))"
      using Cons.IH [of ?g] Cons.prems True by auto
    then show ?thesis using step split drew_trans [OF plot_drew] by fastforce
  next
    case False
    then show ?thesis using Cons.prems by simp
  qed
qed


text \<open>The loops of \<^verbatim>\<open>Bend\<close> follow the trail from corner to corner.\<close>

lemma bend_segment_draw:
  assumes "0 \<le> len g" and "len g < snake_length g" and "snake_length g \<le> 30"
  shows "\<exists>g'. bend_segment b b' g = Some g' \<and> drew g g' (take (nat (snake_length g - len g)) (walk b b'))"
proof -
  let ?n = "[1..max \<bar>cx b' - cx b\<bar> \<bar>cy b' - cy b\<bar>]"
  have cells: "\<exists>g'. bend_cells c at ?n g = Some g' \<and> drew g g' (take (nat (snake_length g - len g)) (map at ?n))" for c at
    using bend_cells_draw [OF assms] .
  consider "cx b = cx b'" "cy b < cy b'" | "cx b = cx b'" "cy b > cy b'" | "cx b = cx b'" "cy b = cy b'"
    | "cx b < cx b'" "cy b = cy b'" | "cx b > cx b'" "cy b = cy b'" | "cx b \<noteq> cx b'" "cy b \<noteq> cy b'" by linarith
  then show ?thesis
  proof cases
    case 1
    then show ?thesis using cells [of False "\<lambda>j. (cx b, cy b + j)"] by (simp add: bend_segment_def walk_def)
  next
    case 2
    then show ?thesis using cells [of False "\<lambda>j. (cx b, cy b - j)"] by (simp add: bend_segment_def walk_def)
  next
    case 4
    then show ?thesis using cells [of True "\<lambda>j. (cx b + j, cy b)"] by (simp add: bend_segment_def walk_def)
  next
    case 5
    then show ?thesis using cells [of True "\<lambda>j. (cx b - j, cy b)"] by (simp add: bend_segment_def walk_def)
  qed (auto simp: bend_segment_def walk_def)
qed

lemma bend_loop_draw:
  "\<lbrakk>0 \<le> len g; len g \<le> snake_length g; snake_length g \<le> 30; \<forall>i\<in>set is. 0 \<le> i \<and> i < 500\<rbrakk> \<Longrightarrow>
   \<exists>g'. bend_loop is g = Some g' \<and> drew g g' (take (nat (snake_length g - len g)) (bends_trail (bend g) is))"
proof (induction "is" arbitrary: g)
  case Nil
  then show ?case using drew_Nil by (auto simp: bends_trail_def)
next
  case (Cons i "is")
  show ?case
  proof (cases "len g < snake_length g")
    case True
    let ?w = "walk (bend g i) (bend g (i - 1))" and ?n = "nat (snake_length g - len g)"
    obtain g1 where g1: "bend_segment (bend g i) (bend g (i - 1)) g = Some g1" "drew g g1 (take ?n ?w)"
      using bend_segment_draw [of g] True Cons.prems by blast
    have f: "snake_length g1 = snake_length g" "bend g1 = bend g" "len g1 = len g + int (min ?n (length ?w))"
      using drew_fields [OF g1(2)] by (auto simp: min.commute)
    have "len g1 \<le> snake_length g1" "0 \<le> len g1" using f Cons.prems(1) True by auto
    then obtain g' where g': "bend_loop is g1 = Some g'" "drew g1 g' (take (nat (snake_length g - len g1)) (bends_trail (bend g) is))"
      using Cons.IH [of g1] Cons.prems(3,4) f(1,2) by auto
    have "nat (snake_length g - len g1) = ?n - length ?w" using f(3) True by (auto simp: min_def)
    then have "drew g g' (take ?n (bends_trail (bend g) (i # is)))"
      using drew_trans [OF g1(2) g'(2)] by (simp add: bends_trail_def)
    moreover have "bend_loop (i # is) g = Some g'" using True Cons.prems(4) g1(1) g'(1) by (simp add: bend_at_def)
    ultimately show ?thesis by blast
  next
    case False
    then show ?thesis using Cons.prems(2) by auto
  qed
qed

text \<open>The last corner lies straight behind the head.\<close>

definition aligned :: "game \<Rightarrow> bool" where
  "aligned g \<longleftrightarrow>
     (let h = head g; b = bend g (bend_no g) in
      0 \<le> bend_no g \<and> bend_no g < 500
    \<and> (direction h = RIGHT \<and> cy b = cy h \<and> cx b \<le> cx h \<or> direction h = LEFT \<and> cy b = cy h \<and> cx h \<le> cx b
      \<or> direction h = DOWN \<and> cx b = cx h \<and> cy b \<le> cy h \<or> direction h = UP \<and> cx b = cx h \<and> cy h \<le> cy b))"

definition ahead :: "coordinate \<Rightarrow> coordinate" where
  "ahead h = (if direction h = RIGHT then h\<lparr>cx := cx h + 1\<rparr> else if direction h = LEFT then h\<lparr>cx := cx h - 1\<rparr>
              else if direction h = DOWN then h\<lparr>cy := cy h + 1\<rparr> else h\<lparr>cy := cy h - 1\<rparr>)"

lemma straight_trail:
  assumes "b = bend g (bend_no g)" and "0 \<le> len g" and "len g = 0" and "0 \<le> snake_length g" and "snake_length g \<le> 30"
    and "0 \<le> bend_no g" and "bend_no g < 500" and "plain_text tip"
    and "map at is = (cx (head g), cy (head g)) # walk (head g) b"
  shows "\<exists>g'. (do { g \<leftarrow> straight at tip is g; Bend g }) = Some g' \<and> drew g g' (take (nat (snake_length g)) (trail g))"
proof -
  let ?n = "nat (snake_length g)" and ?s = "map at is"
  obtain g1 where g1: "straight at tip is g = Some g1" "drew g g1 (take ?n ?s)"
    using straight_draw [of g tip at "is"] assms by auto
  have f: "snake_length g1 = snake_length g" "bend g1 = bend g" "bend_no g1 = bend_no g" "len g1 = int (min ?n (length ?s))"
    using drew_fields [OF g1(2)] assms(3) by (auto simp: min.commute)
  have "len g1 \<le> snake_length g1" "0 \<le> len g1" using f assms(4) by auto
  then obtain g' where g': "Bend g1 = Some g'"
    "drew g1 g' (take (nat (snake_length g - len g1)) (bends_trail (bend g) (rev [0..bend_no g])))"
    unfolding Bend_def using bend_loop_draw [of g1 "rev [0..bend_no g]"] assms(5,7) f(1-3) by auto
  have "nat (snake_length g - len g1) = ?n - length ?s" using f(4) assms(4) by (auto simp: min_def)
  moreover have "trail g = ?s @ bends_trail (bend g) (rev [0..bend_no g])" using assms(1,9) by (simp add: trail_def)
  ultimately have "take ?n (trail g) = take ?n ?s @ take (nat (snake_length g - len g1)) (bends_trail (bend g) (rev [0..bend_no g]))"
    by (simp only: take_append length_map)
  then show ?thesis using drew_trans [OF g1(2) g'(2)] g1(1) g'(1) by simp
qed

lemma walk_row: "cy q = cy p \<Longrightarrow> cx q \<le> cx p \<Longrightarrow> (cx p, cy p) # walk p q = map (\<lambda>i. (cx p - i, cy p)) [0..cx p - cx q]"
  by (cases "cx q = cx p") (auto simp: walk_def upto_rec1 [of 0])

lemma walk_row_back: "cy q = cy p \<Longrightarrow> cx p \<le> cx q \<Longrightarrow> (cx p, cy p) # walk p q = map (\<lambda>i. (cx p + i, cy p)) [0..cx q - cx p]"
  by (cases "cx q = cx p") (auto simp: walk_def upto_rec1 [of 0])

lemma walk_column: "cx q = cx p \<Longrightarrow> cy q \<le> cy p \<Longrightarrow> (cx p, cy p) # walk p q = map (\<lambda>i. (cx p, cy p - i)) [0..cy p - cy q]"
  by (cases "cy q = cy p") (auto simp: walk_def upto_rec1 [of 0])

lemma walk_column_back: "cx q = cx p \<Longrightarrow> cy p \<le> cy q \<Longrightarrow> (cx p, cy p) # walk p q = map (\<lambda>i. (cx p, cy p + i)) [0..cy q - cy p]"
  by (cases "cy q = cy p") (auto simp: walk_def upto_rec1 [of 0])


lemma move_head_draw:
  assumes "aligned g" and "len g = 0" and "0 \<le> snake_length g" and "snake_length g \<le> 30"
  shows "\<exists>d. drew g d (take (nat (snake_length g)) (trail g))
    \<and> move_head g = Some (if isButtonPressed (con g) = 1 then d else d\<lparr>head := ahead (head g)\<rparr>)"
proof -
  let ?h = "head g" and ?b = "bend g (bend_no g)"
  have n: "0 \<le> bend_no g" "bend_no g < 500" using assms(1) by (auto simp: aligned_def Let_def)
  then have b: "bend_at (bend_no g) g = Some ?b" by (simp add: bend_at_def)
  have draw: "\<exists>d. (do { g \<leftarrow> straight at tip is g; Bend g }) = Some d \<and> drew g d (take (nat (snake_length g)) (trail g))"
    if "plain_text tip" "map at is = (cx ?h, cy ?h) # walk ?h ?b" for at tip "is"
    using straight_trail [OF refl _ assms(2,3,4) n that] assms(2) by simp
  have then_step: "do { g \<leftarrow> straight at tip is g; g \<leftarrow> Bend g; Some (step_head dx dy g) } = Some (step_head dx dy d)"
    if "(do { g \<leftarrow> straight at tip is g; Bend g }) = Some d" for at tip "is" d dx dy
    using that by (auto simp: bind_eq_Some_conv)
  consider "direction ?h = RIGHT" "cy ?b = cy ?h" "cx ?b \<le> cx ?h" | "direction ?h = LEFT" "cy ?b = cy ?h" "cx ?h \<le> cx ?b"
    | "direction ?h = DOWN" "cx ?b = cx ?h" "cy ?b \<le> cy ?h" | "direction ?h = UP" "cx ?b = cx ?h" "cy ?h \<le> cy ?b"
    using assms(1) by (auto simp: aligned_def Let_def)
  then show ?thesis
  proof cases
    case 1
    let ?at = "\<lambda>i. (cx ?h - i, cy ?h)" and ?is = "[0..cx ?h - cx ?b]"
    obtain d where d: "(do { g \<leftarrow> straight ?at ''>'' ?is g; Bend g }) = Some d" "drew g d (take (nat (snake_length g)) (trail g))"
      using draw [of "''>''" ?at ?is] walk_row [OF 1(2,3)] by auto
    have "right_cells ?is g = straight ?at ''>'' ?is g" using right_cells_straight [of g ?h ?is] assms(2,4) by simp
    then show ?thesis using d(2) 1(1) b then_step [OF d(1)] drew_fields [OF d(2)]
      by (auto simp: move_head_def Right_move_def step_head_def ahead_def)
  next
    case 2
    let ?at = "\<lambda>i. (cx ?h + i, cy ?h)" and ?is = "[0..cx ?b - cx ?h]"
    obtain d where d: "(do { g \<leftarrow> straight ?at ''<'' ?is g; Bend g }) = Some d" "drew g d (take (nat (snake_length g)) (trail g))"
      using draw [of "''<''" ?at ?is] walk_row_back [OF 2(2,3)] by auto
    then show ?thesis using 2(1) b then_step [OF d(1)] drew_fields [OF d(2)]
      by (auto simp: move_head_def Left_move_def step_head_def ahead_def)
  next
    case 3
    let ?at = "\<lambda>i. (cx ?h, cy ?h - i)" and ?is = "[0..cy ?h - cy ?b]"
    obtain d where d: "(do { g \<leftarrow> straight ?at ''v'' ?is g; Bend g }) = Some d" "drew g d (take (nat (snake_length g)) (trail g))"
      using draw [of "''v''" ?at ?is] walk_column [OF 3(2,3)] by auto
    then show ?thesis using 3(1) b then_step [OF d(1)] drew_fields [OF d(2)]
      by (auto simp: move_head_def Down_move_def step_head_def ahead_def)
  next
    case 4
    let ?at = "\<lambda>i. (cx ?h, cy ?h + i)" and ?is = "[0..cy ?b - cy ?h]"
    obtain d where d: "(do { g \<leftarrow> straight ?at ''^'' ?is g; Bend g }) = Some d" "drew g d (take (nat (snake_length g)) (trail g))"
      using draw [of "''^''" ?at ?is] walk_column_back [OF 4(2,3)] by auto
    then show ?thesis using 4(1) b then_step [OF d(1)] drew_fields [OF d(2)]
      by (auto simp: move_head_def Up_move_def step_head_def ahead_def)
  qed
qed


section \<open>A round\<close>

text \<open>What only prints: the rest of the game and the state of the keys stay.\<close>

definition prints :: "game \<Rightarrow> game \<Rightarrow> bool" where
  "prints g g' \<longleftrightarrow> (\<exists>t. g' = g\<lparr>con := t\<rparr> \<and> isButtonPressed t = isButtonPressed (con g) \<and> isNextCharReady t = isNextCharReady (con g))"

lemma prints_trans: "prints g g1 \<Longrightarrow> prints g1 g2 \<Longrightarrow> prints g g2"
  by (auto simp: prints_def)

lemma prints_self [simp]: "prints g (g\<lparr>con := monWrite t (con g)\<rparr>)" "prints g (gotoxy p g)" "prints g (clear_screen g)"
  by (auto simp: prints_def gotoxy_def clear_screen_def monInit_def move_cursor_def Let_def)

lemma draw_at_prints: "plain_text text \<Longrightarrow> \<exists>g'. draw_at text p g = Some g' \<and> prints g g'"
  using prints_trans [OF prints_self(2) prints_self(1)] by (simp add: draw_at_def say_plain)

lemma foldM_prints:
  assumes "\<And>i g. \<exists>g'. f i g = Some g' \<and> prints g g'"
  shows "\<exists>g'. foldM f xs g = Some g' \<and> prints g g'"
proof (induction xs arbitrary: g)
  case Nil
  then show ?case by (auto simp: prints_def intro: exI [of _ "con g"])
next
  case (Cons x xs)
  obtain g1 where "f x g = Some g1" "prints g g1" using assms by blast
  with Cons [of g1] prints_trans show ?case by fastforce
qed

lemma Boarder_prints: "\<exists>g'. Boarder g = Some g' \<and> prints g g'"
proof -
  have mark: "plain_text ''X''" "plain_text ''#''" by (simp_all add: plain_text_def)
  obtain g1 where g1: "draw_at ''X'' (cx (food g), cy (food g)) (clear_screen g) = Some g1" "prints g g1"
    using draw_at_prints [OF mark(1)] prints_trans [OF prints_self(3)] by blast
  have two: "\<exists>g'. (do { g \<leftarrow> draw_at ''#'' p g; draw_at ''#'' q g }) = Some g' \<and> prints g g'" for p q g
  proof -
    obtain h where h: "draw_at ''#'' p g = Some h" "prints g h" using draw_at_prints [OF mark(2)] by blast
    obtain h' where "draw_at ''#'' q h = Some h'" "prints h h'" using draw_at_prints [OF mark(2)] by blast
    then show ?thesis using h prints_trans by auto
  qed
  obtain g2 where g2: "foldM (\<lambda>i g. do { g \<leftarrow> draw_at ''#'' (i, 0) g; draw_at ''#'' (i, 24) g }) [0..78] g1 = Some g2" "prints g1 g2"
    using foldM_prints [of "\<lambda>i g. do { g \<leftarrow> draw_at ''#'' (i, 0) g; draw_at ''#'' (i, 24) g }", OF two] by blast
  obtain g3 where "foldM (\<lambda>i g. do { g \<leftarrow> draw_at ''#'' (0, i) g; draw_at ''#'' (79, i) g }) [0..23] g2 = Some g3" "prints g2 g3"
    using foldM_prints [of "\<lambda>i g. do { g \<leftarrow> draw_at ''#'' (0, i) g; draw_at ''#'' (79, i) g }", OF two] by blast
  then have "Boarder g = Some g3" "prints g g3"
    unfolding Boarder_def using g1 g2 prints_trans by (simp del: upto.simps, blast)
  then show ?thesis by blast
qed

lemma Score_prints: "\<exists>g'. Score l g = Some (snake_length g - 5, g') \<and> prints g g'"
proof -
  obtain t1 t2 where t: "score_text l = t1 @ ''%d''" "plain_text t1" "life_text l = t2 @ ''%d''" "plain_text t2"
  proof (cases l)
    case ENGLISH
    then show ?thesis using that [of "''SCORE : ''" "''Life : ''"] by (simp add: score_text_def life_text_def plain_text_def)
  next
    case GREEK
    then show ?thesis using that [of "''VATHMOLOGIA : ''" "''Zwi : ''"] by (simp add: score_text_def life_text_def plain_text_def)
  next
    case SPANISH
    then show ?thesis using that [of "''PUNTUACION : ''" "''Vida : ''"] by (simp add: score_text_def life_text_def plain_text_def)
  qed
  have number: "\<exists>g'. say (cs @ ''%d'') [v] (gotoxy p g) = Some g' \<and> prints g g'" if "plain_text cs" for cs v p g
    using say_number [OF that, of v "gotoxy p g"] prints_trans [OF prints_self(2) [of g p] prints_self(1)] by auto
  obtain g1 where g1: "say (score_text l) [of_int (snake_length g - 5)] (gotoxy (20, 8) g) = Some g1" "prints g g1"
    using number [OF t(2)] t(1) by force
  obtain g2 where g2: "say (life_text l) [of_int (life g1)] (gotoxy (50, 8) g1) = Some g2" "prints g1 g2"
    using number [OF t(4)] t(3) by force
  have "snake_length g2 = snake_length g" using g1(2) g2(2) by (auto simp: prints_def)
  then have "Score l g = Some (snake_length g - 5, g2)" unfolding Score_def using g1(1) g2(1) by simp
  then show ?thesis using prints_trans [OF g1(2) g2(2)] by blast
qed

text \<open>The food lies inside the border.\<close>

definition food_inside :: "game \<Rightarrow> bool" where
  "food_inside g \<longleftrightarrow> 0 < cx (food g) \<and> cx (food g) < 78 \<and> 0 < cy (food g) \<and> cy (food g) < 23"

lemma place_food_fields:
  "\<exists>f s. place_food g = g\<lparr>food := f, rand_next := s\<rparr> \<and> food_inside (place_food g)"
  by (auto simp: place_food_def food_inside_def Let_def split: prod.split intro!: pos_mod_bound)

lemma Food_fields:
  "\<exists>n f s. Food g = g\<lparr>snake_length := n, food := f, rand_next := s\<rparr>
    \<and> n = snake_length g + (if cx (head g) = cx (food g) \<and> cy (head g) = cy (food g) then 1 else 0)
    \<and> (cx (food g) = 0 \<or> food_inside g \<longrightarrow> food_inside (Food g))"
  using place_food_fields
    [of "g\<lparr>snake_length := snake_length g + 1, rand_next := srand (ucast (get_clock_tick (ticks g (rounds g))))\<rparr>"]
    place_food_fields [of g]
  by (cases g) (auto simp: Food_def food_inside_def)


text \<open>The snake stands still in a round before which a key was read, when no interrupt of the keyboard arrives.\<close>

definition stopped :: "game \<Rightarrow> bool" where
  "stopped g \<longleftrightarrow> isNextCharReady (con g) = 1 \<and> isButtonPressed (con g) = 0 \<and> waits g (rounds g) = []"

lemma keyboard_fields: "isNextCharReady (fold keyboard_handler codes t) = isNextCharReady t
    \<and> isButtonPressed (fold keyboard_handler codes t) = (if codes = [] then isButtonPressed t else 1)"
  by (induction codes arbitrary: t) (auto simp: keyboard_handler_def)

lemma sample_button_stopped:
  "isButtonPressed (con (sample_button (pause g))) = (if stopped g then 1 else 0)"
  using keyboard_fields [of "waits g (rounds g)" "con g"] by (simp add: sample_button_def pause_def stopped_def)

lemma trail_cong: "head g' = head g \<Longrightarrow> bend g' = bend g \<Longrightarrow> bend_no g' = bend_no g \<Longrightarrow> trail g' = trail g \<and> aligned g' = aligned g"
  by (simp add: trail_def aligned_def)

text \<open>
  C40: a round with at most 29 cells always completes: the body is the first cells of the trail that the head has left, from
  corner to corner, with one more when the head is on the food; the next food is inside the border; and the head goes one
  cell on in its direction, except after a key that was read when no other interrupt of the keyboard arrives in the pause.
  The trail of a snake without enough corners runs on to \<^verbatim>\<open>bend[-1]\<close>, the memory in front of the array.
\<close>

theorem snake_round:
  assumes "aligned g" and "0 \<le> snake_length g" and "snake_length g < 30" and "cx (food g) = 0 \<or> food_inside g"
  shows "\<exists>g'. one_round l g = Some g'
    \<and> snake_length g' = snake_length g + (if cx (head g) = cx (food g) \<and> cy (head g) = cy (food g) then 1 else 0)
    \<and> cells g' = take (nat (snake_length g')) (trail g) \<and> food_inside g'
    \<and> head g' = (if stopped g then head g else ahead (head g)) \<and> aligned g'
    \<and> isButtonPressed (con g') = (if stopped g then 1 else 0)"
proof -
  let ?g0 = "clear_body ((Food g)\<lparr>len := 0\<rparr>)"
  obtain n f s where food: "Food g = g\<lparr>snake_length := n, food := f, rand_next := s\<rparr>"
    "n = snake_length g + (if cx (head g) = cx (food g) \<and> cy (head g) = cy (food g) then 1 else 0)" "food_inside (Food g)"
    using Food_fields [of g] assms(4) by blast
  obtain b where g0: "?g0 = g\<lparr>snake_length := n, food := f, rand_next := s, len := 0, body := b\<rparr>"
    by (simp add: clear_body_def food(1))
  obtain g1 where g1: "Score l ?g0 = Some (snake_length ?g0 - 5, g1)" "prints ?g0 g1" using Score_prints by blast
  let ?g2 = "sample_button (pause g1)"
  obtain g3 where g3: "Boarder ?g2 = Some g3" "prints ?g2 g3" using Boarder_prints by blast
  obtain t where eq: "g3 = ?g0\<lparr>con := t\<rparr>"
    using g1(2) g3(2) by (auto simp: prints_def sample_button_def pause_def)
  have fields: "head g3 = head g" "bend g3 = bend g" "bend_no g3 = bend_no g" "len g3 = 0" "snake_length g3 = n" "food g3 = f"
    unfolding eq g0 by simp_all
  have "stopped g1 = stopped g" using g1(2) by (auto simp: prints_def stopped_def g0)
  then have button: "isButtonPressed (con g3) = (if stopped g then 1 else 0)"
    using g3(2) sample_button_stopped [of g1] by (auto simp: prints_def)
  have same: "trail g3 = trail g" "aligned g3" using trail_cong [of g3 g] fields assms(1) by auto
  have "0 \<le> n" "n \<le> 30" using food(2) assms(2,3) by auto
  then obtain d where d: "drew g3 d (take (nat n) (trail g))"
    "move_head g3 = Some (if isButtonPressed (con g3) = 1 then d else d\<lparr>head := ahead (head g3)\<rparr>)"
    using move_head_draw [OF same(2) fields(4)] same(1) fields(5) by auto
  let ?g' = "(if stopped g then d else d\<lparr>head := ahead (head g)\<rparr>)\<lparr>rounds := rounds d + 1\<rparr>"
  have "one_round l g = Some ?g'"
    using g1(1) g3(1) d(2) button fields(1) by (auto simp: one_round_def Let_def)
  moreover have "cells ?g' = take (nat n) (trail g)"
  proof -
    have "cells d = cells g3 @ take (nat n) (trail g)" using d(1) fields(4) by (simp add: drew_def)
    moreover have "cells g3 = []" by (simp add: cells_def fields)
    ultimately show ?thesis by (simp add: cells_def)
  qed
  moreover have "aligned ?g'"
    using assms(1) drew_fields [OF d(1)] fields by (auto simp: aligned_def ahead_def Let_def)
  moreover have "food d = f" using drew_fields [OF d(1)] fields(6) by simp
  ultimately show ?thesis
    using drew_fields [OF d(1)] fields button food by (auto simp: food_inside_def)
qed


text \<open>A snake that has turned down once, with a key pressed in the pause.\<close>

definition turned_snake :: game where
  "turned_snake =
     \<lparr>snake_length = 5, bend_no = 1, len = 5, key = DOWN, life = 3, head = \<lparr>cx = 25, cy = 22, direction = DOWN\<rparr>,
      bend = (\<lambda>i. if i = 1 then \<lparr>cx = 25, cy = 20, direction = RIGHT\<rparr> else \<lparr>cx = 20, cy = 20, direction = RIGHT\<rparr>),
      food = \<lparr>cx = 11, cy = 4, direction = 0\<rparr>, body = (\<lambda>_. \<lparr>cx = 0, cy = 0, direction = 0\<rparr>), con = blank_screen,
      rand_next = 1, ports = [], waits = (\<lambda>_. [0x1e]), ticks = of_nat, rounds = 0\<rparr>"

lemma snake_round_witness:
  "\<exists>g'. one_round ENGLISH turned_snake = Some g' \<and> cells g' = [(25, 22), (25, 21), (25, 20), (24, 20), (23, 20)]
    \<and> cx (head g') = 25 \<and> cy (head g') = 23 \<and> aligned g'"
proof -
  have t: "take 5 (trail turned_snake) = [(25, 22), (25, 21), (25, 20), (24, 20), (23, 20)]"
    by (simp add: turned_snake_def trail_def bends_trail_def walk_def upto.simps)
  have "aligned turned_snake" by (simp add: turned_snake_def aligned_def)
  moreover have "food_inside turned_snake" "snake_length turned_snake = 5" "\<not> stopped turned_snake" "ahead (head turned_snake) = \<lparr>cx = 25, cy = 23, direction = DOWN\<rparr>"
    "\<not> (cx (head turned_snake) = cx (food turned_snake) \<and> cy (head turned_snake) = cy (food turned_snake))"
    by (simp_all add: turned_snake_def food_inside_def stopped_def ahead_def)
  ultimately show ?thesis using snake_round [of turned_snake ENGLISH] t by auto
qed

section \<open>Turning, and the end of the game\<close>

lemma turn_aligned:
  "aligned g \<Longrightarrow> turns (key g) (direction (head g)) \<Longrightarrow> bend_no g < 499 \<Longrightarrow> \<exists>g'. turn g = Some g' \<and> aligned g'"
  by (auto simp: turn_def aligned_def turns_def Let_def)

text \<open>When the last life is lost the loop of \<^verbatim>\<open>Move\<close> goes on, with ever fewer lives.\<close>

lemma lost_game_goes_on:
  assumes "crashed g = Some True" and "life g \<le> 0"
  shows "\<exists>g'. ExitGame mv g = Some g' \<and> isButtonPressed (con g') = isButtonPressed (con g) \<and> life g' = life g - 1
    \<and> head g' = head g"
proof -
  have "plain_text game_over_text" by (simp add: plain_text_def game_over_text_def)
  then show ?thesis using assms
    by (simp add: ExitGame_def say_plain clear_screen_def monInit_def move_cursor_def Let_def)
qed

text \<open>One of the texts in Greek does not fit into the buffer of \<^verbatim>\<open>kprintf\<close>.\<close>

lemma greek_text_too_long: "256 < length (instructions GREEK ! 3)"
  by (simp add: instructions_def)

end
