(* ===== verification/Spec2Isabelle.thy ===== *)
theory Spec2Isabelle
  imports C_String C_Convert C_Printf Linked_List Paging Kmalloc Terminal Locks Sched Sync Initrd Fs Clock Interrupts Pci Syscalls Loader Shell Make_Initrd Snake
begin

text \<open>
  A verification development for the ArtOS kernel (\<^verbatim>\<open>src/ArtOS/ArtOS\<close>), a 32-bit x86 kernel in C.

  The program. \<^verbatim>\<open>boot.s\<close> enters \<^verbatim>\<open>main.c\<close>, which sets up the console, the memory, the descriptor tables, the
  interrupt controllers, the tasks and the file system and then starts the shell as a task. The parts
  call downwards: the tasks and the file system use the heap, the heap (\<^verbatim>\<open>mm/malloc.c\<close>) uses the list of
  virtual memory areas (\<^verbatim>\<open>mm/vma.c\<close>), the page tables (\<^verbatim>\<open>mm/page.c\<close>) and the frame bitmap (\<^verbatim>\<open>mm/memory.c\<close>);
  the area list itself allocates its nodes from the heap, a mutual recursion that the code relies on.

  Theories, in the order of the imports:
  \<^item> \<^verbatim>\<open>Kernel_Prelude\<close>: the machine types, \<^verbatim>\<open>include/config.h\<close> and \<^verbatim>\<open>include/errno.h\<close>, the byte memory and the shared
    lemmas on words, options and doubly linked chains.
  \<^item> \<^verbatim>\<open>C_String\<close>, \<^verbatim>\<open>C_Convert\<close>, \<^verbatim>\<open>C_Printf\<close>: \<^verbatim>\<open>libc/\<close> and \<^verbatim>\<open>include/ctype.h\<close> over a flat byte memory (a function from
    32-bit addresses to bytes). A routine that walks a string takes fuel only where the string may have no end;
    the lemmas show that the length of the string is enough. A signed overflow, undefined in C, is \<open>None\<close>.
  \<^item> \<^verbatim>\<open>Interfaces\<close>: the contracts between components as locales: a queue (\<open>fifo\<close>) and an allocator of frames
    (\<open>page_frames\<close>). \<^verbatim>\<open>Linked_List\<close> (\<^verbatim>\<open>fs/list.c\<close>) and \<^verbatim>\<open>Pmm\<close> (\<^verbatim>\<open>mm/memory.c\<close>) interpret them.
  \<^item> \<^verbatim>\<open>Vma\<close> (\<^verbatim>\<open>mm/vma.c\<close>): the area list on a store of nodes; the heap it allocates from is the locale \<open>vma_heap\<close>.
  \<^item> \<^verbatim>\<open>Paging\<close> (\<^verbatim>\<open>mm/page.c\<close>): the two-level tables in physical memory, reached through the self-reference of the
    directory; \<open>translate\<close> is the walk of the processor.
  \<^item> \<^verbatim>\<open>Kmalloc\<close> (\<^verbatim>\<open>mm/malloc.c\<close>, and \<^verbatim>\<open>memory_init\<close> and \<^verbatim>\<open>copy_page\<close> of \<^verbatim>\<open>mm/memory.c\<close>): the buddy heap. Its state extends
    the states below it. \<open>kmalloc d\<close> bounds the nesting of \<^verbatim>\<open>kmalloc\<close>, \<^verbatim>\<open>palloc\<close>, \<^verbatim>\<open>vma_alloc\<close> and \<^verbatim>\<open>kmalloc\<close> again by \<open>d\<close>;
    \<open>None\<close> is the fuel running out. The lemmas show that a request that the free lists can serve needs no nesting.
    It interprets \<open>vma_heap\<close>.
  \<^item> \<^verbatim>\<open>Terminal\<close> (\<^verbatim>\<open>video/terminal.c\<close>, \<^verbatim>\<open>devices/kb.c\<close>, and \<^verbatim>\<open>libc/stdio/\<close>): the console and the keyboard.
  \<^item> \<^verbatim>\<open>Locks\<close> (\<^verbatim>\<open>include/spinlock.h\<close>, \<^verbatim>\<open>include/lowlevel/atomic.h\<close>): the ticket locks, as functions and as a step relation
    with one step per access, over up to 16 tasks, so that the 32-bit tickets of the waiting tasks differ even when they wrap;
    \<open>MAX_NESTING\<close> bounds the nested calls of a task below the wrap of the counter.
  \<^item> \<^verbatim>\<open>Sched\<close> (\<^verbatim>\<open>sys/tasks.c\<close>, \<^verbatim>\<open>sys/scheduler.c\<close>, \<^verbatim>\<open>sys/tasksp.c\<close>): the task table, the ready queues and the switch.
  \<^item> \<^verbatim>\<open>Sync\<close> (\<^verbatim>\<open>include/semaphore.h\<close>, \<^verbatim>\<open>include/mailbox.h\<close>): semaphores with their queues of waiting tasks, and the
    mailboxes built of them; both interpret \<open>fifo\<close>. What the other tasks do while one waits is an argument.
  \<^item> \<^verbatim>\<open>Initrd\<close> (\<^verbatim>\<open>fs/initrd.c\<close>, the operations of the nodes) and \<^verbatim>\<open>Fs\<close> (\<^verbatim>\<open>fs/fs.c\<close>, and the image and the kernel log of
    \<^verbatim>\<open>fs/initrd.c\<close>): stores of nodes, lists of blocks and blocks of directory entries. The callbacks of a node are
    values of a datatype. The allocator is an argument; \<open>Fs\<close> also runs them on the heap of \<open>Kmalloc\<close>.
  \<^item> \<^verbatim>\<open>Clock\<close> (\<^verbatim>\<open>devices/cmos_rtc.c\<close>, \<^verbatim>\<open>devices/date.c\<close>, \<^verbatim>\<open>devices/timer.c\<close>, \<^verbatim>\<open>video/rand.c\<close>): the real-time clock, the
    timer and the random numbers. The chip is an argument.
  \<^item> \<^verbatim>\<open>Cpu_Tables\<close> (\<^verbatim>\<open>cpu/gdt.c\<close>, \<^verbatim>\<open>cpu/idt.c\<close>, \<^verbatim>\<open>cpu/isrs.c\<close>, \<^verbatim>\<open>cpu/irq.c\<close>): the descriptor tables, the task state
    segments and the initialisation of the interrupt controllers, whose ports are a list of writes.
    \<^verbatim>\<open>Processor\<close> (\<^verbatim>\<open>cpu/processor.c\<close>, \<^verbatim>\<open>include/lowlevel/processor.h\<close>): the features of the processor and its floating point
    registers. \<^verbatim>\<open>Apic\<close> (\<^verbatim>\<open>devices/apic.c\<close>): the advanced interrupt controllers, their tables and the routing of the lines.
  \<^item> \<^verbatim>\<open>Interrupts\<close> (\<^verbatim>\<open>cpu/irq.c\<close>, \<^verbatim>\<open>cpu/isrs.c\<close>, and the handlers of the other parts): what happens from an interrupt to the
    return from it, with the scheduler and the lazy switch of the floating point registers. A handler that aborts the
    task returns \<open>Aborted\<close> with the state in which the next task runs.
  \<^item> \<^verbatim>\<open>Pci\<close> (\<^verbatim>\<open>devices/pci.c\<close>): the search for a device, with the registers of the devices as state.
  \<^item> \<^verbatim>\<open>Syscalls\<close> (\<^verbatim>\<open>sys/syscall.c\<close>): the system calls on the machine with the console, the tasks and the memory areas.
  \<^item> \<^verbatim>\<open>Byte_Words\<close>: words in the byte memory. \<^verbatim>\<open>Program_Args\<close> and \<^verbatim>\<open>Loader\<close> (\<^verbatim>\<open>sys/tasksp.c\<close>, \<^verbatim>\<open>include/lowlevel/elf.h\<close>): the
    arguments of a program on their way from the caller to its stack, and the loading of its file; the state is the file
    system on the machine, whose byte memory is the address space of the task.
  \<^item> \<^verbatim>\<open>Kscanf\<close> (\<^verbatim>\<open>libc/stdio/kscanf.c\<close>): reading a line. \<^verbatim>\<open>Users\<close> (\<^verbatim>\<open>video/users.c\<close>) and \<^verbatim>\<open>Shell\<close> (\<^verbatim>\<open>video/shell.c\<close>,
    \<^verbatim>\<open>video/calc.c\<close>): the tables of users and commands as bytes, the login and the calculator.
  \<^item> \<^verbatim>\<open>Make_Initrd\<close> (\<^verbatim>\<open>tools/make_initrd.c\<close>): the image that the tool of the host writes, and what \<^verbatim>\<open>initrd_init\<close> finds in it.
  \<^item> \<^verbatim>\<open>Snake\<close> (\<^verbatim>\<open>video/snake.c\<close>): the game on the console. Its formats are literals in a memory of their own. \<^verbatim>\<open>Move\<close>, which
    \<^verbatim>\<open>ExitGame\<close> calls again, takes fuel; the lemmas are about a round, which takes none.

  The states of the kernel extend each other in the order of the theories, from the frames of \<^verbatim>\<open>Pmm\<close> over the areas, the
  page tables, the heap, the tasks, the descriptor tables, the processor and its interrupt controllers to the machine of
  \<^verbatim>\<open>Interrupts\<close> and \<^verbatim>\<open>Syscalls\<close>; an operation of a part works on every extension of its state.

  What the lemmas show: the string routines meet their C specification on separated buffers; \<^verbatim>\<open>strtol\<close> returns
  the clamped value of the numeral; printing a number and reading its digits gives it back; the list operations
  refine operations on lists; the frame bitmap hands out only free frames, and a put after a get restores it;
  the area list stays sorted and disjoint; an allocation from the heap and its release restore the free lists;
  the cursor stays on the screen; a spinlock is mutually exclusive in every interleaving; the scheduler keeps the
  ready tasks in the queues of their priorities and picks the first task of the highest one; a mailbox is a bounded
  queue; what is written to a file is read back, a directory that is made is found, and the search of a path ends;
  the time that the chip encodes is read back; every gate of the descriptor table leads to its stub; without
  the APIC an interrupt of a line ends the line that raised it and no other; a task that is preempted finds its floating point registers again;
  the redirection of the lines connects all but those at the pin of line 2, which it masks; \<^verbatim>\<open>sbrk\<close> moves the end of the heap as its increment says, up to the wrap;
  the arguments of a program are those its caller passes; a typed line arrives as its backspaces leave it; the shell
  accepts exactly the passwords of its users; a file that \<^verbatim>\<open>make_initrd\<close> packs is found in the image and read back; the
  snake is drawn along the trail of its head.

  Not modelled: effects of the TLB, of the port accesses outside the modelled devices, and of output on the
  screen beyond the video memory; diagnostic dumps; the messages of the shell in three languages, with the commands that
  only print and the command loop; the logo; the order of the initialisation in \<^verbatim>\<open>main.c\<close> and the assembler files;
  the names of the PCI devices in \<^verbatim>\<open>include/pci_list.h\<close>, a table that is compiled only with \<^verbatim>\<open>WITH_PCI_NAMES\<close>. The manifest
  lists the parts that are left out.
\<close>

end
